(* ===== verification/Prelude.thy ===== *)
theory Prelude
  imports Main "HOL-Library.Word" "HOL-Library.Signed_Division" "HOL-Library.Monad_Syntax"
begin

text \<open>
  Shared vocabulary of the development: the names of the machine integers, C's truncating
  division on the values the program divides, bounds-checked access to C arrays (an access
  outside the array is \<open>None\<close>, so a model that returns \<open>Some\<close> has shown its
  accesses are inside), C strings, and the two contracts that several components share:
  a handler that keeps an invariant, and a handler that never touches memory out of bounds.
\<close>

unbundle bit_operations_syntax

section \<open>Machine integers\<close>

type_synonym u8 = "8 word"
type_synonym u16 = "16 word"
type_synonym u32 = "32 word"

named_theorems c_arith \<open>C integer arithmetic rewritten to div and mod\<close>
named_theorems buf_simps \<open>bounds-checked array access\<close>

lemma sdiv_nonneg [c_arith]: "0 \<le> a \<Longrightarrow> 0 < b \<Longrightarrow> a sdiv b = a div b" for a b :: int
  by (cases "a = 0") (simp_all add: signed_divide_int_def)

lemma smod_nonneg [c_arith]: "0 \<le> a \<Longrightarrow> 0 < b \<Longrightarrow> a smod b = a mod b" for a b :: int
  by (cases "a = 0") (simp_all add: signed_modulo_int_def)

lemma smod_eq_0_iff [c_arith]: "0 < b \<Longrightarrow> a smod b = 0 \<longleftrightarrow> a mod b = 0" for a b :: int
  by (auto simp: signed_modulo_int_def sgn_if mod_eq_0_iff_dvd)

section \<open>Arrays\<close>

text \<open>
  \<open>buf_get\<close> reads one element, \<open>buf_put\<close> stores a run of elements (an assignment, a
  \<open>memcpy\<close>, a \<open>memset\<close>) from an offset on. Both are \<open>None\<close> outside the array.
\<close>

definition buf_get :: "'a list \<Rightarrow> nat \<Rightarrow> 'a option" where
  "buf_get b i = (if i < length b then Some (b ! i) else None)"

definition buf_put :: "'a list \<Rightarrow> nat \<Rightarrow> 'a list \<Rightarrow> 'a list option" where
  "buf_put b off xs =
     (if off + length xs \<le> length b
      then Some (take off b @ xs @ drop (off + length xs) b) else None)"

lemma buf_get_in [buf_simps, simp]: "i < length b \<Longrightarrow> buf_get b i = Some (b ! i)"
  by (simp add: buf_get_def)

lemma buf_get_Some_iff: "buf_get b i = Some x \<longleftrightarrow> i < length b \<and> b ! i = x"
  by (auto simp: buf_get_def)

lemma buf_put_in [buf_simps, simp]:
  "off + length xs \<le> length b \<Longrightarrow>
   buf_put b off xs = Some (take off b @ xs @ drop (off + length xs) b)"
  by (simp add: buf_put_def)

lemma buf_put_Some_iff:
  "buf_put b off xs = Some b' \<longleftrightarrow>
     off + length xs \<le> length b \<and> b' = take off b @ xs @ drop (off + length xs) b"
  by (auto simp: buf_put_def)

lemma buf_put_length [buf_simps]: "buf_put b off xs = Some b' \<Longrightarrow> length b' = length b"
  by (auto simp: buf_put_def split: if_splits)

lemma buf_put_read:
  "buf_put b off xs = Some b' \<Longrightarrow> take (length xs) (drop off b') = xs"
  by (auto simp: buf_put_def min_def split: if_splits)

lemma buf_put_before:
  "buf_put b off xs = Some b' \<Longrightarrow> n \<le> off \<Longrightarrow> take n b' = take n b"
  by (auto simp: buf_put_def min_def split: if_splits)

section \<open>Contracts shared by components\<close>

text \<open>
  A component whose handlers run one event at a time and keep an invariant. The law is the
  one-step preservation; the run lemmas are proved once here.
\<close>

locale invariant_machine =
  fixes step :: "'s \<Rightarrow> 'e \<Rightarrow> 's" and invariant :: "'s \<Rightarrow> bool"
  assumes step_invariant: "invariant s \<Longrightarrow> invariant (step s e)"
begin

lemma run_invariant: "invariant s \<Longrightarrow> invariant (foldl step s es)"
  by (induction es arbitrary: s) (auto intro: step_invariant)

lemma run_prefix_invariant:
  "invariant s \<Longrightarrow> invariant (foldl step s (take n es))"
  by (rule run_invariant)

end

text \<open>
  A handler that may fail on a memory access. It is memory safe from the states that satisfy
  the invariant: every event is handled, and the invariant is kept.
\<close>

locale safe_machine =
  fixes handle :: "'s \<Rightarrow> 'e \<Rightarrow> 's option" and invariant :: "'s \<Rightarrow> bool"
    and admissible :: "'e \<Rightarrow> bool"
  assumes handle_safe: "invariant s \<Longrightarrow> admissible e \<Longrightarrow> \<exists>s'. handle s e = Some s' \<and> invariant s'"
begin

fun run :: "'s \<Rightarrow> 'e list \<Rightarrow> 's option" where
  "run s [] = Some s"
| "run s (e # es) = (case handle s e of None \<Rightarrow> None | Some s' \<Rightarrow> run s' es)"

lemma run_safe:
  "invariant s \<Longrightarrow> \<forall>e \<in> set es. admissible e \<Longrightarrow> \<exists>s'. run s es = Some s' \<and> invariant s'"
proof (induction es arbitrary: s)
  case Nil
  then show ?case by simp
next
  case (Cons e es)
  then obtain s' where "handle s e = Some s'" "invariant s'"
    using handle_safe by (metis list.set_intros(1))
  with Cons.IH [of s'] Cons.prems show ?case by simp
qed

end

end
