(* ===== verification/Weekday.thy ===== *)
theory Weekday
  imports Calendar
begin

text \<open>
  Weekday arithmetic of src/clock.c: \<open>day_of_week\<close> (Zeller's congruence, Sunday is 0) and
  \<open>nth_weekday\<close>, translated with C's truncating division and remainder, and proved
  correct against the Gregorian calendar of theory Calendar.
\<close>

definition day_of_week :: "int \<Rightarrow> int \<Rightarrow> int \<Rightarrow> int" where
  "day_of_week day month0 year0 =
     (let month = (if month0 < 3 then month0 + 12 else month0);
          year = (if month0 < 3 then year0 - 1 else year0);
          K = year smod 100;
          J = year sdiv 100;
          h = (day + (13 * (month + 1)) sdiv 5 + K + K sdiv 4 + J sdiv 4 + 5 * J) smod 7
      in (h + 6) smod 7)"

definition days_in_month_table :: "int list" where
  "days_in_month_table = [0, 31, 28, 31, 30, 31, 30, 31, 31, 30, 31, 30, 31]"

text \<open>
  The table is indexed by a month the callers pass as a constant between 3 and 11; an index
  outside the table would be undefined behaviour, which \<open>None\<close> records.
\<close>

definition nth_weekday :: "int \<Rightarrow> int \<Rightarrow> int \<Rightarrow> int \<Rightarrow> int option" where
  "nth_weekday n target_wday month year =
     (let dow_first = day_of_week 1 month year;
          first_occurrence = 1 + (target_wday - dow_first + 7) smod 7
      in if n > 0 then Some (first_occurrence + (n - 1) * 7)
         else
           (let last = first_occurrence + 28;
                days_in_month =
                  (if year smod 4 = 0 \<and> (year smod 100 \<noteq> 0 \<or> year smod 400 = 0)
                   then days_in_month_table[2 := 29] else days_in_month_table)
            in case buf_get days_in_month (nat month) of
                 None \<Rightarrow> None
               | Some len \<Rightarrow> Some (if last > len then last - 7 else last)))"

section \<open>Zeller's congruence\<close>

lemma century_split:
  fixes y :: int
  shows "y mod 100 + y mod 100 div 4 + y div 100 div 4 + 5 * (y div 100)
    = days_before_year (y + 1) - 7 * (52 * y + 17 * (y div 100))"
proof -
  have "y = y mod 100 + 4 * (25 * (y div 100))"
    using mod_mult_div_eq [of y 100] by simp
  then have "y div 4 = y mod 100 div 4 + 25 * (y div 100)"
    by (metis div_mult_self2 add.commute zero_neq_numeral)
  moreover have "y div 100 div 4 = y div 400"
    using zdiv_zmult2_eq [of 4 y 100] by simp
  moreover have "y mod 100 = y - 100 * (y div 100)"
    by (simp add: minus_mult_div_eq_mod)
  moreover have "k + f + g' + 5 * j = 365 * y + q - j + g - 7 * (52 * y + 17 * j)"
    if "q = f + 25 * j" "g' = g" "k = y - 100 * j" for k f g g' j q :: int
    using that by simp
  ultimately show ?thesis
    unfolding days_before_year_def add_diff_cancel_right' by blast
qed

lemma zeller_sum:
  assumes "1 \<le> m" "m \<le> 12"
    and "m' = (if m < 3 then m + 12 else m)" "y' = (if m < 3 then y - 1 else y)"
  shows "\<exists>k. d + (13 * (m' + 1)) div 5 + days_before_year (y' + 1) + 6
    = epoch_day y m d + 4 + 7 * k"
proof (cases "m < 3")
  case True
  then consider "m = 1" | "m = 2" using assms(1) by linarith
  then show ?thesis
  proof cases
    case 1
    have "\<exists>k::int. d + 36 + days_before_year y + 6 = days_before_year y + 0 + d - 1 - 719162 + 4 + 7 * k"
      by (rule exI [of _ "102743"]) simp
    with 1 assms show ?thesis by (simp add: epoch_day_def)
  next
    case 2
    have "\<exists>k::int. d + 39 + days_before_year y + 6 = days_before_year y + 31 + d - 1 - 719162 + 4 + 7 * k"
      by (rule exI [of _ "102739"]) simp
    with 2 assms show ?thesis by (simp add: epoch_day_def)
  qed
next
  case False
  define c where "c = days_before_month y m - (if leap_year y then 1 else 0)"
  have "epoch_day y m d = days_before_year (y + 1) - 365 + c + d - 719163"
    using days_before_year_Suc [of y] by (simp add: epoch_day_def c_def year_length_def)
  moreover have "\<exists>k. (13 * (m + 1)) div 5 + 6 = c - 365 - 719163 + 4 + 7 * k"
    by (rule month_cases [OF assms(1,2)]; use False in \<open>simp add: c_def; presburger\<close>)
  moreover have m': "m' = m" "y' = y" using False assms(3,4) by simp_all
  ultimately obtain k where "epoch_day y m d = days_before_year (y + 1) - 365 + c + d - 719163"
    and "(13 * (m + 1)) div 5 + 6 = c - 365 - 719163 + 4 + 7 * k" by blast
  then show ?thesis unfolding m' by (intro exI [of _ k]) simp
qed

lemma mod_eq_of_multiple: "\<exists>k. a = b + c * k \<Longrightarrow> a mod c = b mod c" for a b c :: int
  by auto

lemma day_of_week_weekday:
  assumes "1 \<le> m" "m \<le> 12" "1 \<le> y" "0 \<le> d"
  shows "day_of_week d m y = weekday y m d"
proof -
  define m' where "m' = (if m < 3 then m + 12 else m)"
  define y' where "y' = (if m < 3 then y - 1 else y)"
  define S where "S = d + (13 * (m' + 1)) div 5 + y' mod 100 + y' mod 100 div 4
    + y' div 100 div 4 + 5 * (y' div 100)"
  have pos: "0 \<le> m'" "0 \<le> y'" using assms by (auto simp: m'_def y'_def)
  have S0: "0 \<le> S"
    using pos assms(4) by (simp add: S_def pos_imp_zdiv_nonneg_iff)
  have "y' smod 100 = y' mod 100" "y' sdiv 100 = y' div 100"
      "(13 * (m' + 1)) sdiv 5 = (13 * (m' + 1)) div 5"
      "y' mod 100 sdiv 4 = y' mod 100 div 4" "y' div 100 sdiv 4 = y' div 100 div 4"
    using pos by (simp_all add: sdiv_nonneg smod_nonneg pos_imp_zdiv_nonneg_iff)
  then have "day_of_week d m y = (S smod 7 + 6) smod 7"
    unfolding day_of_week_def Let_def m'_def [symmetric] y'_def [symmetric] by (simp only: S_def)
  also have "\<dots> = (S mod 7 + 6) mod 7"
    using S0 by (simp add: smod_nonneg)
  also have "\<dots> = (S + 6) mod 7" by (simp add: mod_add_left_eq)
  also have "\<dots> = (epoch_day y m d + 4) mod 7"
  proof -
    have "S + 6 = d + (13 * (m' + 1)) div 5 + days_before_year (y' + 1) + 6
        + 7 * - (52 * y' + 17 * (y' div 100))"
      using century_split [of y'] by (simp add: S_def)
    moreover obtain k where "d + (13 * (m' + 1)) div 5 + days_before_year (y' + 1) + 6
        = epoch_day y m d + 4 + 7 * k"
      using zeller_sum [OF assms(1,2) m'_def y'_def, of d] by blast
    ultimately have "S + 6 = epoch_day y m d + 4 + 7 * (k - (52 * y' + 17 * (y' div 100)))"
      by (simp add: algebra_simps)
    then show ?thesis by (intro mod_eq_of_multiple exI)
  qed
  finally show ?thesis by (simp add: weekday_def)
qed

lemma day_of_week_range: "1 \<le> m \<Longrightarrow> m \<le> 12 \<Longrightarrow> 1 \<le> y \<Longrightarrow> 0 \<le> d \<Longrightarrow>
    0 \<le> day_of_week d m y \<and> day_of_week d m y < 7"
  by (simp add: day_of_week_weekday weekday_def)

lemma epoch_day_add: "epoch_day y m (d + k) = epoch_day y m d + k"
  by (simp add: epoch_day_def)

lemma weekday_add: "weekday y m (d + k) = (weekday y m d + k) mod 7"
proof -
  have "epoch_day y m (d + k) + 4 = (epoch_day y m d + 4) + k" by (simp add: epoch_day_add)
  then show ?thesis unfolding weekday_def by (simp only: mod_add_left_eq)
qed

section \<open>The n-th and the last weekday of a month\<close>

lemma table_month_length:
  assumes "1 \<le> month" "month \<le> 12"
  shows "buf_get (if leap_year year then days_in_month_table[2 := 29] else days_in_month_table)
    (nat month) = Some (month_length year month)"
  by (rule month_cases [OF assms])
    (simp_all add: buf_get_def days_in_month_table_def month_length_def)

lemma first_weekday:
  assumes "1 \<le> m" "m \<le> 12" "1 \<le> y" "0 \<le> w" "w < 7"
  defines "f \<equiv> 1 + (w - day_of_week 1 m y + 7) smod 7"
  shows "1 \<le> f" and "f \<le> 7" and "weekday y m f = w"
proof -
  have dow: "day_of_week 1 m y = weekday y m 1" using assms by (simp add: day_of_week_weekday)
  have r: "0 \<le> weekday y m 1" "weekday y m 1 < 7" by (simp_all add: weekday_def)
  then have f: "f = 1 + (w - weekday y m 1) mod 7"
    using assms by (simp add: f_def dow c_arith)
  show "1 \<le> f" "f \<le> 7" using pos_mod_bound [of 7 "w - weekday y m 1"] by (simp_all add: f)
  have "weekday y m f = (weekday y m 1 + (w - weekday y m 1) mod 7) mod 7"
    unfolding f by (rule weekday_add)
  then show "weekday y m f = w" using assms(4,5) by (simp add: mod_add_right_eq)
qed

lemma nth_weekday_positive:
  assumes "1 \<le> m" "m \<le> 12" "1 \<le> y" "0 \<le> w" "w < 7" "0 < n"
  shows "\<exists>d. nth_weekday n w m y = Some d \<and> weekday y m d = w \<and> 7 * (n - 1) < d \<and> d \<le> 7 * n"
proof -
  define f where "f = 1 + (w - day_of_week 1 m y + 7) smod 7"
  have "nth_weekday n w m y = Some (f + (n - 1) * 7)"
    using assms(6) by (simp add: nth_weekday_def f_def)
  moreover have "weekday y m (f + (n - 1) * 7) = w"
    using first_weekday(3) [OF assms(1-5)] assms(4,5)
    unfolding weekday_add f_def [symmetric] mod_mult_self1 by simp
  ultimately show ?thesis
    using first_weekday(1,2) [OF assms(1-5)] by (auto simp: f_def)
qed

lemma nth_weekday_last:
  assumes "1 \<le> m" "m \<le> 12" "1 \<le> y" "0 \<le> w" "w < 7" "n \<le> 0"
  shows "\<exists>d. nth_weekday n w m y = Some d \<and> weekday y m d = w \<and>
    month_length y m - 7 < d \<and> d \<le> month_length y m"
proof -
  define f where "f = 1 + (w - day_of_week 1 m y + 7) smod 7"
  have leap: "(y smod 4 = 0 \<and> (y smod 100 \<noteq> 0 \<or> y smod 400 = 0)) = leap_year y"
    unfolding leap_year_def by (simp add: smod_eq_0_iff)
  have "nth_weekday n w m y = Some (if f + 28 > month_length y m then f + 28 - 7 else f + 28)"
    using assms(6) unfolding nth_weekday_def Let_def leap f_def [symmetric]
    by (simp only: table_month_length [OF assms(1,2), of y]) simp
  moreover have "weekday y m (f + 21) = w" "weekday y m (f + 28) = w"
    using first_weekday(3) [OF assms(1-5)] assms(4,5)
    unfolding weekday_add f_def [symmetric] by presburger+
  ultimately show ?thesis
    using first_weekday(1,2) [OF assms(1-5)] month_length_bounds [of y m]
    by (auto simp: f_def)
qed

section \<open>Properties\<close>

text \<open>
  C37: On every valid date from year 1 on, \<open>day_of_week\<close> computes the weekday the C library's
  \<open>gmtime_r\<close> puts into \<open>tm_wday\<close> for every second of that day.
\<close>

theorem day_of_week_agrees_with_gmtime:
  assumes "valid_civil (Civil y m d)" "1 \<le> y" "0 \<le> s" "s < 86400"
  shows "day_of_week d m y = tm_wday (gmtime_r (epoch_day y m d * 86400 + s))"
proof -
  have "(epoch_day y m d * 86400 + s) div 86400 = epoch_day y m d"
    using assms(3,4) by simp
  then have "tm_wday (gmtime_r (epoch_day y m d * 86400 + s)) = weekday y m d"
    by (simp only: gmtime_clock weekday_def)
  then show ?thesis using assms day_of_week_weekday [of m y d] by simp
qed

theorem day_of_week_agrees_with_gmtime_witness:
  "day_of_week 29 2 2024 = tm_wday (gmtime_r (epoch_day 2024 2 29 * 86400 + 3600))"
  by (rule day_of_week_agrees_with_gmtime) (simp_all add: month_length_def leap_year_def)

text \<open>
  \<open>nth_weekday\<close> never reads outside its table for a month 1 to 12; for a positive \<open>n\<close>
  it is the day of the \<open>n\<close>-th occurrence of the weekday, and for \<open>n \<le> 0\<close> the last
  occurrence in the month.
\<close>

lemma nth_weekday_correct:
  assumes "1 \<le> m" "m \<le> 12" "1 \<le> y" "0 \<le> w" "w < 7"
  shows "\<exists>d. nth_weekday n w m y = Some d \<and> weekday y m d = w \<and>
    (if 0 < n then 7 * (n - 1) < d \<and> d \<le> 7 * n
     else month_length y m - 7 < d \<and> d \<le> month_length y m)"
  using nth_weekday_positive [OF assms, of n] nth_weekday_last [OF assms, of n]
  by (cases "0 < n") auto

end
