(* ===== verification/Config.thy ===== *)
theory Config
  imports Prelude
begin

text \<open>
  The configuration constants of src/config.h, the enumerations of src/watchdog.h, src/ntp.h,
  src/wifi.h and src/flash_config.h with their \<open>..._to_string\<close> functions, and the
  record \<open>flash_config_t\<close> that is kept in flash. A C \<open>char\<close> array is a list of
  characters of the array's length; the string it holds is read by \<open>c_str\<close>.
\<close>

section \<open>Constants of config.h\<close>

definition AMBIENT_LIGHT_DARK :: u32 where "AMBIENT_LIGHT_DARK = 0x40"
definition AMBIENT_LIGHT_BRIGHT :: u32 where "AMBIENT_LIGHT_BRIGHT = 0x180"
definition FACTORY_RESET_HOLD_TIME_MS :: nat where "FACTORY_RESET_HOLD_TIME_MS = 3000"
definition NTP_DELTA :: u32 where "NTP_DELTA = 2208988800"
definition NTP_MSG_LEN :: nat where "NTP_MSG_LEN = 48"
definition NTP_DEFAULT_TIMEOUT_MS :: u32 where "NTP_DEFAULT_TIMEOUT_MS = 10 * 1000"
definition NTP_SYNC_INTERVAL_SEC :: u32 where "NTP_SYNC_INTERVAL_SEC = 60 * 60 * 24"
definition NTP_DEFAULT_PORT :: u16 where "NTP_DEFAULT_PORT = 123"
definition NTP_DEFAULT_SERVER :: string where "NTP_DEFAULT_SERVER = ''pool.ntp.org''"
definition NUM_LCDS :: nat where "NUM_LCDS = 7"
definition TCP_IP_BUFFER_SIZE :: nat where "TCP_IP_BUFFER_SIZE = 8192"
definition TCP_IP_MAX_CONNECTIONS :: nat where "TCP_IP_MAX_CONNECTIONS = 4"
definition WATCHDOG_ICON_INTERVAL :: int where "WATCHDOG_ICON_INTERVAL = 60 * 60 * 24"
definition WIFI_ABANDON_TIMEOUT_MS :: int where "WIFI_ABANDON_TIMEOUT_MS = 30 * 1000"
definition WIFI_BAD_AUTH_RETRY_COUNT :: int where "WIFI_BAD_AUTH_RETRY_COUNT = 3"
definition WIFI_SSID_MAX_LEN :: nat where "WIFI_SSID_MAX_LEN = 32"
definition WIFI_PASSWORD_MAX_LEN :: nat where "WIFI_PASSWORD_MAX_LEN = 63"
definition HOSTNAME_MAX_LEN :: nat where "HOSTNAME_MAX_LEN = 64"

lemmas config_defs =
  AMBIENT_LIGHT_DARK_def AMBIENT_LIGHT_BRIGHT_def FACTORY_RESET_HOLD_TIME_MS_def
  NTP_DELTA_def NTP_MSG_LEN_def NTP_DEFAULT_TIMEOUT_MS_def NTP_SYNC_INTERVAL_SEC_def
  NTP_DEFAULT_PORT_def NUM_LCDS_def TCP_IP_BUFFER_SIZE_def TCP_IP_MAX_CONNECTIONS_def
  WATCHDOG_ICON_INTERVAL_def WIFI_ABANDON_TIMEOUT_MS_def WIFI_BAD_AUTH_RETRY_COUNT_def
  WIFI_SSID_MAX_LEN_def WIFI_PASSWORD_MAX_LEN_def HOSTNAME_MAX_LEN_def

section \<open>Enumerations\<close>

datatype watchdog_error_t = WATCHDOG_OK | WATCHDOG_RESET | WATCHDOG_NTP | WATCHDOG_WIFI

datatype ntp_error_t = NTP_OK | NTP_INIT_ERROR | NTP_DNS_ERROR | NTP_TIMEOUT_ERROR
  | NTP_PROTOCOL_ERROR | NTP_MEMORY_ERROR | NTP_NULL_ERROR

datatype ntp_status_t = NTP_IDLE | NTP_KOD | NTP_SUCCESS | NTP_PENDING | NTP_FAILED | NTP_NULL_STATUS

datatype wifi_error_t = WIFI_OK | WIFI_INIT_ERROR | WIFI_TIMEOUT_ERROR | WIFI_AUTH_ERROR
  | WIFI_CONNECT_ERROR | WIFI_UNKNOWN_ERROR

datatype dst_rule_t = DST_RULE_NONE | DST_RULE_NA | DST_RULE_EU | DST_RULE_AU | DST_RULE_NZ
  | DST_RULE_CL | DST_RULE_IL

text \<open>The values of the enumeration cover every case, so \<open>''UNKNOWN_STATUS''\<close> is not reached.\<close>

fun watchdog_error_to_string :: "watchdog_error_t \<Rightarrow> string" where
  "watchdog_error_to_string WATCHDOG_OK = ''WATCHDOG_OK''"
| "watchdog_error_to_string WATCHDOG_RESET = ''WATCHDOG_RESET''"
| "watchdog_error_to_string WATCHDOG_NTP = ''WATCHDOG_NTP''"
| "watchdog_error_to_string WATCHDOG_WIFI = ''WATCHDOG_WIFI''"

fun ntp_error_to_string :: "ntp_error_t \<Rightarrow> string" where
  "ntp_error_to_string NTP_OK = ''NTP_OK''"
| "ntp_error_to_string NTP_INIT_ERROR = ''NTP_INIT_ERROR''"
| "ntp_error_to_string NTP_DNS_ERROR = ''NTP_DNS_ERROR''"
| "ntp_error_to_string NTP_TIMEOUT_ERROR = ''NTP_TIMEOUT_ERROR''"
| "ntp_error_to_string NTP_PROTOCOL_ERROR = ''NTP_PROTOCOL_ERROR''"
| "ntp_error_to_string NTP_MEMORY_ERROR = ''NTP_MEMORY_ERROR''"
| "ntp_error_to_string NTP_NULL_ERROR = ''NTP_NULL_ERROR''"

fun wifi_error_to_string :: "wifi_error_t \<Rightarrow> string" where
  "wifi_error_to_string WIFI_OK = ''WIFI_OK''"
| "wifi_error_to_string WIFI_INIT_ERROR = ''WIFI_INIT_ERROR''"
| "wifi_error_to_string WIFI_TIMEOUT_ERROR = ''WIFI_TIMEOUT_ERROR''"
| "wifi_error_to_string WIFI_AUTH_ERROR = ''WIFI_AUTH_ERROR''"
| "wifi_error_to_string WIFI_CONNECT_ERROR = ''WIFI_CONNECT_ERROR''"
| "wifi_error_to_string WIFI_UNKNOWN_ERROR = ''WIFI_UNKNOWN_ERROR''"

section \<open>C strings in fixed arrays\<close>

abbreviation NUL :: char where "NUL \<equiv> CHR 0x00"

definition c_str :: "char list \<Rightarrow> string" where
  "c_str arr = takeWhile (\<lambda>c. c \<noteq> NUL) arr"

text \<open>\<open>strncpy(dst, src, n)\<close>: at most \<open>n\<close> characters, padded with NUL up to \<open>n\<close>.\<close>

definition strncpy :: "char list \<Rightarrow> string \<Rightarrow> nat \<Rightarrow> char list option" where
  "strncpy dst src n =
     (let s = take n (c_str src) in buf_put dst 0 (s @ replicate (n - length s) NUL))"

lemma c_str_no_nul: "NUL \<notin> set (c_str arr)"
  by (auto simp: c_str_def dest: set_takeWhileD)

lemma c_str_id: "NUL \<notin> set s \<Longrightarrow> c_str s = s"
  by (auto simp: c_str_def takeWhile_eq_all_conv)

lemma c_str_append_nul: "NUL \<notin> set s \<Longrightarrow> c_str (s @ NUL # rest) = s"
  by (auto simp: c_str_def takeWhile_append takeWhile_eq_all_conv)

lemma c_str_length: "length (c_str arr) \<le> length arr"
  by (simp add: c_str_def length_takeWhile_le)

lemma strncpy_fits:
  assumes "n \<le> length dst"
  shows "\<exists>dst'. strncpy dst src n = Some dst' \<and> length dst' = length dst
    \<and> take n dst' = take n (c_str src) @ replicate (n - length (c_str src)) NUL
    \<and> drop n dst' = drop n dst"
  using assms by (simp add: strncpy_def Let_def min_def)

text \<open>Copying one less than the array's size into an array whose last byte is NUL.\<close>

lemma strncpy_terminated:
  assumes "strncpy dst src n = Some dst'" "length dst = Suc n" "dst ! n = NUL"
  shows "length dst' = Suc n \<and> dst' ! n = NUL \<and> c_str dst' = take n (c_str src)"
proof -
  let ?s = "take n (c_str src)"
  have d: "dst' = ?s @ replicate (n - length ?s) NUL @ drop n dst"
    using assms(1,2) by (auto simp: strncpy_def Let_def buf_put_Some_iff min_def)
  have dn: "drop n dst = [NUL]"
    using assms(2,3) by (simp add: Cons_nth_drop_Suc [symmetric])
  have "NUL \<notin> set ?s" using c_str_no_nul by (auto dest: in_set_takeD)
  then have "c_str (?s @ replicate k NUL @ [NUL]) = ?s" for k
    using c_str_append_nul [of ?s "replicate k NUL"] by (cases k) (auto simp: replicate_append_same)
  with d dn have "c_str dst' = ?s" by simp
  moreover have "length ?s \<le> n" by simp
  ultimately show ?thesis
    using d dn by (auto simp: nth_append)
qed

section \<open>The stored configuration\<close>

definition CONFIG_MAGIC :: u32 where
  "CONFIG_MAGIC = push_bit 24 0x43 OR push_bit 16 0x4C OR push_bit 8 0x4F OR 0x4B"

lemma CONFIG_MAGIC_value: "CONFIG_MAGIC = 0x434C4F4B"
  by (simp add: CONFIG_MAGIC_def)

record flash_config_t =
  magic_marker :: u32
  wifi_ssid :: "char list"
  wifi_password :: "char list"
  ntp_server :: "char list"
  tz_offset_mins :: u16
  dst_rule :: dst_rule_t
  ntp_timeout :: u32
  ntp_port :: u16
  led_always_on :: bool

text \<open>\<open>flash_config_t config = {0}\<close>.\<close>

definition flash_config_zero :: flash_config_t where
  "flash_config_zero =
     \<lparr>magic_marker = 0, wifi_ssid = replicate (WIFI_SSID_MAX_LEN + 1) NUL,
      wifi_password = replicate (WIFI_PASSWORD_MAX_LEN + 1) NUL,
      ntp_server = replicate (HOSTNAME_MAX_LEN + 1) NUL, tz_offset_mins = 0,
      dst_rule = DST_RULE_NONE, ntp_timeout = 0, ntp_port = 0, led_always_on = False\<rparr>"

text \<open>
  A configuration whose three text fields have the size the struct gives them and are
  terminated: every string function that reads them stays inside the struct.
\<close>

definition terminated_array :: "nat \<Rightarrow> char list \<Rightarrow> bool" where
  "terminated_array n arr \<longleftrightarrow> length arr = Suc n \<and> arr ! n = NUL"

definition wf_flash_config :: "('a flash_config_t_scheme) \<Rightarrow> bool" where
  "wf_flash_config c \<longleftrightarrow>
     terminated_array WIFI_SSID_MAX_LEN (wifi_ssid c) \<and>
     terminated_array WIFI_PASSWORD_MAX_LEN (wifi_password c) \<and>
     terminated_array HOSTNAME_MAX_LEN (ntp_server c)"

lemma wf_flash_config_zero: "wf_flash_config flash_config_zero"
  by (simp add: wf_flash_config_def flash_config_zero_def terminated_array_def config_defs)

lemma terminated_c_str_length:
  assumes "terminated_array n arr"
  shows "length (c_str arr) \<le> n"
proof (rule ccontr)
  assume "\<not> length (c_str arr) \<le> n"
  then have n: "n < length (c_str arr)" by simp
  then have "c_str arr ! n = arr ! n" by (simp add: c_str_def takeWhile_nth)
  with n assms have "NUL \<in> set (c_str arr)" by (metis nth_mem terminated_array_def)
  then show False using c_str_no_nul by blast
qed

end
