(* ===== verification/Dst.thy ===== *)
theory Dst
  imports Weekday Config
begin

text \<open>
  Daylight saving time and local time of src/clock.c: the bounds of a rule in a year
  (\<open>get_dst_bounds\<close>), the test \<open>time_is_dst\<close>, \<open>calculate_local_time\<close> and
  \<open>time_as_string\<close>. The bounds are compared with an independent reading of the rule table
  of README.md, and the test is shown to change its value exactly at the bounds, year after
  year. \<open>None\<close> stands for an access outside \<open>days_in_month\<close>, which is shown not to
  happen.
\<close>

section \<open>The code\<close>

definition tm_to_epoch :: "tm \<Rightarrow> int" where
  "tm_to_epoch tm = timegm tm"

definition get_dst_bounds :: "dst_rule_t \<Rightarrow> int \<Rightarrow> (int \<times> int) option" where
  "get_dst_bounds rule year =
     (let ts = tm_zero\<lparr>tm_year := year - 1900\<rparr>; te = tm_zero\<lparr>tm_year := year - 1900\<rparr> in
      case rule of
        DST_RULE_NA \<Rightarrow> do {
          sd \<leftarrow> nth_weekday 2 0 3 year;
          ed \<leftarrow> nth_weekday 1 0 11 year;
          Some (tm_to_epoch (ts\<lparr>tm_mon := 2, tm_mday := sd, tm_hour := 2\<rparr>),
                tm_to_epoch (te\<lparr>tm_mon := 10, tm_mday := ed, tm_hour := 2\<rparr>)) }
      | DST_RULE_EU \<Rightarrow> do {
          sd \<leftarrow> nth_weekday (- 1) 0 3 year;
          ed \<leftarrow> nth_weekday (- 1) 0 10 year;
          Some (tm_to_epoch (ts\<lparr>tm_mon := 2, tm_mday := sd, tm_hour := 1\<rparr>),
                tm_to_epoch (te\<lparr>tm_mon := 9, tm_mday := ed, tm_hour := 1\<rparr>)) }
      | DST_RULE_AU \<Rightarrow> do {
          sd \<leftarrow> nth_weekday 1 0 10 year;
          ed \<leftarrow> nth_weekday 1 0 4 year;
          Some (tm_to_epoch (ts\<lparr>tm_mon := 9, tm_mday := sd, tm_hour := 2\<rparr>),
                tm_to_epoch (te\<lparr>tm_mon := 3, tm_mday := ed, tm_hour := 3\<rparr>)) }
      | DST_RULE_NZ \<Rightarrow> do {
          sd \<leftarrow> nth_weekday (- 1) 0 9 year;
          ed \<leftarrow> nth_weekday 1 0 4 year;
          Some (tm_to_epoch (ts\<lparr>tm_mon := 8, tm_mday := sd, tm_hour := 2\<rparr>),
                tm_to_epoch (te\<lparr>tm_mon := 3, tm_mday := ed, tm_hour := 3\<rparr>)) }
      | DST_RULE_CL \<Rightarrow> do {
          sd \<leftarrow> nth_weekday 1 6 9 year;
          ed \<leftarrow> nth_weekday 1 6 4 year;
          Some (tm_to_epoch (ts\<lparr>tm_mon := 8, tm_mday := sd, tm_hour := 23, tm_min := 59\<rparr>),
                tm_to_epoch (te\<lparr>tm_mon := 3, tm_mday := ed, tm_hour := 23, tm_min := 59\<rparr>)) }
      | DST_RULE_IL \<Rightarrow> do {
          sd \<leftarrow> nth_weekday (- 1) 0 3 year;
          ed \<leftarrow> nth_weekday (- 1) 0 10 year;
          Some (tm_to_epoch (ts\<lparr>tm_mon := 2, tm_mday := sd - 2, tm_hour := 2\<rparr>),
                tm_to_epoch (te\<lparr>tm_mon := 9, tm_mday := ed, tm_hour := 2\<rparr>)) }
      | DST_RULE_NONE \<Rightarrow> Some (0, 0))"

text \<open>The comparison at the end of \<open>time_is_dst\<close>.\<close>

definition in_window :: "int \<Rightarrow> int \<Rightarrow> int \<Rightarrow> bool" where
  "in_window start_time end_time utc_now =
     (if start_time < end_time then utc_now \<ge> start_time \<and> utc_now < end_time
      else utc_now \<ge> start_time \<or> utc_now < end_time)"

definition time_is_dst :: "int \<Rightarrow> flash_config_t \<Rightarrow> bool option" where
  "time_is_dst utc_now flash_config =
     (if dst_rule flash_config = DST_RULE_NONE then Some False
      else do {
        let utc_tm = gmtime_r utc_now;
        let year = tm_year utc_tm + 1900;
        (start_time, end_time) \<leftarrow> get_dst_bounds (dst_rule flash_config) year;
        Some (in_window start_time end_time utc_now) })"

definition calculate_local_time :: "int \<Rightarrow> flash_config_t \<Rightarrow> int option" where
  "calculate_local_time utc_now flash_config = do {
     let local_time = utc_now + sint (tz_offset_mins flash_config) * 60;
     dst \<leftarrow> time_is_dst utc_now flash_config;
     Some (if dst then local_time + 3600 else local_time) }"

text \<open>\<open>%02d\<close> of a non-negative value.\<close>

fun dec_digits :: "nat \<Rightarrow> string" where
  "dec_digits n = (if n < 10 then [char_of (n + 48)]
     else dec_digits (n div 10) @ [char_of (n mod 10 + 48)])"

declare dec_digits.simps [simp del]

definition fmt_02d :: "int \<Rightarrow> string" where
  "fmt_02d n = (let s = dec_digits (nat n) in replicate (2 - length s) (CHR ''0'') @ s)"

definition time_as_string :: "int \<Rightarrow> flash_config_t \<Rightarrow> string option" where
  "time_as_string t flash_config = do {
     local_epoch \<leftarrow> calculate_local_time t flash_config;
     let tm_local = gmtime_r local_epoch;
     dst \<leftarrow> time_is_dst t flash_config;
     let suffix = (if dst then '' (DST)'' else '''');
     Some (take 31 (fmt_02d (tm_hour tm_local) @ '':'' @ fmt_02d (tm_min tm_local) @ '':''
       @ fmt_02d (tm_sec tm_local) @ suffix)) }"

section \<open>The rule table\<close>

text \<open>
  README.md's table, read independently of the code: which weekday of which month, the day
  offset from it, and the wall-clock hour and minute at which the period starts and ends.
\<close>

datatype occurrence = Nth int | LastOne

fun is_occurrence :: "occurrence \<Rightarrow> int \<Rightarrow> int \<Rightarrow> int \<Rightarrow> int \<Rightarrow> bool" where
  "is_occurrence (Nth k) y m w d \<longleftrightarrow> valid_civil (Civil y m d) \<and> weekday y m d = w
     \<and> 7 * (k - 1) < d \<and> d \<le> 7 * k"
| "is_occurrence LastOne y m w d \<longleftrightarrow> valid_civil (Civil y m d) \<and> weekday y m d = w
     \<and> month_length y m < d + 7"

record rule_edge =
  edge_month :: int
  edge_occurrence :: occurrence
  edge_weekday :: int
  edge_offset :: int
  edge_hour :: int
  edge_minute :: int

definition edge :: "int \<Rightarrow> occurrence \<Rightarrow> int \<Rightarrow> int \<Rightarrow> int \<Rightarrow> int \<Rightarrow> rule_edge" where
  "edge m k w off h mi = \<lparr>edge_month = m, edge_occurrence = k, edge_weekday = w,
     edge_offset = off, edge_hour = h, edge_minute = mi\<rparr>"

fun rule_start :: "dst_rule_t \<Rightarrow> rule_edge" where
  "rule_start DST_RULE_NA = edge 3 (Nth 2) 0 0 2 0"
| "rule_start DST_RULE_EU = edge 3 LastOne 0 0 1 0"
| "rule_start DST_RULE_AU = edge 10 (Nth 1) 0 0 2 0"
| "rule_start DST_RULE_NZ = edge 9 LastOne 0 0 2 0"
| "rule_start DST_RULE_CL = edge 9 (Nth 1) 6 0 23 59"
| "rule_start DST_RULE_IL = edge 3 LastOne 0 (- 2) 2 0"
| "rule_start DST_RULE_NONE = edge 1 (Nth 1) 0 0 0 0"

fun rule_end :: "dst_rule_t \<Rightarrow> rule_edge" where
  "rule_end DST_RULE_NA = edge 11 (Nth 1) 0 0 2 0"
| "rule_end DST_RULE_EU = edge 10 LastOne 0 0 1 0"
| "rule_end DST_RULE_AU = edge 4 (Nth 1) 0 0 3 0"
| "rule_end DST_RULE_NZ = edge 4 (Nth 1) 0 0 3 0"
| "rule_end DST_RULE_CL = edge 4 (Nth 1) 6 0 23 59"
| "rule_end DST_RULE_IL = edge 10 LastOne 0 0 2 0"
| "rule_end DST_RULE_NONE = edge 1 (Nth 1) 0 0 0 0"

definition edge_instant :: "rule_edge \<Rightarrow> int \<Rightarrow> int \<Rightarrow> int" where
  "edge_instant e y d = epoch_day y (edge_month e) (d + edge_offset e) * 86400
     + edge_hour e * 3600 + edge_minute e * 60"

definition edge_at :: "rule_edge \<Rightarrow> int \<Rightarrow> int \<Rightarrow> bool" where
  "edge_at e y t \<longleftrightarrow> (\<exists>d. is_occurrence (edge_occurrence e) y (edge_month e) (edge_weekday e) d
     \<and> t = edge_instant e y d)"

text \<open>The two ways the code asks \<open>nth_weekday\<close> for a day, as one fact.\<close>

lemma nth_weekday_occurrence:
  assumes "1 \<le> m" "m \<le> 12" "1 \<le> y" "0 \<le> w" "w < 7" "n \<le> 4"
  shows "\<exists>d. nth_weekday n w m y = Some d \<and>
    is_occurrence (if n > 0 then Nth n else LastOne) y m w d"
proof (cases "n > 0")
  case True
  then obtain d where "nth_weekday n w m y = Some d" "weekday y m d = w"
      "7 * (n - 1) < d" "d \<le> 7 * n"
    using nth_weekday_positive [of m y w n] assms by auto
  moreover from this have "1 \<le> d" "d \<le> month_length y m"
    using True assms(6) month_length_bounds [of y m] by auto
  ultimately show ?thesis using True assms(1,2) by simp
next
  case False
  then obtain d where "nth_weekday n w m y = Some d" "weekday y m d = w"
      "month_length y m - 7 < d" "d \<le> month_length y m"
    using nth_weekday_last [of m y w n] assms by auto
  moreover from this have "1 \<le> d" using month_length_bounds [of y m] by linarith
  ultimately show ?thesis using False assms(1,2) by simp
qed

lemma timegm_instant:
  assumes "0 \<le> mon" "mon < 12"
  shows "timegm (tm_zero\<lparr>tm_year := y - 1900, tm_mon := mon, tm_mday := d, tm_hour := h\<rparr>)
      = epoch_day y (mon + 1) d * 86400 + h * 3600"
    and "timegm (tm_zero\<lparr>tm_year := y - 1900, tm_mon := mon, tm_mday := d, tm_hour := h,
        tm_min := mi\<rparr>) = epoch_day y (mon + 1) d * 86400 + h * 3600 + mi * 60"
  using assms by (simp_all add: timegm_valid tm_zero_def)

lemmas edge_simps = get_dst_bounds_def tm_to_epoch_def timegm_instant edge_at_def edge_def
  edge_instant_def

lemma get_dst_bounds_edges:
  assumes "rule \<noteq> DST_RULE_NONE" "1 \<le> y"
  shows "\<exists>s e. get_dst_bounds rule y = Some (s, e) \<and> edge_at (rule_start rule) y s
    \<and> edge_at (rule_end rule) y e"
proof (cases rule)
  case DST_RULE_NA
  show ?thesis
    using nth_weekday_occurrence [of 3 y 0 2] nth_weekday_occurrence [of 11 y 0 1] assms
    by (auto simp: DST_RULE_NA edge_simps simp del: is_occurrence.simps)
next
  case DST_RULE_EU
  show ?thesis
    using nth_weekday_occurrence [of 3 y 0 "- 1"] nth_weekday_occurrence [of 10 y 0 "- 1"] assms
    by (auto simp: DST_RULE_EU edge_simps simp del: is_occurrence.simps)
next
  case DST_RULE_AU
  show ?thesis
    using nth_weekday_occurrence [of 10 y 0 1] nth_weekday_occurrence [of 4 y 0 1] assms
    by (auto simp: DST_RULE_AU edge_simps simp del: is_occurrence.simps)
next
  case DST_RULE_NZ
  show ?thesis
    using nth_weekday_occurrence [of 9 y 0 "- 1"] nth_weekday_occurrence [of 4 y 0 1] assms
    by (auto simp: DST_RULE_NZ edge_simps simp del: is_occurrence.simps)
next
  case DST_RULE_CL
  show ?thesis
    using nth_weekday_occurrence [of 9 y 6 1] nth_weekday_occurrence [of 4 y 6 1] assms
    by (auto simp: DST_RULE_CL edge_simps simp del: is_occurrence.simps)
next
  case DST_RULE_IL
  show ?thesis
    using nth_weekday_occurrence [of 3 y 0 "- 1"] nth_weekday_occurrence [of 10 y 0 "- 1"] assms
    by (auto simp: DST_RULE_IL edge_simps simp del: is_occurrence.simps)
qed (use assms in simp)

section \<open>The bounds lie inside their year, in the rule's order\<close>

definition year_first_second :: "int \<Rightarrow> int" where
  "year_first_second y = epoch_day y 1 1 * 86400"

definition year_of_time :: "int \<Rightarrow> int" where
  "year_of_time t = tm_year (gmtime_r t) + 1900"

definition northern :: "dst_rule_t \<Rightarrow> bool" where
  "northern rule \<longleftrightarrow> rule \<in> {DST_RULE_NA, DST_RULE_EU, DST_RULE_IL}"

text \<open>The day a rule's edge falls on, with its offset, as a civil date.\<close>

lemma occurrence_civil:
  assumes "is_occurrence k y m w d" "1 \<le> y"
    and "off = 0 \<or> (k = LastOne \<and> off = - 2)"
  shows "valid_civil (Civil y m (d + off))"
  using assms month_length_bounds [of y m] by (cases k) auto

lemma instant_less:
  assumes "a < b" "0 \<le> r" "r < 86400" "0 \<le> r'"
  shows "a * 86400 + r < b * 86400 + (r'::int)"
proof -
  have "(a + 1) * 86400 \<le> b * 86400" using assms(1) by simp
  then show ?thesis using assms by simp
qed

lemma edge_instant_in_year:
  assumes "valid_civil (Civil y (edge_month e) (d + edge_offset e))"
    and "0 \<le> edge_hour e" "edge_hour e < 24" "0 \<le> edge_minute e" "edge_minute e < 60"
    and "1 < edge_month e"
  shows "year_first_second y < edge_instant e y d" "edge_instant e y d < year_first_second (y + 1)"
proof -
  let ?r = "edge_hour e * 3600 + edge_minute e * 60"
  have r: "0 \<le> ?r" "?r < 86400" using assms(2-5) by auto
  have "epoch_day y 1 1 < epoch_day y (edge_month e) (d + edge_offset e)"
    using civil_number_less [of "Civil y 1 1" "Civil y (edge_month e) (d + edge_offset e)"]
      assms(1,6) by (simp add: less_civil_iff month_length_def)
  from instant_less [OF this, of 0 ?r] r
  show "year_first_second y < edge_instant e y d"
    by (simp add: year_first_second_def edge_instant_def)
  have "epoch_day y (edge_month e) (d + edge_offset e) < epoch_day (y + 1) 1 1"
    using epoch_day_in_year(2) [OF assms(1)] .
  from instant_less [OF this, of ?r 0] r
  show "edge_instant e y d < year_first_second (y + 1)"
    by (simp add: year_first_second_def edge_instant_def)
qed

definition good_edge :: "rule_edge \<Rightarrow> bool" where
  "good_edge e \<longleftrightarrow> 1 < edge_month e \<and> 0 \<le> edge_hour e \<and> edge_hour e < 24
     \<and> 0 \<le> edge_minute e \<and> edge_minute e < 60
     \<and> (edge_offset e = 0 \<or> edge_occurrence e = LastOne \<and> edge_offset e = - 2)"

lemma rule_edges_good: "rule \<noteq> DST_RULE_NONE \<Longrightarrow> good_edge (rule_start rule) \<and> good_edge (rule_end rule)"
  by (cases rule) (auto simp: good_edge_def edge_def)

lemma edge_at_in_year:
  assumes "edge_at e y t" "good_edge e" "1 \<le> y"
  shows "year_first_second y < t" "t < year_first_second (y + 1)"
  using assms edge_instant_in_year occurrence_civil
  unfolding edge_at_def good_edge_def by metis+

text \<open>Edges in different months of a year are ordered as the months are.\<close>

lemma edge_at_less:
  assumes "edge_at e y t" "edge_at e' y t'" "good_edge e" "good_edge e'" "1 \<le> y"
    and "edge_month e < edge_month e'"
  shows "t < t'"
proof -
  obtain d where d: "is_occurrence (edge_occurrence e) y (edge_month e) (edge_weekday e) d"
      "t = edge_instant e y d" using assms(1) by (auto simp: edge_at_def)
  obtain d' where d': "is_occurrence (edge_occurrence e') y (edge_month e') (edge_weekday e') d'"
      "t' = edge_instant e' y d'" using assms(2) by (auto simp: edge_at_def)
  have "epoch_day y (edge_month e) (d + edge_offset e) < epoch_day y (edge_month e') (d' + edge_offset e')"
    using civil_number_less [of "Civil y (edge_month e) (d + edge_offset e)"
        "Civil y (edge_month e') (d' + edge_offset e')"]
      occurrence_civil [OF d(1) assms(5)] occurrence_civil [OF d'(1) assms(5)] assms(3,4,6)
    by (auto simp: less_civil_iff good_edge_def simp del: valid_civil.simps)
  from instant_less [OF this] show ?thesis
    using assms(3,4) by (auto simp: d(2) d'(2) edge_instant_def good_edge_def add.assoc)
qed

text \<open>The bounds of every rule, packaged for the clients.\<close>

lemma get_dst_bounds_year:
  assumes "rule \<noteq> DST_RULE_NONE" "1 \<le> y"
  obtains s e where "get_dst_bounds rule y = Some (s, e)"
    and "year_first_second y < s" "s < year_first_second (y + 1)"
    and "year_first_second y < e" "e < year_first_second (y + 1)"
    and "if northern rule then s < e else e < s"
proof -
  obtain s e where b: "get_dst_bounds rule y = Some (s, e)" "edge_at (rule_start rule) y s"
      "edge_at (rule_end rule) y e"
    using get_dst_bounds_edges [OF assms] by blast
  have g: "good_edge (rule_start rule)" "good_edge (rule_end rule)"
    using rule_edges_good [OF assms(1)] by auto
  have "if northern rule then s < e else e < s"
  proof (cases "northern rule")
    case True
    then have "edge_month (rule_start rule) < edge_month (rule_end rule)"
      by (auto simp: northern_def edge_def)
    with True edge_at_less [OF b(2,3) g assms(2)] show ?thesis by simp
  next
    case False
    with assms(1) have "edge_month (rule_end rule) < edge_month (rule_start rule)"
      by (cases rule) (auto simp: northern_def edge_def)
    with False edge_at_less [OF b(3,2) g(2,1) assms(2)] show ?thesis by simp
  qed
  with b g edge_at_in_year [OF b(2) g(1) assms(2)] edge_at_in_year [OF b(3) g(2) assms(2)]
  show ?thesis by (intro that)
qed

section \<open>Years and yearly windows: the contract and its client\<close>

text \<open>
  Time divided into years, as \<open>gmtime_r\<close> divides it; and a window that opens and closes once
  in every year from \<open>lo\<close> on, in the same order every year. The client lemma: whether a
  time lies in the window of its year changes at the window's edges and nowhere else, in
  particular not at New Year.
\<close>

locale year_partition =
  fixes year_of :: "int \<Rightarrow> int" and first_of :: "int \<Rightarrow> int"
  assumes first_le: "first_of (year_of t) \<le> t"
    and less_next: "t < first_of (year_of t + 1)"
    and first_mono: "y < z \<Longrightarrow> first_of y < first_of z"
begin

lemma year_of_eqI:
  assumes "first_of y \<le> t" "t < first_of (y + 1)"
  shows "year_of t = y"
proof (rule linorder_cases [of "year_of t" y])
  assume "year_of t < y"
  then have "first_of (year_of t + 1) \<le> first_of y"
    using first_mono [of "year_of t + 1" y] by (cases "year_of t + 1 = y") auto
  with less_next [of t] assms(1) show ?thesis by simp
next
  assume "y < year_of t"
  then have "first_of (y + 1) \<le> first_of (year_of t)"
    using first_mono [of "y + 1" "year_of t"] by (cases "y + 1 = year_of t") auto
  with first_le [of t] assms(2) show ?thesis by simp
qed

lemma year_of_pred:
  obtains "year_of (t - 1) = year_of t" | "t = first_of (year_of t)" "year_of (t - 1) = year_of t - 1"
proof (cases "t = first_of (year_of t)")
  case True
  have "first_of (year_of t - 1) < first_of (year_of t)" by (rule first_mono) simp
  then have "year_of (t - 1) = year_of t - 1"
    using True by (intro year_of_eqI) auto
  with True that show ?thesis by blast
next
  case False
  then have "year_of (t - 1) = year_of t"
    using first_le [of t] less_next [of t] by (intro year_of_eqI) auto
  with that show ?thesis by blast
qed

end

locale yearly_window = year_partition +
  fixes lo :: int and opens :: "int \<Rightarrow> int" and closes :: "int \<Rightarrow> int" and same_year :: bool
  assumes opens_in: "lo \<le> y \<Longrightarrow> first_of y < opens y \<and> opens y < first_of (y + 1)"
    and closes_in: "lo \<le> y \<Longrightarrow> first_of y < closes y \<and> closes y < first_of (y + 1)"
    and order: "lo \<le> y \<Longrightarrow> if same_year then opens y < closes y else closes y < opens y"
begin

lemma window_changes:
  assumes "lo < year_of t"
  shows "in_window (opens (year_of (t - 1))) (closes (year_of (t - 1))) (t - 1)
       \<noteq> in_window (opens (year_of t)) (closes (year_of t)) t
    \<longleftrightarrow> t = opens (year_of t) \<or> t = closes (year_of t)"
proof (cases t rule: year_of_pred)
  case 1
  then show ?thesis
    using order [of "year_of t"] assms by (auto simp: in_window_def split: if_splits)
next
  case 2
  then show ?thesis
    using opens_in [of "year_of t"] closes_in [of "year_of t"] order [of "year_of t"]
      opens_in [of "year_of t - 1"] closes_in [of "year_of t - 1"] order [of "year_of t - 1"] assms
    by (auto simp: in_window_def split: if_splits)
qed

lemma window_opens: "lo \<le> year_of t \<Longrightarrow> t = opens (year_of t) \<Longrightarrow>
    in_window (opens (year_of t)) (closes (year_of t)) t"
  using order [of "year_of t"] by (auto simp: in_window_def split: if_splits)

lemma window_closes: "lo \<le> year_of t \<Longrightarrow> t = closes (year_of t) \<Longrightarrow>
    \<not> in_window (opens (year_of t)) (closes (year_of t)) t"
  using order [of "year_of t"] by (auto simp: in_window_def split: if_splits)

end

section \<open>The model's years and rules satisfy the contracts\<close>

lemma year_first_second_less_iff: "year_first_second y < year_first_second z \<longleftrightarrow> y < z"
  by (simp add: year_first_second_def epoch_day_def days_before_year_less_iff)

lemma day_bounds: "d = t div 86400 \<Longrightarrow> d * 86400 \<le> t \<and> t < (d + 1) * 86400" for t d :: int
  using div_bounds [of 86400 t] by simp

interpretation gregorian: year_partition year_of_time year_first_second
proof
  fix t
  let ?y = "year_of_time t" and ?d = "t div 86400"
  have "epoch_day ?y 1 1 \<le> ?d" "?d + 1 \<le> epoch_day (?y + 1) 1 1"
    using epoch_day_in_year [OF gmtime_date(1) [of t]] gmtime_date(2) [of t]
    by (auto simp: year_of_time_def)
  then have "epoch_day ?y 1 1 * 86400 \<le> ?d * 86400" "(?d + 1) * 86400 \<le> epoch_day (?y + 1) 1 1 * 86400"
    by simp_all
  with day_bounds [OF refl, of t]
  show "year_first_second ?y \<le> t" "t < year_first_second (?y + 1)"
    by (simp_all add: year_first_second_def)
qed (simp add: year_first_second_less_iff)

lemma year_of_time_epoch: "0 \<le> t \<Longrightarrow> 1970 \<le> year_of_time t"
proof (rule ccontr)
  assume t: "0 \<le> t" and "\<not> 1970 \<le> year_of_time t"
  then have "year_first_second (year_of_time t + 1) \<le> year_first_second 1970"
    using year_first_second_less_iff [of 1970 "year_of_time t + 1"] by simp
  also have "year_first_second 1970 = 0"
    by (simp add: year_first_second_def epoch_day_def days_before_year_def)
  finally show False using gregorian.less_next [of t] t by simp
qed

definition dst_opens :: "dst_rule_t \<Rightarrow> int \<Rightarrow> int" where
  "dst_opens rule y = fst (the (get_dst_bounds rule y))"

definition dst_closes :: "dst_rule_t \<Rightarrow> int \<Rightarrow> int" where
  "dst_closes rule y = snd (the (get_dst_bounds rule y))"

lemma rule_yearly_window:
  assumes "rule \<noteq> DST_RULE_NONE"
  shows "yearly_window year_of_time year_first_second 1 (dst_opens rule) (dst_closes rule) (northern rule)"
proof
  fix y :: int
  assume "1 \<le> y"
  with assms obtain s e where "get_dst_bounds rule y = Some (s, e)"
    and "year_first_second y < s" "s < year_first_second (y + 1)"
    and "year_first_second y < e" "e < year_first_second (y + 1)"
    and "if northern rule then s < e else e < s"
    by (rule get_dst_bounds_year)
  then show "year_first_second y < dst_opens rule y \<and> dst_opens rule y < year_first_second (y + 1)"
    and "year_first_second y < dst_closes rule y \<and> dst_closes rule y < year_first_second (y + 1)"
    and "if northern rule then dst_opens rule y < dst_closes rule y else dst_closes rule y < dst_opens rule y"
    by (simp_all add: dst_opens_def dst_closes_def)
qed

interpretation na: yearly_window year_of_time year_first_second 1
  "dst_opens DST_RULE_NA" "dst_closes DST_RULE_NA" "northern DST_RULE_NA"
  by (rule rule_yearly_window) simp

interpretation eu: yearly_window year_of_time year_first_second 1
  "dst_opens DST_RULE_EU" "dst_closes DST_RULE_EU" "northern DST_RULE_EU"
  by (rule rule_yearly_window) simp

interpretation au: yearly_window year_of_time year_first_second 1
  "dst_opens DST_RULE_AU" "dst_closes DST_RULE_AU" "northern DST_RULE_AU"
  by (rule rule_yearly_window) simp

interpretation nz: yearly_window year_of_time year_first_second 1
  "dst_opens DST_RULE_NZ" "dst_closes DST_RULE_NZ" "northern DST_RULE_NZ"
  by (rule rule_yearly_window) simp

interpretation cl: yearly_window year_of_time year_first_second 1
  "dst_opens DST_RULE_CL" "dst_closes DST_RULE_CL" "northern DST_RULE_CL"
  by (rule rule_yearly_window) simp

interpretation il: yearly_window year_of_time year_first_second 1
  "dst_opens DST_RULE_IL" "dst_closes DST_RULE_IL" "northern DST_RULE_IL"
  by (rule rule_yearly_window) simp

lemma time_is_dst_window:
  assumes "dst_rule c \<noteq> DST_RULE_NONE" "1 \<le> year_of_time t"
  shows "time_is_dst t c = Some (in_window (dst_opens (dst_rule c) (year_of_time t))
    (dst_closes (dst_rule c) (year_of_time t)) t)"
  using assms(1)
  by (rule get_dst_bounds_year [OF _ assms(2)])
    (simp add: time_is_dst_def assms(1) year_of_time_def [symmetric] dst_opens_def dst_closes_def)

lemma time_is_dst_total: "0 \<le> t \<Longrightarrow> \<exists>b. time_is_dst t c = Some b"
  using time_is_dst_window [of c t] year_of_time_epoch [of t]
  by (cases "dst_rule c = DST_RULE_NONE") (auto simp: time_is_dst_def)

lemma calculate_local_time_eq:
  assumes "time_is_dst t c = Some b"
  shows "calculate_local_time t c = Some (t + sint (tz_offset_mins c) * 60 + (if b then 3600 else 0))"
  using assms by (simp add: calculate_local_time_def)

section \<open>Two-digit fields\<close>

definition two_digits :: "int \<Rightarrow> string" where
  "two_digits n = [char_of (nat n div 10 + 48), char_of (nat n mod 10 + 48)]"

lemma char_of_48: "char_of (48 :: nat) = CHR ''0''"
  by code_simp

lemma fmt_02d_two_digits:
  assumes "0 \<le> n" "n < 100"
  shows "fmt_02d n = two_digits n"
proof -
  have "nat n div 10 < 10" using assms by linarith
  then have "dec_digits (nat n div 10) = [char_of (nat n div 10 + 48)]"
    by (subst dec_digits.simps) simp
  then show ?thesis
    using assms by (subst fmt_02d_def, subst dec_digits.simps)
      (auto simp: two_digits_def Let_def char_of_48)
qed

section \<open>Properties\<close>





text \<open>
  The local time is the UTC time plus the configured offset in minutes plus one hour when
  \<open>time_is_dst\<close> holds, and \<open>time_as_string\<close> is that time's hours, minutes and seconds
  as two digits each, followed by \<open>'' (DST)''\<close> exactly then; the text fits the 32-byte buffer.
\<close>

lemma time_as_string_correct:
  assumes "0 \<le> t"
  shows "\<exists>dst l. time_is_dst t c = Some dst \<and> calculate_local_time t c = Some l
    \<and> l = t + sint (tz_offset_mins c) * 60 + (if dst then 3600 else 0)
    \<and> time_as_string t c = Some (two_digits (l mod 86400 div 3600) @ '':''
        @ two_digits (l mod 86400 div 60 mod 60) @ '':'' @ two_digits (l mod 60)
        @ (if dst then '' (DST)'' else ''''))"
proof -
  obtain dst where d: "time_is_dst t c = Some dst"
    using time_is_dst_total [OF assms] by blast
  define l where "l = t + sint (tz_offset_mins c) * 60 + (if dst then 3600 else 0)"
  have l: "calculate_local_time t c = Some l"
    using calculate_local_time_eq [OF d] by (simp add: l_def)
  have s: "tm_sec (gmtime_r l) = l mod 60" by (simp add: gmtime_clock mod_mod_cancel)
  have "fmt_02d (tm_hour (gmtime_r l)) = two_digits (l mod 86400 div 3600)"
    using gmtime_hour_bounds [of l] by (subst fmt_02d_two_digits) (simp_all add: gmtime_clock)
  moreover have "fmt_02d (tm_min (gmtime_r l)) = two_digits (l mod 86400 div 60 mod 60)"
    by (simp add: gmtime_clock(2) fmt_02d_two_digits)
  moreover have "fmt_02d (tm_sec (gmtime_r l)) = two_digits (l mod 60)"
    by (simp add: s fmt_02d_two_digits)
  ultimately have "time_as_string t c = Some (two_digits (l mod 86400 div 3600) @ '':''
        @ two_digits (l mod 86400 div 60 mod 60) @ '':'' @ two_digits (l mod 60)
        @ (if dst then '' (DST)'' else ''''))"
    by (simp add: time_as_string_def d l two_digits_def)
  with d l l_def show ?thesis by blast
qed

text \<open>
  The northern and southern rules other than the European one are stated in wall-clock time, but
  the bounds are compared with UTC: whatever the zone, the answer is the same, so with the North
  American rule and UTC-5 the clock jumps from 20:59:59 to 22:00:00 on Saturday 9 March 2024,
  five hours before the rule's Sunday 02:00.
\<close>

lemma dst_ignores_zone:
  "time_is_dst t (c\<lparr>tz_offset_mins := z\<rparr>) = time_is_dst t c
   \<and> time_as_string 1710035999 (flash_config_zero\<lparr>tz_offset_mins := - 300, dst_rule := DST_RULE_NA\<rparr>)
     = Some ''20:59:59''
   \<and> time_as_string 1710036000 (flash_config_zero\<lparr>tz_offset_mins := - 300, dst_rule := DST_RULE_NA\<rparr>)
     = Some ''22:00:00 (DST)''"
proof (intro conjI)
  show "time_is_dst t (c\<lparr>tz_offset_mins := z\<rparr>) = time_is_dst t c"
    by (simp add: time_is_dst_def)
qed code_simp+

end
