(* ===== verification/Lwip.thy ===== *)
theory Lwip
  imports Prelude
begin

text \<open>
  What the program sees of the lwIP stack. The stack's own code is not part of the repository:
  a packet buffer is the record of the observations the code makes on it (its total length,
  \<open>pbuf_get_at\<close> and \<open>pbuf_copy_partial\<close>), and the documented meaning of these calls is
  the predicate \<open>pbuf_holds\<close>, a hypothesis of the properties that depend on a packet's
  bytes. Error codes are integers; the names are lwIP's.
\<close>

definition ERR_OK :: int where "ERR_OK = 0"
definition ERR_MEM :: int where "ERR_MEM = - 1"
definition ERR_INPROGRESS :: int where "ERR_INPROGRESS = - 5"
definition ERR_VAL :: int where "ERR_VAL = - 6"
definition ERR_ABRT :: int where "ERR_ABRT = - 13"

lemmas err_defs = ERR_OK_def ERR_MEM_def ERR_INPROGRESS_def ERR_VAL_def ERR_ABRT_def

text \<open>
  The stack's options of src/src/lwipopts.h that bound what a connection can hold: the bytes of a segment,
  the bytes and segments that may be queued on one connection, and the segments of all connections.
\<close>

definition TCP_MSS :: nat where "TCP_MSS = 1460"
definition TCP_SND_BUF :: nat where "TCP_SND_BUF = 8 * TCP_MSS"
definition TCP_SND_QUEUELEN :: nat where "TCP_SND_QUEUELEN = (4 * TCP_SND_BUF + (TCP_MSS - 1)) div TCP_MSS"
definition MEMP_NUM_TCP_SEG :: nat where "MEMP_NUM_TCP_SEG = 32"

lemmas lwip_options = TCP_SND_QUEUELEN_def TCP_SND_BUF_def TCP_MSS_def MEMP_NUM_TCP_SEG_def

type_synonym ip_addr_t = u32

definition ip_addr_cmp :: "ip_addr_t \<Rightarrow> ip_addr_t \<Rightarrow> bool" where
  "ip_addr_cmp addr1 addr2 \<longleftrightarrow> addr1 = addr2"

record pbuf =
  tot_len :: nat
  pbuf_get_at :: "nat \<Rightarrow> u8"
  pbuf_copy_partial :: "nat \<Rightarrow> nat \<Rightarrow> u8 list"

text \<open>
  The packet holds exactly the bytes \<open>bs\<close>: reading past the end yields 0, copying copies what
  there is.
\<close>

definition pbuf_holds :: "pbuf \<Rightarrow> u8 list \<Rightarrow> bool" where
  "pbuf_holds p bs \<longleftrightarrow> tot_len p = length bs
     \<and> (\<forall>i. pbuf_get_at p i = (if i < length bs then bs ! i else 0))
     \<and> (\<forall>len off. pbuf_copy_partial p len off = take len (drop off bs))"

definition pbuf_of_bytes :: "u8 list \<Rightarrow> pbuf" where
  "pbuf_of_bytes bs = \<lparr>tot_len = length bs,
     pbuf_get_at = (\<lambda>i. if i < length bs then bs ! i else 0),
     pbuf_copy_partial = (\<lambda>len off. take len (drop off bs))\<rparr>"

lemma pbuf_holds_of_bytes: "pbuf_holds (pbuf_of_bytes bs) bs"
  by (simp add: pbuf_holds_def pbuf_of_bytes_def)

text \<open>A copy never yields more than was asked for, nor more than the packet has left.\<close>

definition pbuf_sane :: "pbuf \<Rightarrow> bool" where
  "pbuf_sane p \<longleftrightarrow> (\<forall>len off. length (pbuf_copy_partial p len off) = min len (tot_len p - off))"

lemma pbuf_holds_sane: "pbuf_holds p bs \<Longrightarrow> pbuf_sane p"
  by (simp add: pbuf_holds_def pbuf_sane_def min.commute)

record udp_datagram =
  dg_addr :: ip_addr_t
  dg_port :: u16
  dg_payload :: "u8 list"

section \<open>Big-endian words\<close>

definition be16 :: "u8 \<Rightarrow> u8 \<Rightarrow> u16" where
  "be16 hi lo = push_bit 8 (ucast hi) OR ucast lo"

definition be32 :: "u8 \<Rightarrow> u8 \<Rightarrow> u8 \<Rightarrow> u8 \<Rightarrow> u32" where
  "be32 a b c d = push_bit 24 (ucast a) OR push_bit 16 (ucast b) OR push_bit 8 (ucast c) OR ucast d"

lemma bit_less_pow: "0 \<le> m \<Longrightarrow> m < 2 ^ n \<Longrightarrow> bit m i \<Longrightarrow> i < n" for m :: int
  by (metis bit_take_bit_iff take_bit_int_eq_self)

lemma or_shift_eq_add:
  fixes k m :: int
  assumes "0 \<le> m" "m < 2 ^ n"
  shows "push_bit n k OR m = k * 2 ^ n + m"
proof -
  have "push_bit n k AND m = 0"
    using bit_less_pow [OF assms] by (auto simp: bit_eq_iff bit_simps dest: leD)
  then have "push_bit n k + m = push_bit n k OR m" by (rule disjunctive_add_eq_or)
  then show ?thesis by (simp add: push_bit_eq_mult)
qed

lemma uint_byte_bounds: "0 \<le> uint a" "uint a < 256" for a :: u8
  using uint_lt2p [of a] by simp_all

lemma uint_be32: "uint (be32 a b c d) = uint a * 2 ^ 24 + uint b * 2 ^ 16 + uint c * 2 ^ 8 + uint d"
proof -
  have u: "uint (push_bit n (ucast x :: u32)) = push_bit n (uint x)" if "n \<le> 24" for n and x :: u8
  proof -
    have "uint x * 2 ^ n < 256 * 2 ^ n" using uint_byte_bounds [of x] by simp
    also have "\<dots> \<le> (256 :: int) * 2 ^ 24"
      using power_increasing [OF that, of "2 :: int"] by simp
    finally have "take_bit 32 (push_bit n (uint x)) = push_bit n (uint x)"
      using uint_byte_bounds [of x] by (intro take_bit_int_eq_self) (simp_all add: push_bit_eq_mult)
    moreover have "uint (ucast x :: u32) = uint x"
      using uint_byte_bounds [of x] by (simp add: unsigned_ucast_eq take_bit_int_eq_self)
    ultimately show ?thesis by (simp add: unsigned_push_bit_eq)
  qed
  have "uint (ucast d :: u32) = uint d"
    using uint_byte_bounds [of d] by (simp add: unsigned_ucast_eq take_bit_int_eq_self)
  then have "uint (be32 a b c d) = push_bit 24 (uint a) OR (push_bit 16 (uint b) OR
      (push_bit 8 (uint c) OR uint d))"
    by (simp add: be32_def unsigned_or_eq u)
  also have "push_bit 8 (uint c) OR uint d = uint c * 2 ^ 8 + uint d"
    using uint_byte_bounds by (intro or_shift_eq_add) simp_all
  also have "push_bit 16 (uint b) OR (uint c * 2 ^ 8 + uint d) = uint b * 2 ^ 16 + (uint c * 2 ^ 8 + uint d)"
    using uint_byte_bounds [of c] uint_byte_bounds [of d] by (intro or_shift_eq_add) simp_all
  also have "push_bit 24 (uint a) OR (uint b * 2 ^ 16 + (uint c * 2 ^ 8 + uint d))
      = uint a * 2 ^ 24 + (uint b * 2 ^ 16 + (uint c * 2 ^ 8 + uint d))"
    using uint_byte_bounds [of b] uint_byte_bounds [of c] uint_byte_bounds [of d]
    by (intro or_shift_eq_add) simp_all
  finally show ?thesis by simp
qed

section \<open>Words in memory\<close>

text \<open>
  The bytes of a 32-bit word as \<open>memcpy\<close> sees them on the little-endian target. An
  \<open>ip_addr_t\<close> is kept in network order, so its bytes in memory are the address' octets.
\<close>

definition mem_bytes32 :: "u32 \<Rightarrow> u8 list" where
  "mem_bytes32 w = [ucast w, ucast (drop_bit 8 w), ucast (drop_bit 16 w), ucast (drop_bit 24 w)]"

lemma length_mem_bytes32 [simp]: "length (mem_bytes32 w) = 4"
  by (simp add: mem_bytes32_def)

section \<open>UDP sockets\<close>

text \<open>
  A protocol control block as the two servers use it: whether their receive callback is
  registered with it, and the local port it is bound to. Allocation and binding may fail; what
  the stack answers is an argument of the operations. \<open>errno\<close> values are the C library's.
\<close>

record udp_pcb =
  pcb_recv_registered :: bool
  pcb_local_port :: "u16 option"

definition ENOMEM :: int where "ENOMEM = 12"

definition udp_pcb_new :: udp_pcb where
  "udp_pcb_new = \<lparr>pcb_recv_registered = False, pcb_local_port = None\<rparr>"

text \<open>\<open>IP4_ADDR\<close>: an address from its octets, in network order on the little-endian target.\<close>

definition ip4_addr :: "u32 \<Rightarrow> u32 \<Rightarrow> u32 \<Rightarrow> u32 \<Rightarrow> ip_addr_t" where
  "ip4_addr a b c d = push_bit 24 (d AND 0xff) OR push_bit 16 (c AND 0xff)
     OR push_bit 8 (b AND 0xff) OR (a AND 0xff)"

end
