(* ===== verification/Ntp.thy ===== *)
theory Ntp
  imports Config Lwip
begin

text \<open>
  src/ntp.c: the NTP client's state, its requests and its two callbacks. Calls into lwIP and the
  timer are arguments: whether \<open>pbuf_alloc\<close> and \<open>udp_new_ip_type\<close> succeed, what
  \<open>udp_sendto\<close> and \<open>dns_gethostbyname\<close> return, and the time since boot. The callback
  \<open>time_handler\<close> that hands a time to the clock is a function on the parent's state, which
  the NTP code passes through. A sent datagram is part of the result.
\<close>

section \<open>State\<close>

record ntp_state_t =
  ns_port :: u16
  ntp_server_address :: ip_addr_t
  ntp_pcb :: bool
  request_start_ms :: u32
  ntp_error :: ntp_error_t
  ntp_status :: ntp_status_t

record ntp_atomic_state_t =
  as_error :: ntp_error_t
  as_status :: ntp_status_t
  as_request_start_ms :: u32

text \<open>\<open>memset(state, 0, sizeof(ntp_state_t))\<close>.\<close>

definition ntp_state_zero :: ntp_state_t where
  "ntp_state_zero = \<lparr>ns_port = 0, ntp_server_address = 0, ntp_pcb = False, request_start_ms = 0,
     ntp_error = NTP_OK, ntp_status = NTP_IDLE\<rparr>"

section \<open>Operations\<close>

text \<open>The updated state and the snapshot written through \<open>atomic_state\<close>.\<close>

definition ntp_atomic_status ::
  "ntp_state_t \<Rightarrow> ntp_status_t \<Rightarrow> ntp_error_t \<Rightarrow> u32 \<Rightarrow> ntp_state_t \<times> ntp_atomic_state_t" where
  "ntp_atomic_status state status error ms =
     (let state = (if status \<noteq> NTP_NULL_STATUS then state\<lparr>ntp_status := status\<rparr> else state);
          state = (if error \<noteq> NTP_NULL_ERROR then state\<lparr>ntp_error := error\<rparr> else state);
          state = (if ms \<noteq> 0 then state\<lparr>request_start_ms := ms\<rparr> else state)
      in (state, \<lparr>as_error = ntp_error state, as_status = ntp_status state,
                  as_request_start_ms = request_start_ms state\<rparr>))"

definition ntp_request_packet :: "u8 list" where
  "ntp_request_packet = (replicate NTP_MSG_LEN 0)[0 := 0x1b]"

definition ntp_start_udp_request ::
  "bool \<Rightarrow> (udp_datagram \<Rightarrow> int) \<Rightarrow> ntp_state_t \<Rightarrow> ntp_state_t \<times> udp_datagram list" where
  "ntp_start_udp_request pbuf_alloc udp_sendto state =
     (if \<not> pbuf_alloc then (fst (ntp_atomic_status state NTP_FAILED NTP_MEMORY_ERROR 0), [])
      else
        (let p = \<lparr>dg_addr = ntp_server_address state, dg_port = ns_port state,
                  dg_payload = ntp_request_packet\<rparr>;
             err = udp_sendto p
         in if err \<noteq> 0 then (fst (ntp_atomic_status state NTP_FAILED NTP_PROTOCOL_ERROR 0), [])
            else (state, [p])))"

text \<open>\<open>ipaddr\<close> is a pointer that may be NULL (\<open>None\<close>).\<close>

definition ntp_dns_callback ::
  "bool \<Rightarrow> (udp_datagram \<Rightarrow> int) \<Rightarrow> ip_addr_t option \<Rightarrow> ntp_state_t \<Rightarrow> ntp_state_t \<times> udp_datagram list" where
  "ntp_dns_callback pbuf_alloc udp_sendto ipaddr state =
     (case ipaddr of
        Some a \<Rightarrow>
          if a \<noteq> 0
          then ntp_start_udp_request pbuf_alloc udp_sendto (state\<lparr>ntp_server_address := a\<rparr>)
          else (fst (ntp_atomic_status state NTP_FAILED NTP_DNS_ERROR 0), [])
      | None \<Rightarrow> (fst (ntp_atomic_status state NTP_FAILED NTP_DNS_ERROR 0), []))"

definition ntp_seconds_to_epoch :: "u32 \<Rightarrow> int" where
  "ntp_seconds_to_epoch seconds_since_1900 =
     (if seconds_since_1900 < NTP_DELTA
      then (uint seconds_since_1900 + 0x100000000) - uint NTP_DELTA
      else uint (seconds_since_1900 - NTP_DELTA))"

text \<open>
  \<open>seconds_buf\<close> starts as zeros, so bytes the packet does not have stay 0.
\<close>

definition ntp_recv_callback ::
  "('p \<Rightarrow> int \<Rightarrow> 'p) \<Rightarrow> pbuf \<Rightarrow> ip_addr_t \<Rightarrow> u16 \<Rightarrow> ntp_state_t \<times> 'p \<Rightarrow> ntp_state_t \<times> 'p" where
  "ntp_recv_callback time_handler p addr port w =
     (let state = fst w; parent_state = snd w;
          first_byte = pbuf_get_at p 0;
          mode = first_byte AND 0x07;
          leap = drop_bit 6 first_byte AND 0x03;
          stratum = pbuf_get_at p 1;
          addrs_valid = ip_addr_cmp addr (ntp_server_address state);
          response_valid = (port = ns_port state \<and> tot_len p = NTP_MSG_LEN \<and> mode = 0x4);
          packet_valid = (addrs_valid \<and> response_valid)
      in if \<not> addrs_valid then
           (fst (ntp_atomic_status state NTP_FAILED NTP_DNS_ERROR 0), parent_state)
         else if \<not> packet_valid then
           (fst (ntp_atomic_status state NTP_FAILED NTP_PROTOCOL_ERROR 0), parent_state)
         else if stratum = 0 then
           (fst (ntp_atomic_status state NTP_KOD NTP_OK 0), parent_state)
         else if leap = 3 then
           (fst (ntp_atomic_status state NTP_FAILED NTP_PROTOCOL_ERROR 0), parent_state)
         else
           (let copied = pbuf_copy_partial p 4 40;
                seconds_buf = copied @ drop (length copied) (replicate 4 0);
                seconds_since_1900 =
                  be32 (seconds_buf ! 0) (seconds_buf ! 1) (seconds_buf ! 2) (seconds_buf ! 3);
                seconds_since_1970 = ntp_seconds_to_epoch seconds_since_1900
            in (fst (ntp_atomic_status state NTP_SUCCESS NTP_OK 0),
                time_handler parent_state seconds_since_1970)))"

definition ntp_init :: "bool \<Rightarrow> ntp_state_t \<Rightarrow> bool \<times> ntp_state_t" where
  "ntp_init udp_new_ip_type state =
     (let state = ntp_state_zero\<lparr>ntp_pcb := udp_new_ip_type\<rparr>
      in if \<not> ntp_pcb state then (False, state) else (True, state))"

text \<open>
  \<open>dns_gethostbyname\<close> returns its status and, when the name was in its cache, writes the address.
\<close>

definition ntp_request_async ::
  "u32 \<Rightarrow> (string \<Rightarrow> int \<times> ip_addr_t option) \<Rightarrow> bool \<Rightarrow> (udp_datagram \<Rightarrow> int) \<Rightarrow> string
   \<Rightarrow> ntp_state_t \<Rightarrow> ntp_error_t \<times> ntp_state_t \<times> udp_datagram list" where
  "ntp_request_async now_ms dns_gethostbyname pbuf_alloc udp_sendto server_name state =
     (let request_start_ms = now_ms;
          state = fst (ntp_atomic_status state NTP_PENDING NTP_OK request_start_ms);
          dns = dns_gethostbyname server_name;
          dns_status = fst dns;
          state = (case snd dns of None \<Rightarrow> state | Some a \<Rightarrow> state\<lparr>ntp_server_address := a\<rparr>)
      in if dns_status = ERR_OK then
           (NTP_OK, ntp_start_udp_request pbuf_alloc udp_sendto state)
         else if dns_status \<noteq> ERR_INPROGRESS then (NTP_DNS_ERROR, state, [])
         else (NTP_OK, state, []))"

section \<open>Facts about the operations\<close>

lemma ntp_atomic_status_fields [simp]:
  "ntp_status (fst (ntp_atomic_status s st e ms)) = (if st = NTP_NULL_STATUS then ntp_status s else st)"
  "ntp_error (fst (ntp_atomic_status s st e ms)) = (if e = NTP_NULL_ERROR then ntp_error s else e)"
  "request_start_ms (fst (ntp_atomic_status s st e ms)) = (if ms = 0 then request_start_ms s else ms)"
  "ns_port (fst (ntp_atomic_status s st e ms)) = ns_port s"
  "ntp_server_address (fst (ntp_atomic_status s st e ms)) = ntp_server_address s"
  "ntp_pcb (fst (ntp_atomic_status s st e ms)) = ntp_pcb s"
  by (simp_all add: ntp_atomic_status_def Let_def)

lemma ntp_atomic_status_read:
  "ntp_atomic_status s NTP_NULL_STATUS NTP_NULL_ERROR 0 =
     (s, \<lparr>as_error = ntp_error s, as_status = ntp_status s, as_request_start_ms = request_start_ms s\<rparr>)"
  by (simp add: ntp_atomic_status_def)

lemma uint_NTP_DELTA: "uint NTP_DELTA = 2208988800"
  by (simp add: NTP_DELTA_def)

lemma ntp_seconds_to_epoch_mod:
  "ntp_seconds_to_epoch s = (uint s - 2208988800) mod 2 ^ 32"
proof -
  have b: "0 \<le> uint s" "uint s < 2 ^ 32" using uint_lt2p [of s] by simp_all
  show ?thesis
  proof (cases "s < NTP_DELTA")
    case True
    then have "uint s < 2208988800" by (simp add: word_less_def uint_NTP_DELTA)
    with b have "(uint s - 2208988800 + 2 ^ 32) mod 2 ^ 32 = uint s - 2208988800 + 2 ^ 32"
      by (intro mod_pos_pos_trivial) simp_all
    then have "(uint s - 2208988800) mod 2 ^ 32 = uint s - 2208988800 + 2 ^ 32"
      by (simp only: mod_add_self2)
    with True show ?thesis by (simp add: ntp_seconds_to_epoch_def uint_NTP_DELTA)
  next
    case False
    then show ?thesis
      by (simp add: ntp_seconds_to_epoch_def uint_word_ariths uint_NTP_DELTA)
  qed
qed

lemma ntp_seconds_to_epoch_range: "0 \<le> ntp_seconds_to_epoch s \<and> ntp_seconds_to_epoch s < 2 ^ 32"
  by (simp add: ntp_seconds_to_epoch_mod)

lemma ntp_request_packet_bytes:
  "length ntp_request_packet = 48" "ntp_request_packet ! 0 = 0x1b"
  "0 < i \<Longrightarrow> i < 48 \<Longrightarrow> ntp_request_packet ! i = 0"
  by (simp_all add: ntp_request_packet_def NTP_MSG_LEN_def)

section \<open>The status machine\<close>

datatype ntp_event =
    NtpRequest u32 "string \<Rightarrow> int \<times> ip_addr_t option" bool "udp_datagram \<Rightarrow> int" string
  | NtpDnsReply bool "udp_datagram \<Rightarrow> int" "ip_addr_t option"
  | NtpReply pbuf ip_addr_t u16
  | NtpAcknowledge

text \<open>
  One callback or call of the clock. \<open>NtpAcknowledge\<close> is the write of \<open>NTP_IDLE\<close> in
  \<open>clock_task\<close>, which happens on a snapshot and may come after a later reply.
\<close>

fun ntp_step :: "('p \<Rightarrow> int \<Rightarrow> 'p) \<Rightarrow> ntp_state_t \<times> 'p \<Rightarrow> ntp_event \<Rightarrow> ntp_state_t \<times> 'p" where
  "ntp_step h (s, q) (NtpRequest ms dns pb snd_to name) =
     (fst (snd (ntp_request_async ms dns pb snd_to name s)), q)"
| "ntp_step h (s, q) (NtpDnsReply pb snd_to a) = (fst (ntp_dns_callback pb snd_to a s), q)"
| "ntp_step h (s, q) (NtpReply p addr port) = ntp_recv_callback h p addr port (s, q)"
| "ntp_step h (s, q) NtpAcknowledge = (fst (ntp_atomic_status s NTP_IDLE NTP_NULL_ERROR 0), q)"

text \<open>
  The status and the error agree: a request under way, a success or a kiss of death carries no
  error, a failure carries one of the three errors of this module, and neither field ever holds
  its \<open>NULL\<close> marker.
\<close>

definition ntp_consistent :: "ntp_state_t \<Rightarrow> bool" where
  "ntp_consistent s \<longleftrightarrow> ntp_status s \<noteq> NTP_NULL_STATUS
     \<and> ntp_error s \<in> {NTP_OK, NTP_DNS_ERROR, NTP_PROTOCOL_ERROR, NTP_MEMORY_ERROR}
     \<and> (ntp_status s \<in> {NTP_PENDING, NTP_SUCCESS, NTP_KOD} \<longrightarrow> ntp_error s = NTP_OK)
     \<and> (ntp_status s = NTP_FAILED \<longrightarrow> ntp_error s \<noteq> NTP_OK)"

lemma ntp_consistent_init: "ntp_consistent (snd (ntp_init pcb s))"
  by (simp add: ntp_consistent_def ntp_init_def ntp_state_zero_def Let_def)

lemma ntp_start_udp_request_consistent:
  "ntp_consistent s \<Longrightarrow> ntp_consistent (fst (ntp_start_udp_request pb snd_to s))"
  by (auto simp: ntp_start_udp_request_def ntp_consistent_def Let_def)

lemma ntp_dns_callback_consistent:
  assumes "ntp_consistent s"
  shows "ntp_consistent (fst (ntp_dns_callback pb snd_to a s))"
proof -
  have "ntp_consistent (s\<lparr>ntp_server_address := x\<rparr>)" for x
    using assms by (simp add: ntp_consistent_def)
  then show ?thesis
    using ntp_start_udp_request_consistent
    by (auto simp: ntp_dns_callback_def ntp_consistent_def split: option.splits)
qed

lemma ntp_request_async_consistent:
  assumes "ntp_consistent s"
  shows "ntp_consistent (fst (snd (ntp_request_async ms dns pb snd_to name s)))"
proof -
  let ?s = "fst (ntp_atomic_status s NTP_PENDING NTP_OK ms)"
  have "ntp_consistent ?s" "ntp_consistent (?s\<lparr>ntp_server_address := x\<rparr>)" for x
    by (simp_all add: ntp_consistent_def)
  then show ?thesis
    by (auto simp: ntp_request_async_def Let_def intro: ntp_start_udp_request_consistent
        split: option.splits)
qed

lemma ntp_recv_callback_consistent:
  "ntp_consistent (fst w) \<Longrightarrow> ntp_consistent (fst (ntp_recv_callback h p addr port w))"
  by (simp add: ntp_recv_callback_def ntp_consistent_def Let_def)

lemma ntp_step_consistent: "ntp_consistent (fst w) \<Longrightarrow> ntp_consistent (fst (ntp_step h w e))"
proof (cases w)
  case (Pair s q)
  assume "ntp_consistent (fst w)"
  with Pair have s: "ntp_consistent s" by simp
  show ?thesis
  proof (cases e)
    case NtpAcknowledge
    have "ntp_consistent (fst (ntp_atomic_status s NTP_IDLE NTP_NULL_ERROR 0))"
      using s by (simp add: ntp_consistent_def)
    with Pair NtpAcknowledge show ?thesis by simp
  qed (simp_all add: Pair s ntp_request_async_consistent ntp_dns_callback_consistent
      ntp_recv_callback_consistent)
qed

interpretation ntp_machine: invariant_machine "ntp_step h" "\<lambda>w. ntp_consistent (fst w)" for h
  by unfold_locales (rule ntp_step_consistent)

section \<open>Properties\<close>

text \<open>
  C38: A time reaches the clock only from a reply that came from the server's address and port, is
  48 bytes long, has mode 4, is not a kiss of death (stratum 0) and not from an unsynchronised
  server (leap indicator 3); in every other case the parent's state is untouched.
\<close>

theorem ntp_time_only_from_valid_reply:
  assumes "snd (ntp_recv_callback h p addr port (s, q)) \<noteq> q"
  shows "addr = ntp_server_address s \<and> port = ns_port s \<and> tot_len p = 48
    \<and> pbuf_get_at p 0 AND 0x07 = 0x4 \<and> pbuf_get_at p 1 \<noteq> 0
    \<and> drop_bit 6 (pbuf_get_at p 0) AND 0x03 \<noteq> 3
    \<and> ntp_status (fst (ntp_recv_callback h p addr port (s, q))) = NTP_SUCCESS"
  using assms unfolding ntp_recv_callback_def Let_def ip_addr_cmp_def NTP_MSG_LEN_def fst_conv snd_conv
  by (simp split: if_split_asm)

text \<open>A server's answer: leap 0, version 3, mode 4, stratum 2, and 2036-02-07 06:28:16 + 16 s.\<close>

definition sample_reply :: "u8 list" where
  "sample_reply = [0x1c, 2] @ replicate 41 0 @ [16, 0, 0, 0, 0]"

definition sample_state :: ntp_state_t where
  "sample_state = ntp_state_zero\<lparr>ntp_server_address := 0x08080808, ns_port := 123,
     ntp_status := NTP_PENDING\<rparr>"

theorem ntp_time_only_from_valid_reply_witness:
  "ntp_status (fst (ntp_recv_callback (\<lambda>_ t. t) (pbuf_of_bytes sample_reply) 0x08080808 123 (sample_state, 0)))
     = NTP_SUCCESS"
proof -
  have "snd (ntp_recv_callback (\<lambda>_ t. t) (pbuf_of_bytes sample_reply) 0x08080808 123 (sample_state, 0)) \<noteq> (0 :: int)"
    by code_simp
  from ntp_time_only_from_valid_reply [OF this] show ?thesis by blast
qed

text \<open>
  A valid reply whose transmit timestamp has the seconds \<open>S\<close> (big-endian bytes 40 to 43)
  hands the clock the time \<open>S - 2208988800\<close> taken modulo \<open>2^32\<close>, in the range of 1970 to
  2106 whichever NTP era the timestamp is in, and ends the request with \<open>NTP_SUCCESS\<close>.
\<close>

lemma ntp_recv_valid_reply:
  assumes "pbuf_holds p bs" "length bs = 48" "addr = ntp_server_address s" "port = ns_port s"
    and "bs ! 0 AND 0x07 = 0x4" "bs ! 1 \<noteq> 0" "drop_bit 6 (bs ! 0) AND 0x03 \<noteq> 3"
  defines "S \<equiv> uint (bs ! 40) * 2 ^ 24 + uint (bs ! 41) * 2 ^ 16 + uint (bs ! 42) * 2 ^ 8 + uint (bs ! 43)"
  shows "ntp_recv_callback h p addr port (s, q)
    = (s\<lparr>ntp_error := NTP_OK, ntp_status := NTP_SUCCESS\<rparr>, h q ((S - 2208988800) mod 2 ^ 32))"
proof -
  have c: "pbuf_copy_partial p 4 40 = [bs ! 40, bs ! 41, bs ! 42, bs ! 43]"
  proof -
    have "pbuf_copy_partial p 4 40 = take 4 (drop 40 bs)"
      using assms(1) by (simp add: pbuf_holds_def)
    also have "\<dots> = map (\<lambda>i. bs ! (40 + i)) [0 ..< 4]"
      using assms(2) by (intro nth_equalityI) auto
    also have "\<dots> = [bs ! 40, bs ! 41, bs ! 42, bs ! 43]"
      by (simp add: upt_conv_Cons)
    finally show ?thesis .
  qed
  have g: "pbuf_get_at p 0 = bs ! 0" "pbuf_get_at p (Suc 0) = bs ! Suc 0" "tot_len p = 48"
    using assms(1,2) by (simp_all add: pbuf_holds_def)
  show ?thesis
    using assms(3-7)
    by (simp add: ntp_recv_callback_def Let_def g c ip_addr_cmp_def NTP_MSG_LEN_def
        ntp_seconds_to_epoch_mod uint_be32 S_def ntp_atomic_status_def)
qed

text \<open>
  The era arithmetic is exact: from the 32-bit NTP timestamp of any second from 1970-01-01 up to
  \<open>2^32\<close> seconds later (2106), \<open>ntp_seconds_to_epoch\<close> recovers that second, across the
  2036 rollover.
\<close>

lemma ntp_era_roundtrip:
  assumes "0 \<le> t" "t < 2 ^ 32"
  shows "ntp_seconds_to_epoch (word_of_int (t + 2208988800)) = t"
proof -
  have "uint (word_of_int (t + 2208988800) :: u32) = (t + 2208988800) mod 2 ^ 32"
    by (simp only: uint_word_of_int) simp
  then have "(uint (word_of_int (t + 2208988800) :: u32) - 2208988800) mod 2 ^ 32
      = ((t + 2208988800) - 2208988800) mod 2 ^ 32"
    by (simp only: mod_diff_left_eq)
  also have "\<dots> = t" using assms by simp
  finally show ?thesis by (simp only: ntp_seconds_to_epoch_mod)
qed

text \<open>
  Whatever requests, DNS answers, replies and acknowledgements happen, in any order, after
  \<open>ntp_init\<close>, status and error agree: a pending, successful or kiss-of-death status carries no
  error, a failure carries a DNS, protocol or memory error.
\<close>

lemma ntp_runs_consistent:
  "ntp_consistent (fst (foldl (ntp_step h) (snd (ntp_init pcb s), q) es))"
  using ntp_machine.run_invariant [of "(snd (ntp_init pcb s), q)" h es]
  by (simp add: ntp_consistent_init)

text \<open>
  \<open>ntp_request_async\<close> either returns a DNS error with nothing sent, or succeeds; what it
  sends is one 48-byte client packet (leap 0, version 3, mode 3, all else zero) to the resolved
  address on the configured port, and the status is then still pending, while a failed allocation
  or send leaves the status failed with the matching error.
\<close>

lemma ntp_request_async_outcome:
  assumes "ntp_request_async ms dns pb snd_to name s = (r, s', out)"
  shows "(r = NTP_OK \<or> r = NTP_DNS_ERROR) \<and> (r = NTP_DNS_ERROR \<longleftrightarrow> fst (dns name) \<notin> {ERR_OK, ERR_INPROGRESS})
    \<and> (out \<noteq> [] \<longrightarrow> fst (dns name) = ERR_OK \<and> ntp_status s' = NTP_PENDING
         \<and> out = [\<lparr>dg_addr = ntp_server_address s', dg_port = ns_port s, dg_payload = 0x1b # replicate 47 0\<rparr>])
    \<and> (fst (dns name) = ERR_OK \<and> out = [] \<longrightarrow> ntp_status s' = NTP_FAILED
         \<and> ntp_error s' = (if pb then NTP_PROTOCOL_ERROR else NTP_MEMORY_ERROR))"
proof -
  have "ntp_request_packet = 0x1b # replicate 47 0"
    by (simp add: ntp_request_packet_def NTP_MSG_LEN_def eval_nat_numeral)
  then show ?thesis
    using assms by (auto simp: ntp_request_async_def ntp_start_udp_request_def Let_def err_defs
        split: if_splits option.splits)
qed

end
