(* ===== verification/Lcd.thy ===== *)
theory Lcd
  imports Config
begin

text \<open>
  src/src/lcd.c: the driver of the seven ST7789 panels, which share one SPI bus, one data/command line,
  one reset line and one backlight, and have a chip select each. Every call into the SDK is an event
  on the trace \<open>bus\<close>; the driver's globals (the line buffer, the line number of the start-up
  messages and the PWM slice) are the record \<open>lcd_globals\<close>. The generated fonts and icons are
  arguments. \<open>None\<close> is an access outside the line buffer, a font or an icon.
\<close>

section \<open>State\<close>

datatype gpio_function = GPIO_FUNC_SPI | GPIO_FUNC_PWM

datatype bus_event = SpiInit nat | GpioInit u16 | GpioSetDirOut u16 | GpioSetFunction u16 gpio_function
  | GpioPut u16 bool | SpiWrite "u8 list" | SleepMs nat | PwmSetWrap nat nat | PwmSetChanLevel nat nat
  | PwmSetClkdiv nat nat | PwmSetEnabled nat

record lcd_state_t =
  RST_N_gpio :: u16
  DC_gpio :: u16
  BL_gpio :: u16
  CS_N_gpio :: u16
  CLK_gpio :: u16
  MOSI_gpio :: u16
  lcd_width_field :: u16
  lcd_height_field :: u16
  smoothed_adc :: u32

record lcd_globals =
  slice_num :: nat
  line_number :: u8
  linebuf :: "u8 list"
  bus :: "bus_event list"

record font_glyph_t =
  glyph_table :: "u8 list"
  glyph_width :: u8

record font_t =
  font_table :: "font_glyph_t list"
  byte_width :: u16
  font_height :: u16

definition LCD_GPIO_CS_N_BASE :: u16 where "LCD_GPIO_CS_N_BASE = 2"
definition LCD_GPIO_CLK :: u16 where "LCD_GPIO_CLK = 10"
definition LCD_GPIO_MOSI :: u16 where "LCD_GPIO_MOSI = 11"
definition LCD_GPIO_RST_N :: u16 where "LCD_GPIO_RST_N = 12"
definition LCD_GPIO_BL :: u16 where "LCD_GPIO_BL = 13"
definition LCD_GPIO_DC :: u16 where "LCD_GPIO_DC = 14"
definition LCD_COL_START :: int where "LCD_COL_START = 0"
definition LCD_HEIGHT :: nat where "LCD_HEIGHT = 320"
definition LCD_ROW_START :: int where "LCD_ROW_START = 34"
definition LCD_WIDTH :: nat where "LCD_WIDTH = 172"

lemmas lcd_consts = LCD_GPIO_CS_N_BASE_def LCD_GPIO_CLK_def LCD_GPIO_MOSI_def LCD_GPIO_RST_N_def
  LCD_GPIO_BL_def LCD_GPIO_DC_def LCD_COL_START_def LCD_HEIGHT_def LCD_ROW_START_def LCD_WIDTH_def

definition color_table :: "u16 list" where
  "color_table = [0x0000, 0xF800, 0x07E0, 0x07FF]"

datatype color_t = BLACK | RED | GREEN | CYAN

fun color_value :: "color_t \<Rightarrow> u16" where
  "color_value BLACK = 0"
| "color_value RED = 1"
| "color_value GREEN = 2"
| "color_value CYAN = 3"

abbreviation BG_COLOR :: color_t where "BG_COLOR \<equiv> BLACK"

datatype lcd_status_message_t = LCD_MSG_INIT_OK | LCD_MSG_FLASH_ERROR | LCD_MSG_WIFI_ERROR | LCD_MSG_WIFI_OK

fun lcd_msg_str :: "lcd_status_message_t \<Rightarrow> string" where
  "lcd_msg_str LCD_MSG_INIT_OK = ''LCD init successful''"
| "lcd_msg_str LCD_MSG_FLASH_ERROR = ''Flash config corrupt''"
| "lcd_msg_str LCD_MSG_WIFI_ERROR = ''Config mode started''"
| "lcd_msg_str LCD_MSG_WIFI_OK = ''Connected to WiFi''"

definition bus_out :: "bus_event list \<Rightarrow> lcd_globals \<Rightarrow> lcd_globals" where
  "bus_out es g = g\<lparr>bus := bus g @ es\<rparr>"

section \<open>Peripherals\<close>

text \<open>\<open>slice_of\<close> is the SDK's \<open>pwm_gpio_to_slice_num\<close>.\<close>

definition lcd_init_peripherals :: "(u16 \<Rightarrow> nat) \<Rightarrow> lcd_state_t \<Rightarrow> bool \<Rightarrow> lcd_globals \<Rightarrow> lcd_globals" where
  "lcd_init_peripherals slice_of state reset g =
     (let g = bus_out [SpiInit 10000000, GpioSetFunction (CLK_gpio state) GPIO_FUNC_SPI,
                GpioSetFunction (MOSI_gpio state) GPIO_FUNC_SPI] g;
          g = (if reset then bus_out [GpioInit (RST_N_gpio state), GpioSetDirOut (RST_N_gpio state)] g else g);
          g = bus_out [GpioInit (DC_gpio state), GpioSetDirOut (DC_gpio state),
                GpioInit (CS_N_gpio state), GpioSetDirOut (CS_N_gpio state),
                GpioInit (BL_gpio state), GpioSetDirOut (BL_gpio state),
                GpioPut (CS_N_gpio state) True, GpioPut (DC_gpio state) False, GpioPut (BL_gpio state) True,
                GpioSetFunction (BL_gpio state) GPIO_FUNC_PWM] g;
          g = g\<lparr>slice_num := slice_of (BL_gpio state)\<rparr>
      in bus_out [PwmSetWrap (slice_num g) 100, PwmSetChanLevel (slice_num g) 1,
           PwmSetClkdiv (slice_num g) 50, PwmSetEnabled (slice_num g)] g)"

definition lcd_set_backlight :: "lcd_state_t \<Rightarrow> u8 \<Rightarrow> lcd_globals \<Rightarrow> lcd_globals" where
  "lcd_set_backlight state level g =
     (let level = (if level > 100 then 100 else level)
      in bus_out [PwmSetChanLevel (slice_num g) (unat level)] g)"

definition lcd_reset :: "lcd_state_t \<Rightarrow> lcd_globals \<Rightarrow> lcd_globals" where
  "lcd_reset state g = bus_out [GpioPut (RST_N_gpio state) True, SleepMs 100, GpioPut (RST_N_gpio state) False,
     SleepMs 100, GpioPut (RST_N_gpio state) True, SleepMs 100] g"

section \<open>Commands\<close>

definition st7789_command :: "lcd_state_t \<Rightarrow> u8 \<Rightarrow> lcd_globals \<Rightarrow> lcd_globals" where
  "st7789_command state reg g = bus_out [GpioPut (DC_gpio state) False, GpioPut (CS_N_gpio state) False,
     SpiWrite [reg], GpioPut (CS_N_gpio state) True] g"

definition st7789_data_byte :: "lcd_state_t \<Rightarrow> u8 \<Rightarrow> lcd_globals \<Rightarrow> lcd_globals" where
  "st7789_data_byte state dat g = bus_out [GpioPut (DC_gpio state) True, GpioPut (CS_N_gpio state) False,
     SpiWrite [dat], GpioPut (CS_N_gpio state) True] g"

text \<open>A command followed by its parameters.\<close>

definition st7789_send :: "lcd_state_t \<Rightarrow> u8 \<Rightarrow> u8 list \<Rightarrow> lcd_globals \<Rightarrow> lcd_globals" where
  "st7789_send state reg params g = fold (st7789_data_byte state) params (st7789_command state reg g)"

definition st7789_init :: "lcd_state_t \<Rightarrow> lcd_globals \<Rightarrow> lcd_globals" where
  "st7789_init state g =
     (let g = st7789_send state 0x11 [] g;
          g = bus_out [SleepMs 120] g;
          g = st7789_send state 0x36 [0x00] g;
          g = st7789_send state 0x3A [0x05] g;
          g = st7789_send state 0xB2 [0x0C, 0x0C, 0x00, 0x33, 0x33] g;
          g = st7789_send state 0xB7 [0x35] g;
          g = st7789_send state 0xBB [0x35] g;
          g = st7789_send state 0xC0 [0x2C] g;
          g = st7789_send state 0xC2 [0x01] g;
          g = st7789_send state 0xC3 [0x13] g;
          g = st7789_send state 0xC4 [0x20] g;
          g = st7789_send state 0xC6 [0x0F] g;
          g = st7789_send state 0xD0 [0xA4, 0xA1] g;
          g = st7789_send state 0xD6 [0xA1] g;
          g = st7789_send state 0xE0 [0xF0, 0x00, 0x04, 0x04, 0x04, 0x05, 0x33, 0x3E, 0x38, 0x12, 0x12, 0x28, 0x30] g;
          g = st7789_send state 0xE1 [0xF0, 0x07, 0x0A, 0x0D, 0x0B, 0x07, 0x28, 0x33, 0x3E, 0x36, 0x14, 0x14, 0x32] g;
          g = st7789_send state 0x21 [] g;
          g = st7789_send state 0x11 [] g;
          g = bus_out [SleepMs 120] g
      in st7789_send state 0x29 [] g)"

text \<open>The two bytes of a coordinate computed in \<open>int\<close> and cut to a byte each.\<close>

definition coord_bytes :: "int \<Rightarrow> u8 list" where
  "coord_bytes v = [word_of_int (drop_bit 8 v), word_of_int (v AND 0xff)]"

definition st7789_set_command_windows ::
  "lcd_state_t \<Rightarrow> u16 \<Rightarrow> u16 \<Rightarrow> u16 \<Rightarrow> u16 \<Rightarrow> lcd_globals \<Rightarrow> lcd_globals" where
  "st7789_set_command_windows state x_start y_start w h g =
     (let g = st7789_send state 0x2A (coord_bytes (uint x_start + LCD_ROW_START)
                @ coord_bytes (uint x_start + uint w + LCD_ROW_START - 1)) g;
          g = st7789_send state 0x2B (coord_bytes (uint y_start + LCD_COL_START)
                @ coord_bytes (uint y_start + uint h + LCD_COL_START - 1)) g
      in st7789_send state 0x2C [] g)"

section \<open>Drawing\<close>

text \<open>A loop whose body may fail.\<close>

fun fold_opt :: "('a \<Rightarrow> 's \<Rightarrow> 's option) \<Rightarrow> 'a list \<Rightarrow> 's \<Rightarrow> 's option" where
  "fold_opt f [] s = Some s"
| "fold_opt f (x # xs) s = Option.bind (f x s) (fold_opt f xs)"

definition color_bytes :: "u16 \<Rightarrow> u8 \<times> u8" where
  "color_bytes c = (ucast (drop_bit 8 c), ucast (c AND 0xFF))"

text \<open>The two stores of one pixel into the line buffer.\<close>

definition put_pixel :: "nat \<Rightarrow> u8 \<times> u8 \<Rightarrow> u8 list \<Rightarrow> u8 list option" where
  "put_pixel x c buf = do { buf \<leftarrow> buf_put buf (x * 2) [fst c]; buf_put buf (x * 2 + 1) [snd c] }"

definition write_line :: "nat \<Rightarrow> u8 list \<Rightarrow> lcd_globals \<Rightarrow> lcd_globals option" where
  "write_line n buf g =
     (if n \<le> length buf then Some (bus_out [SpiWrite (take n buf)] (g\<lparr>linebuf := buf\<rparr>)) else None)"

text \<open>Selecting the panel for pixel data, and releasing it.\<close>

definition open_data :: "lcd_state_t \<Rightarrow> lcd_globals \<Rightarrow> lcd_globals" where
  "open_data state g = bus_out [GpioPut (DC_gpio state) True, GpioPut (CS_N_gpio state) False] g"

definition close_data :: "lcd_state_t \<Rightarrow> lcd_globals \<Rightarrow> lcd_globals" where
  "close_data state g = bus_out [GpioPut (CS_N_gpio state) True] g"

definition lcd_draw_rectangle ::
  "lcd_state_t \<Rightarrow> u16 \<Rightarrow> u16 \<Rightarrow> u16 \<Rightarrow> u16 \<Rightarrow> u16 \<Rightarrow> lcd_globals \<Rightarrow> lcd_globals option" where
  "lcd_draw_rectangle state x_start y_start w h fg_color g = do {
     let g = open_data state (st7789_set_command_windows state x_start y_start w h g);
     let fg = color_bytes (color_table ! (unat fg_color mod 4));
     buf \<leftarrow> fold_opt (\<lambda>x. put_pixel x fg) [0..<unat w] (linebuf g);
     let g = g\<lparr>linebuf := buf\<rparr>;
     g \<leftarrow> fold_opt (\<lambda>j g. write_line (unat w * 2) (linebuf g) g) [0..<unat h] g;
     Some (close_data state g) }"

definition lcd_clear_screen :: "lcd_state_t \<Rightarrow> color_t \<Rightarrow> lcd_globals \<Rightarrow> lcd_globals option" where
  "lcd_clear_screen state color g =
     (let g = g\<lparr>line_number := 0\<rparr>
      in lcd_draw_rectangle state 0 0 (of_nat LCD_WIDTH) (of_nat LCD_HEIGHT) (color_value color) g)"

definition printable :: "char \<Rightarrow> bool" where
  "printable c \<longleftrightarrow> of_char CHR '' '' \<le> (of_char c :: nat) \<and> (of_char c :: nat) \<le> of_char CHR ''~''"

definition glyph_of :: "font_t \<Rightarrow> char \<Rightarrow> font_glyph_t option" where
  "glyph_of font c = buf_get (font_table font) (of_char c - of_char CHR '' '')"

text \<open>One row of a glyph, \<open>ptr\<close> being the index of the row's first byte.\<close>

definition glyph_row_loop ::
  "font_glyph_t \<Rightarrow> nat \<Rightarrow> u8 \<times> u8 \<Rightarrow> u8 \<times> u8 \<Rightarrow> u8 list \<Rightarrow> u8 list option" where
  "glyph_row_loop entry ptr fg bg buf =
     fold_opt (\<lambda>glyph_column buf. do {
       glyph_pixels \<leftarrow> buf_get (glyph_table entry) (ptr + glyph_column div 8);
       if glyph_pixels AND drop_bit (glyph_column mod 8) 0x80 \<noteq> 0 then put_pixel glyph_column fg buf
       else put_pixel glyph_column bg buf }) [0..<unat (glyph_width entry)] buf"

text \<open>The result is the width drawn, 0 for a character without a glyph.\<close>

definition lcd_write_char ::
  "lcd_state_t \<Rightarrow> u16 \<Rightarrow> u16 \<Rightarrow> char \<Rightarrow> font_t \<Rightarrow> color_t \<Rightarrow> color_t \<Rightarrow> lcd_globals
   \<Rightarrow> (lcd_globals \<times> int) option" where
  "lcd_write_char state x_point y_point ascii_char font fg_color bg_color g =
     (if \<not> printable ascii_char then Some (g, 0)
      else do {
        entry \<leftarrow> glyph_of font ascii_char;
        let font_width = unat (glyph_width entry);
        let g = open_data state (st7789_set_command_windows state x_point y_point (of_nat font_width) (font_height font) g);
        let fg = color_bytes (color_table ! (unat (color_value fg_color) mod 4));
        let bg = color_bytes (color_table ! (unat (color_value bg_color) mod 4));
        g \<leftarrow> fold_opt (\<lambda>glyph_row g. do {
            buf \<leftarrow> glyph_row_loop entry (glyph_row * unat (byte_width font)) fg bg (linebuf g);
            write_line (font_width * 2) buf g }) [0..<unat (font_height font)] g;
        Some (close_data state g, int font_width) })"

text \<open>One row of an image; \<open>img\<close> is the index of the row's first byte.\<close>

definition image_row_loop ::
  "u8 list \<Rightarrow> nat \<Rightarrow> nat \<Rightarrow> u16 \<Rightarrow> nat \<Rightarrow> color_t \<Rightarrow> u8 list \<Rightarrow> u8 list option" where
  "image_row_loop pixels img bytes_per_row x_start image_width fg_color buf =
     fold_opt (\<lambda>byte_idx buf. do {
       b \<leftarrow> buf_get pixels (img + byte_idx);
       fold_opt (\<lambda>k buf.
         (let x = unat x_start + byte_idx * 8 + k;
              c = color_table ! unat (if b AND push_bit (7 - k) 1 \<noteq> 0 then color_value fg_color else 0)
          in if x < unat x_start + image_width then put_pixel (x - unat x_start) (color_bytes c) buf
             else Some buf)) [0..<8] buf }) [0..<bytes_per_row] buf"

definition lcd_write_image ::
  "lcd_state_t \<Rightarrow> u8 list \<Rightarrow> u16 \<Rightarrow> u16 \<Rightarrow> u16 \<Rightarrow> u16 \<Rightarrow> color_t \<Rightarrow> lcd_globals \<Rightarrow> lcd_globals option" where
  "lcd_write_image state pixels x_start y_start image_width image_height fg_color g = do {
     let g = open_data state (st7789_set_command_windows state x_start y_start image_width image_height g);
     let bytes_per_row = (unat image_width + 7) div 8;
     g \<leftarrow> fold_opt (\<lambda>yy g. do {
         buf \<leftarrow> image_row_loop pixels (yy * bytes_per_row) bytes_per_row x_start (unat image_width) fg_color (linebuf g);
         write_line (unat image_width * 2) buf g }) [0..<unat image_height] g;
     Some (close_data state g) }"

section \<open>Text, digits and icons\<close>

text \<open>The loop over the message; \<open>x_point\<close> and \<open>y_point\<close> are 16-bit, the tests in \<open>int\<close>.\<close>

fun print_line_loop ::
  "font_t \<Rightarrow> lcd_state_t \<Rightarrow> color_t \<Rightarrow> string \<Rightarrow> u16 \<Rightarrow> u16 \<Rightarrow> int \<Rightarrow> lcd_globals \<Rightarrow> lcd_globals option" where
  "print_line_loop text_font state color [] x_point y_point w g = Some g"
| "print_line_loop text_font state color (c # msg_str) x_point y_point w g =
     (let (x_point, y_point) = (if uint x_point + w > int LCD_WIDTH
            then (0, y_point + font_height text_font) else (x_point, y_point));
          (x_point, y_point) = (if uint y_point + uint (font_height text_font) > int LCD_HEIGHT
            then (0, 0) else (x_point, y_point))
      in do {
        (g, w) \<leftarrow> lcd_write_char state x_point y_point c text_font color BG_COLOR g;
        print_line_loop text_font state color msg_str (x_point + word_of_int w) y_point w g })"

definition lcd_print_line ::
  "font_t \<Rightarrow> lcd_state_t \<Rightarrow> color_t \<Rightarrow> lcd_status_message_t \<Rightarrow> lcd_globals \<Rightarrow> lcd_globals option" where
  "lcd_print_line text_font state color msg g = do {
     let y_start = word_of_int ((uint (line_number g) + 3) * uint (font_height text_font));
     g \<leftarrow> print_line_loop text_font state color (lcd_msg_str msg) 0 y_start 0 g;
     Some (g\<lparr>line_number := line_number g + 1\<rparr>) }"

definition lcd_print_clock_digit ::
  "font_t \<Rightarrow> lcd_state_t \<Rightarrow> color_t \<Rightarrow> char \<Rightarrow> lcd_globals \<Rightarrow> lcd_globals option" where
  "lcd_print_clock_digit clock_digit_font state color ascii_char g =
     (if \<not> printable ascii_char then Some g
      else do {
        entry \<leftarrow> glyph_of clock_digit_font ascii_char;
        let x_point = word_of_int ((int LCD_WIDTH - uint (glyph_width entry)) sdiv 2);
        map_option fst (lcd_write_char state x_point 0 ascii_char clock_digit_font color BLACK g) })"

datatype icon = watchdog_icon | watchdog_ntp_icon | watchdog_wifi_icon | ntp_icon | ntp_init_icon | ntp_dns_icon
  | ntp_memory_icon | ntp_error_icon | ntp_timeout_icon | wifi_icon | wifi_init_icon | wifi_timeout_icon
  | wifi_password_icon | wifi_connect_icon | wifi_error_icon

definition ICON_SIZE :: u16 where "ICON_SIZE = 36"
definition WATCHDOG_ICON_X_OFFSET :: u16 where "WATCHDOG_ICON_X_OFFSET = of_nat LCD_WIDTH - 5 + ICON_SIZE * -3"
definition NTP_ICON_X_OFFSET :: u16 where "NTP_ICON_X_OFFSET = of_nat LCD_WIDTH - 5 + ICON_SIZE * -2"
definition WIFI_ICON_X_OFFSET :: u16 where "WIFI_ICON_X_OFFSET = of_nat LCD_WIDTH - 5 + ICON_SIZE * -1"

text \<open>The three switches of \<open>lcd_update_icons\<close>: the icon, its place and colour; none for a missing case.\<close>

fun watchdog_case :: "watchdog_error_t \<Rightarrow> (icon \<times> u16 \<times> color_t) option" where
  "watchdog_case WATCHDOG_RESET = Some (watchdog_icon, WATCHDOG_ICON_X_OFFSET, RED)"
| "watchdog_case WATCHDOG_NTP = Some (watchdog_ntp_icon, WATCHDOG_ICON_X_OFFSET, RED)"
| "watchdog_case WATCHDOG_WIFI = Some (watchdog_wifi_icon, WATCHDOG_ICON_X_OFFSET, RED)"
| "watchdog_case WATCHDOG_OK = None"

fun ntp_case :: "ntp_error_t \<Rightarrow> (icon \<times> u16 \<times> color_t) option" where
  "ntp_case NTP_OK = Some (ntp_icon, NTP_ICON_X_OFFSET, GREEN)"
| "ntp_case NTP_INIT_ERROR = Some (ntp_init_icon, NTP_ICON_X_OFFSET, RED)"
| "ntp_case NTP_DNS_ERROR = Some (ntp_dns_icon, NTP_ICON_X_OFFSET, RED)"
| "ntp_case NTP_MEMORY_ERROR = Some (ntp_memory_icon, NTP_ICON_X_OFFSET, RED)"
| "ntp_case NTP_PROTOCOL_ERROR = Some (ntp_error_icon, NTP_ICON_X_OFFSET, RED)"
| "ntp_case NTP_TIMEOUT_ERROR = Some (ntp_timeout_icon, NTP_ICON_X_OFFSET, RED)"
| "ntp_case NTP_NULL_ERROR = None"

fun wifi_case :: "wifi_error_t \<Rightarrow> (icon \<times> u16 \<times> color_t) option" where
  "wifi_case WIFI_OK = Some (wifi_icon, WIFI_ICON_X_OFFSET, GREEN)"
| "wifi_case WIFI_INIT_ERROR = Some (wifi_init_icon, WIFI_ICON_X_OFFSET, RED)"
| "wifi_case WIFI_TIMEOUT_ERROR = Some (wifi_timeout_icon, WIFI_ICON_X_OFFSET, RED)"
| "wifi_case WIFI_AUTH_ERROR = Some (wifi_password_icon, WIFI_ICON_X_OFFSET, RED)"
| "wifi_case WIFI_CONNECT_ERROR = Some (wifi_connect_icon, WIFI_ICON_X_OFFSET, RED)"
| "wifi_case WIFI_UNKNOWN_ERROR = Some (wifi_error_icon, WIFI_ICON_X_OFFSET, RED)"

definition draw_icon ::
  "(icon \<Rightarrow> u8 list) \<Rightarrow> lcd_state_t \<Rightarrow> (icon \<times> u16 \<times> color_t) option \<Rightarrow> lcd_globals \<Rightarrow> lcd_globals option" where
  "draw_icon icons state ic g = (case ic of
     None \<Rightarrow> Some g
   | Some (i, x_offset, color) \<Rightarrow> lcd_write_image state (icons i) x_offset 0 ICON_SIZE ICON_SIZE color g)"

definition lcd_update_icons ::
  "(icon \<Rightarrow> u8 list) \<Rightarrow> lcd_state_t \<Rightarrow> watchdog_error_t \<Rightarrow> ntp_error_t \<Rightarrow> wifi_error_t
   \<Rightarrow> lcd_globals \<Rightarrow> lcd_globals option" where
  "lcd_update_icons icons state watchdog_error ntp_error wifi_error g = do {
     g \<leftarrow> draw_icon icons state (watchdog_case watchdog_error) g;
     g \<leftarrow> draw_icon icons state (ntp_case ntp_error) g;
     draw_icon icons state (wifi_case wifi_error) g }"

definition lcd_init ::
  "(u16 \<Rightarrow> nat) \<Rightarrow> lcd_state_t \<Rightarrow> u16 \<Rightarrow> bool \<Rightarrow> lcd_globals \<Rightarrow> (lcd_state_t \<times> lcd_globals) option" where
  "lcd_init slice_of state lcd_num reset g = do {
     let state = state\<lparr>RST_N_gpio := LCD_GPIO_RST_N, DC_gpio := LCD_GPIO_DC, BL_gpio := LCD_GPIO_BL,
       CS_N_gpio := LCD_GPIO_CS_N_BASE + lcd_num, CLK_gpio := LCD_GPIO_CLK, MOSI_gpio := LCD_GPIO_MOSI,
       smoothed_adc := 0\<rparr>;
     let g = lcd_init_peripherals slice_of state reset g;
     let g = lcd_set_backlight state 90 g;
     let g = (if reset then lcd_reset state g else g);
     let g = st7789_init state g;
     g \<leftarrow> lcd_clear_screen state BG_COLOR g;
     Some (state, g) }"

section \<open>What the panels receive\<close>

text \<open>
  A panel takes the bytes that are on the bus while its chip select is low, each as a command or data
  byte according to the data/command line. \<open>rx\<close> follows the two lines and collects the bytes
  (\<open>True\<close> marks data).
\<close>

fun rx :: "u16 \<Rightarrow> bool \<times> bool \<times> (bool \<times> u8) list \<Rightarrow> bus_event \<Rightarrow> bool \<times> bool \<times> (bool \<times> u8) list" where
  "rx cs (dc, high, out) (GpioPut p v) =
     (if p = LCD_GPIO_DC then v else dc, if p = cs then v else high, out)"
| "rx cs (dc, high, out) (SpiWrite bs) = (dc, high, if high then out else out @ map (Pair dc) bs)"
| "rx cs s e = s"

definition rx_state :: "nat \<Rightarrow> lcd_globals \<Rightarrow> bool \<times> bool \<times> (bool \<times> u8) list" where
  "rx_state n g = foldl (rx (LCD_GPIO_CS_N_BASE + of_nat n)) (False, True, []) (bus g)"

definition deselected :: "nat \<Rightarrow> lcd_globals \<Rightarrow> bool" where "deselected n g = fst (snd (rx_state n g))"

definition received :: "nat \<Rightarrow> lcd_globals \<Rightarrow> (bool \<times> u8) list" where "received n g = snd (snd (rx_state n g))"

text \<open>The pins that \<open>lcd_init\<close> gives the panel number \<open>m\<close>.\<close>

definition panel_pins :: "nat \<Rightarrow> lcd_state_t \<Rightarrow> bool" where
  "panel_pins m state \<longleftrightarrow> m < NUM_LCDS \<and> RST_N_gpio state = LCD_GPIO_RST_N \<and> DC_gpio state = LCD_GPIO_DC
     \<and> BL_gpio state = LCD_GPIO_BL \<and> CS_N_gpio state = LCD_GPIO_CS_N_BASE + of_nat m"

text \<open>
  An operation that leaves every panel deselected, delivers \<open>bytes\<close> to panel \<open>m\<close> and nothing
  to the others.
\<close>

definition delivers :: "nat \<Rightarrow> (bool \<times> u8) list \<Rightarrow> lcd_globals \<Rightarrow> lcd_globals \<Rightarrow> bool" where
  "delivers m bytes g g' \<longleftrightarrow> (\<forall>n < NUM_LCDS. deselected n g \<longrightarrow> deselected n g'
     \<and> received n g' = received n g @ (if n = m then bytes else []))"

lemma rx_state_bus_out: "rx_state n (bus_out es g) = foldl (rx (LCD_GPIO_CS_N_BASE + of_nat n)) (rx_state n g) es"
  by (simp add: rx_state_def bus_out_def)

lemma rx_state_fields [simp]:
  "rx_state n (g\<lparr>linebuf := b\<rparr>) = rx_state n g" "rx_state n (g\<lparr>line_number := l\<rparr>) = rx_state n g"
  "rx_state n (g\<lparr>slice_num := s\<rparr>) = rx_state n g"
  by (simp_all add: rx_state_def)

lemma bus_out_fields [simp]:
  "linebuf (bus_out es g) = linebuf g" "line_number (bus_out es g) = line_number g"
  "slice_num (bus_out es g) = slice_num g" "bus (bus_out es g) = bus g @ es"
  by (simp_all add: bus_out_def)

lemma bus_out_append: "bus_out es' (bus_out es g) = bus_out (es @ es') g"
  by (simp add: bus_out_def)

lemma delivers_trans: "delivers m b1 g g1 \<Longrightarrow> delivers m b2 g1 g2 \<Longrightarrow> delivers m (b1 @ b2) g g2"
  by (simp add: delivers_def)

lemma delivers_same: "(\<And>n. rx_state n g' = rx_state n g) \<Longrightarrow> delivers m [] g g'"
  by (simp add: delivers_def deselected_def received_def)

text \<open>A run of chunks between selecting and releasing one panel.\<close>

lemma foldl_rx_writes:
  "foldl (rx cs) (dc, high, out) (map SpiWrite chunks)
    = (dc, high, if high then out else out @ map (Pair dc) (concat chunks))"
  by (induction chunks arbitrary: out) auto

lemma panel_pin_distinct:
  assumes "n < NUM_LCDS" "m < NUM_LCDS"
  shows "LCD_GPIO_CS_N_BASE + of_nat n \<noteq> LCD_GPIO_DC"
    and "LCD_GPIO_CS_N_BASE + of_nat m = LCD_GPIO_CS_N_BASE + (of_nat n :: u16) \<longleftrightarrow> m = n"
proof -
  have u: "unat (of_nat k :: u16) = k" if "k < 7" for k using that by (simp add: unat_of_nat)
  have "(of_nat m :: u16) = of_nat n \<longleftrightarrow> m = n"
    using assms u by (metis NUM_LCDS_def)
  then show "LCD_GPIO_CS_N_BASE + of_nat m = LCD_GPIO_CS_N_BASE + (of_nat n :: u16) \<longleftrightarrow> m = n" by simp
  have "n \<in> {0, 1, 2, 3, 4, 5, 6}" using assms(1) by (auto simp: NUM_LCDS_def)
  then show "LCD_GPIO_CS_N_BASE + of_nat n \<noteq> LCD_GPIO_DC" by (auto simp: lcd_consts)
qed

lemma delivers_burst:
  assumes "panel_pins m state"
  shows "delivers m (map (Pair dc) (concat chunks)) g
    (bus_out ([GpioPut (DC_gpio state) dc, GpioPut (CS_N_gpio state) False] @ map SpiWrite chunks
      @ [GpioPut (CS_N_gpio state) True]) g)"
  unfolding delivers_def
proof (intro allI impI)
  fix n
  assume n: "n < NUM_LCDS" and d: "deselected n g"
  have p: "m < NUM_LCDS" "DC_gpio state = LCD_GPIO_DC" "CS_N_gpio state = LCD_GPIO_CS_N_BASE + of_nat m"
    using assms by (simp_all add: panel_pins_def)
  obtain dc0 out where s: "rx_state n g = (dc0, True, out)"
    using d by (cases "rx_state n g") (simp add: deselected_def)
  note pins = panel_pin_distinct [OF n p(1)]
  show "deselected n (bus_out ([GpioPut (DC_gpio state) dc, GpioPut (CS_N_gpio state) False]
        @ map SpiWrite chunks @ [GpioPut (CS_N_gpio state) True]) g)
      \<and> received n (bus_out ([GpioPut (DC_gpio state) dc, GpioPut (CS_N_gpio state) False]
        @ map SpiWrite chunks @ [GpioPut (CS_N_gpio state) True]) g)
      = received n g @ (if n = m then map (Pair dc) (concat chunks) else [])"
    using pins p(2,3)
    by (auto simp: deselected_def received_def rx_state_bus_out s foldl_rx_writes)
qed

lemma st7789_command_delivers:
  "panel_pins m state \<Longrightarrow> delivers m [(False, reg)] g (st7789_command state reg g)"
  using delivers_burst [of m state False "[[reg]]" g] by (simp add: st7789_command_def)

lemma st7789_data_byte_delivers:
  "panel_pins m state \<Longrightarrow> delivers m [(True, dat)] g (st7789_data_byte state dat g)"
  using delivers_burst [of m state True "[[dat]]" g] by (simp add: st7789_data_byte_def)

lemma st7789_send_delivers:
  assumes "panel_pins m state"
  shows "delivers m ((False, reg) # map (Pair True) params) g (st7789_send state reg params g)"
proof -
  have "delivers m (map (Pair True) params) g1 (fold (st7789_data_byte state) params g1)" for g1
  proof (induction params arbitrary: g1)
    case Nil
    then show ?case by (simp add: delivers_def)
  next
    case (Cons a params)
    show ?case
      using delivers_trans [OF st7789_data_byte_delivers [OF assms] Cons.IH] by simp
  qed
  from delivers_trans [OF st7789_command_delivers [OF assms] this] show ?thesis
    by (simp add: st7789_send_def)
qed

text \<open>The window commands with their parameters.\<close>

definition window_bytes :: "u16 \<Rightarrow> u16 \<Rightarrow> u16 \<Rightarrow> u16 \<Rightarrow> (bool \<times> u8) list" where
  "window_bytes x y w h =
     (False, 0x2A) # map (Pair True) (coord_bytes (uint x + 34) @ coord_bytes (uint x + uint w + 33))
     @ (False, 0x2B) # map (Pair True) (coord_bytes (uint y) @ coord_bytes (uint y + uint h - 1))
     @ [(False, 0x2C)]"

lemma st7789_set_command_windows_delivers:
  assumes "panel_pins m state"
  shows "delivers m (window_bytes x y w h) g (st7789_set_command_windows state x y w h g)"
proof -
  have e: "uint x + uint w + 34 - 1 = uint x + uint w + 33" by simp
  show ?thesis
    using delivers_trans [OF delivers_trans
        [OF st7789_send_delivers [OF assms, where reg = "0x2A" and g = g
              and params = "coord_bytes (uint x + 34) @ coord_bytes (uint x + uint w + 33)"]
          st7789_send_delivers [OF assms, where reg = "0x2B"
              and params = "coord_bytes (uint y) @ coord_bytes (uint y + uint h - 1)"]]
        st7789_send_delivers [OF assms, where reg = "0x2C" and params = "[]"]]
    by (simp add: st7789_set_command_windows_def window_bytes_def Let_def LCD_ROW_START_def LCD_COL_START_def e)
qed

lemma st7789_keeps [simp]:
  "linebuf (st7789_command state reg g) = linebuf g" "linebuf (st7789_data_byte state dat g) = linebuf g"
  "linebuf (st7789_send state reg params g) = linebuf g"
  "linebuf (st7789_set_command_windows state x y w h g) = linebuf g"
proof -
  show c: "linebuf (st7789_command state reg g) = linebuf g" for reg g by (simp add: st7789_command_def)
  show d: "linebuf (st7789_data_byte state dat g) = linebuf g" for dat g by (simp add: st7789_data_byte_def)
  have "linebuf (fold (st7789_data_byte state) ps g) = linebuf g" for ps g
    by (induction ps arbitrary: g) (simp_all add: d)
  then show s: "linebuf (st7789_send state reg params g) = linebuf g" for reg params g
    by (simp add: st7789_send_def c)
  show "linebuf (st7789_set_command_windows state x y w h g) = linebuf g"
    by (simp add: st7789_set_command_windows_def s)
qed

section \<open>Pictures\<close>

text \<open>One row of pixels as bytes, and the bytes of a picture given by its pixels' colours.\<close>

definition row_bytes :: "nat \<Rightarrow> (nat \<Rightarrow> u16) \<Rightarrow> u8 list" where
  "row_bytes w pixel = concat (map (\<lambda>x. [fst (color_bytes (pixel x)), snd (color_bytes (pixel x))]) [0..<w])"

definition picture_bytes :: "nat \<Rightarrow> nat \<Rightarrow> (nat \<Rightarrow> nat \<Rightarrow> u16) \<Rightarrow> u8 list" where
  "picture_bytes w h pixel = concat (map (\<lambda>y. row_bytes w (pixel y)) [0..<h])"

lemma length_row_bytes [simp]: "length (row_bytes w pixel) = 2 * w"
  by (induction w) (simp_all add: row_bytes_def)

lemma length_picture_bytes: "length (picture_bytes w h pixel) = 2 * w * h"
  by (induction h) (simp_all add: picture_bytes_def algebra_simps)

lemma fold_opt_Nil [simp]: "fold_opt f [] = Some"
  by (rule ext) simp

lemma fold_opt_append: "fold_opt f (xs @ ys) s = Option.bind (fold_opt f xs s) (fold_opt f ys)"
proof (induction xs arbitrary: s)
  case (Cons x xs)
  then show ?case by (cases "f x s") simp_all
qed simp

lemma fold_opt_cong:
  "(\<And>x s. x \<in> set xs \<Longrightarrow> f x s = g x s) \<Longrightarrow> fold_opt f xs s = fold_opt g xs s"
proof (induction xs arbitrary: s)
  case (Cons x xs)
  then show ?case by (cases "g x s") simp_all
qed simp

text \<open>Filling the line buffer pixel by pixel.\<close>

lemma put_pixels:
  assumes "2 * w \<le> length buf"
  shows "fold_opt (\<lambda>x. put_pixel x (color_bytes (pixel x))) [0..<w] buf = Some (row_bytes w pixel @ drop (2 * w) buf)"
  using assms
proof (induction w)
  case 0
  then show ?case by (simp add: row_bytes_def)
next
  case (Suc w)
  let ?c = "color_bytes (pixel w)"
  let ?b = "row_bytes w pixel @ drop (2 * w) buf"
  obtain p q r where d: "drop (2 * w) buf = p # q # r" "drop (2 * Suc w) buf = r"
    using Suc.prems by (metis Cons_nth_drop_Suc Suc_le_lessD add_2_eq_Suc' mult_Suc_right less_SucI
        not_less_eq_eq le_simps(2) add.commute Suc_le_eq)
  have "length buf = 2 * w + 2 + length r" using arg_cong [OF d(1), of length] Suc.prems by simp
  then have "put_pixel w ?c ?b = Some (row_bytes w pixel @ fst ?c # snd ?c # r)"
    using d by (simp add: put_pixel_def buf_put_def mult.commute)
  then show ?case
    using Suc d by (simp add: fold_opt_append row_bytes_def)
qed

lemma fold_opt_rows:
  assumes "\<And>r buf. r \<in> set rs \<Longrightarrow> P buf \<Longrightarrow>
      \<exists>buf'. row r buf = Some buf' \<and> P buf' \<and> n \<le> length buf' \<and> take n buf' = bytes r"
    and "P (linebuf g)"
  shows "\<exists>b. fold_opt (\<lambda>r g. Option.bind (row r (linebuf g)) (\<lambda>buf. write_line n buf g)) rs g
    = Some (bus_out (map SpiWrite (map bytes rs)) (g\<lparr>linebuf := b\<rparr>)) \<and> P b"
  using assms
proof (induction rs arbitrary: g)
  case Nil
  have "g = bus_out [] (g\<lparr>linebuf := linebuf g\<rparr>)" by (simp add: bus_out_def)
  then show ?case using Nil by (intro exI [of _ "linebuf g"]) simp
next
  case (Cons r rs)
  obtain buf where b: "row r (linebuf g) = Some buf" "P buf" "n \<le> length buf" "take n buf = bytes r"
    using Cons.prems(1) [OF list.set_intros(1) Cons.prems(2)] by blast
  let ?g = "bus_out [SpiWrite (bytes r)] (g\<lparr>linebuf := buf\<rparr>)"
  have w: "write_line n buf g = Some ?g" using b by (simp add: write_line_def)
  obtain b' where "fold_opt (\<lambda>r g. Option.bind (row r (linebuf g)) (\<lambda>buf. write_line n buf g)) rs ?g
      = Some (bus_out (map SpiWrite (map bytes rs)) (?g\<lparr>linebuf := b'\<rparr>))" "P b'"
    using Cons.IH [of ?g] Cons.prems b(2) by auto
  moreover have "bus_out es (?g\<lparr>linebuf := b'\<rparr>) = bus_out (SpiWrite (bytes r) # es) (g\<lparr>linebuf := b'\<rparr>)" for es
    by (simp add: bus_out_def)
  ultimately show ?case using b(1) w by (intro exI [of _ b']) simp
qed

text \<open>Opening the panel, writing rows, releasing it.\<close>

lemma burst_delivers:
  assumes "panel_pins m state"
  shows "delivers m (map (Pair True) (concat chunks)) g
    (close_data state (bus_out (map SpiWrite chunks) ((open_data state g)\<lparr>linebuf := b\<rparr>)))"
proof -
  let ?es = "[GpioPut (DC_gpio state) True, GpioPut (CS_N_gpio state) False] @ map SpiWrite chunks
      @ [GpioPut (CS_N_gpio state) True]"
  have "close_data state (bus_out (map SpiWrite chunks) ((open_data state g)\<lparr>linebuf := b\<rparr>))
      = bus_out ?es (g\<lparr>linebuf := b\<rparr>)"
    by (simp add: close_data_def open_data_def bus_out_def)
  then show ?thesis
    using delivers_trans [OF delivers_same [of "g\<lparr>linebuf := b\<rparr>" g m]
        delivers_burst [OF assms, of True chunks "g\<lparr>linebuf := b\<rparr>"]] by simp
qed

definition LINEBUF_LEN :: nat where "LINEBUF_LEN = LCD_WIDTH * 2"

lemma window_open_fields [simp]: "linebuf (open_data state g) = linebuf g"
  by (simp add: open_data_def)

text \<open>Every drawing operation is this: the window, then the picture, row by row.\<close>

lemma draw_delivers:
  assumes "panel_pins m state" "P b0"
    and "\<And>r buf. r < hh \<Longrightarrow> P buf \<Longrightarrow> \<exists>buf'. row r buf = Some buf' \<and> P buf' \<and> 2 * w \<le> length buf'
      \<and> take (2 * w) buf' = row_bytes w (pixel r)"
  shows "\<exists>g'. map_option (close_data state) (fold_opt (\<lambda>r g. Option.bind (row r (linebuf g))
        (\<lambda>buf. write_line (w * 2) buf g)) [0..<hh]
      ((open_data state (st7789_set_command_windows state x y ww h g))\<lparr>linebuf := b0\<rparr>)) = Some g'
    \<and> delivers m (window_bytes x y ww h @ map (Pair True) (picture_bytes w hh pixel)) g g' \<and> P (linebuf g')"
proof -
  let ?g = "st7789_set_command_windows state x y ww h g"
  have "\<exists>b. fold_opt (\<lambda>r g. Option.bind (row r (linebuf g)) (\<lambda>buf. write_line (w * 2) buf g)) [0..<hh]
      ((open_data state ?g)\<lparr>linebuf := b0\<rparr>)
      = Some (bus_out (map SpiWrite (map (\<lambda>r. row_bytes w (pixel r)) [0..<hh]))
        (((open_data state ?g)\<lparr>linebuf := b0\<rparr>)\<lparr>linebuf := b\<rparr>)) \<and> P b"
    by (rule fold_opt_rows) (use assms(2,3) in \<open>auto simp: mult.commute\<close>)
  then obtain b where b: "fold_opt (\<lambda>r g. Option.bind (row r (linebuf g)) (\<lambda>buf. write_line (w * 2) buf g)) [0..<hh]
      ((open_data state ?g)\<lparr>linebuf := b0\<rparr>)
      = Some (bus_out (map SpiWrite (map (\<lambda>r. row_bytes w (pixel r)) [0..<hh]))
        ((open_data state ?g)\<lparr>linebuf := b\<rparr>))" "P b"
    by auto
  have "picture_bytes w hh pixel = concat (map (\<lambda>r. row_bytes w (pixel r)) [0..<hh])"
    by (simp add: picture_bytes_def)
  then have "delivers m (window_bytes x y ww h @ map (Pair True) (picture_bytes w hh pixel)) g
      (close_data state (bus_out (map SpiWrite (map (\<lambda>r. row_bytes w (pixel r)) [0..<hh]))
        ((open_data state ?g)\<lparr>linebuf := b\<rparr>)))"
    using delivers_trans [OF st7789_set_command_windows_delivers [OF assms(1)] burst_delivers [OF assms(1)]]
    by metis
  then show ?thesis using b by (simp add: close_data_def)
qed

lemma open_window_same [simp]:
  "(open_data state (st7789_set_command_windows state x y w h g))\<lparr>linebuf := linebuf g\<rparr>
    = open_data state (st7789_set_command_windows state x y w h g)"
proof -
  have "(open_data state g1)\<lparr>linebuf := linebuf g1\<rparr> = open_data state g1" for g1
    by (simp add: open_data_def bus_out_def)
  from this [of "st7789_set_command_windows state x y w h g"] show ?thesis by simp
qed

lemma lcd_draw_rectangle_delivers:
  assumes "panel_pins m state" "length (linebuf g) = LINEBUF_LEN" "unat w \<le> LCD_WIDTH"
  shows "\<exists>g'. lcd_draw_rectangle state x y w h c g = Some g'
    \<and> delivers m (window_bytes x y w h
        @ map (Pair True) (picture_bytes (unat w) (unat h) (\<lambda>_ _. color_table ! (unat c mod 4)))) g g'
    \<and> length (linebuf g') = LINEBUF_LEN"
proof -
  let ?c = "color_table ! (unat c mod 4)"
  define b where "b = row_bytes (unat w) (\<lambda>_. ?c) @ drop (2 * unat w) (linebuf g)"
  have le: "2 * unat w \<le> length (linebuf g)" using assms(2,3) by (simp add: LINEBUF_LEN_def)
  have f: "fold_opt (\<lambda>x. put_pixel x (color_bytes ?c)) [0..<unat w] (linebuf g) = Some b"
    unfolding b_def by (rule put_pixels [OF le, of "\<lambda>_. ?c"])
  have b: "length b = LINEBUF_LEN" "2 * unat w \<le> length b" "take (2 * unat w) b = row_bytes (unat w) (\<lambda>_. ?c)"
    using le assms(2) by (simp_all add: b_def)
  have "\<exists>g'. map_option (close_data state) (fold_opt (\<lambda>r g. Option.bind (Some (linebuf g))
        (\<lambda>buf. write_line (unat w * 2) buf g)) [0..<unat h]
      ((open_data state (st7789_set_command_windows state x y w h g))\<lparr>linebuf := b\<rparr>)) = Some g'
    \<and> delivers m (window_bytes x y w h @ map (Pair True) (picture_bytes (unat w) (unat h) (\<lambda>_ _. ?c))) g g'
    \<and> linebuf g' = b"
    by (rule draw_delivers [OF assms(1), where P = "\<lambda>buf. buf = b" and row = "\<lambda>_. Some"]) (use b in simp_all)
  then show ?thesis
    using f b(1) by (auto simp: lcd_draw_rectangle_def Let_def)
qed

text \<open>A generated font: a glyph per printable character, its rows padded to whole bytes.\<close>

definition wf_glyph :: "font_t \<Rightarrow> font_glyph_t \<Rightarrow> bool" where
  "wf_glyph font gl \<longleftrightarrow> unat (glyph_width gl) \<le> LCD_WIDTH \<and> (unat (glyph_width gl) = 0
     \<or> unat (glyph_width gl) \<le> 8 * unat (byte_width font)
       \<and> length (glyph_table gl) = unat (font_height font) * unat (byte_width font))"

definition wf_font :: "font_t \<Rightarrow> bool" where
  "wf_font font \<longleftrightarrow> length (font_table font) = 95 \<and> (\<forall>gl \<in> set (font_table font). wf_glyph font gl)"

text \<open>The picture of a glyph: bit 7 of a byte is its leftmost pixel.\<close>

definition glyph_pixel :: "font_t \<Rightarrow> font_glyph_t \<Rightarrow> color_t \<Rightarrow> color_t \<Rightarrow> nat \<Rightarrow> nat \<Rightarrow> u16" where
  "glyph_pixel font gl fg bg y x = color_table ! unat (color_value
     (if bit (glyph_table gl ! (y * unat (byte_width font) + x div 8)) (7 - x mod 8) then fg else bg))"

definition image_pixel :: "u8 list \<Rightarrow> nat \<Rightarrow> color_t \<Rightarrow> nat \<Rightarrow> nat \<Rightarrow> u16" where
  "image_pixel pixels w fg y x = color_table ! unat (color_value
     (if bit (pixels ! (y * ((w + 7) div 8) + x div 8)) (7 - x mod 8) then fg else BLACK))"

lemma and_mask_bit: "b AND 2 ^ k = 0 \<longleftrightarrow> \<not> bit b k" for b :: u8
  by (simp add: bit_iff_and_push_bit_not_eq_0 push_bit_of_1)

lemma drop_80: "k < 8 \<Longrightarrow> drop_bit k (0x80 :: u8) = 2 ^ (7 - k)"
proof -
  assume "k < 8"
  then have "k \<in> {0, 1, 2, 3, 4, 5, 6, 7}" by auto
  then show ?thesis by auto
qed

lemma color_value_mod: "unat (color_value c) mod 4 = unat (color_value c)"
  by (cases c) simp_all

lemma printable_index: "printable c \<Longrightarrow> of_char c - of_char CHR '' '' < (95 :: nat)"
  by (auto simp: printable_def)

lemma glyph_row_loop_row:
  assumes "wf_glyph font gl" "y < unat (font_height font)" "length buf = LINEBUF_LEN"
  shows "glyph_row_loop gl (y * unat (byte_width font)) (color_bytes (color_table ! unat (color_value fg)))
      (color_bytes (color_table ! unat (color_value bg))) buf
    = Some (row_bytes (unat (glyph_width gl)) (glyph_pixel font gl fg bg y) @ drop (2 * unat (glyph_width gl)) buf)"
proof -
  let ?w = "unat (glyph_width gl)" and ?bw = "unat (byte_width font)"
  have step: "(Option.bind (buf_get (glyph_table gl) (y * ?bw + x div 8)) (\<lambda>glyph_pixels.
        if glyph_pixels AND drop_bit (x mod 8) 0x80 \<noteq> 0
        then put_pixel x (color_bytes (color_table ! unat (color_value fg))) b
        else put_pixel x (color_bytes (color_table ! unat (color_value bg))) b))
      = put_pixel x (color_bytes (glyph_pixel font gl fg bg y x)) b" if "x \<in> set [0..<?w]" for x b
  proof -
    have x: "x < ?w" using that by simp
    then have bw: "?w \<le> 8 * ?bw" "length (glyph_table gl) = unat (font_height font) * ?bw"
      using assms(1) by (auto simp: wf_glyph_def)
    have "x div 8 < ?bw" using x bw(1) by (simp add: less_mult_imp_div_less mult.commute)
    moreover have "Suc y * ?bw \<le> unat (font_height font) * ?bw"
      by (rule mult_le_mono1) (use assms(2) in simp)
    ultimately have "y * ?bw + x div 8 < length (glyph_table gl)" using bw(2) by simp
    then show ?thesis by (simp add: glyph_pixel_def drop_80 and_mask_bit)
  qed
  have "2 * ?w \<le> length buf" using assms(1,3) by (simp add: wf_glyph_def LINEBUF_LEN_def)
  from put_pixels [OF this, of "glyph_pixel font gl fg bg y"]
  show ?thesis
    unfolding glyph_row_loop_def using fold_opt_cong [of "[0..<?w]", OF step] by simp
qed

lemma fold_opt_map: "fold_opt f (map h xs) s = fold_opt (\<lambda>x. f (h x)) xs s"
proof (induction xs arbitrary: s)
  case (Cons x xs)
  then show ?case by (cases "f (h x) s") simp_all
qed simp

lemma fold_opt_nested:
  "fold_opt (\<lambda>i. fold_opt (\<lambda>k. F (8 * i + k)) [0..<8]) [0..<n] s = fold_opt F [0..<8 * n] s"
proof (induction n)
  case (Suc n)
  have "[0..<8 * Suc n] = [0..<8 * n] @ map (\<lambda>k. 8 * n + k) [0..<8]"
    using map_add_upt [of "8 * n" 8] upt_add_eq_append [of 0 "8 * n" 8] by (simp add: add.commute)
  then show ?case
    using Suc by (cases "fold_opt F [0..<8 * n] s") (simp_all add: fold_opt_append fold_opt_map)
qed simp

lemma fold_opt_id: "(\<And>x. x \<in> set xs \<Longrightarrow> f x = Some) \<Longrightarrow> fold_opt f xs s = Some s"
  by (induction xs) simp_all

lemma guarded_pixels:
  assumes "2 * w \<le> length buf" "w \<le> n"
  shows "fold_opt (\<lambda>x b. if x < w then put_pixel x (color_bytes (pixel x)) b else Some b) [0..<n] buf
    = Some (row_bytes w pixel @ drop (2 * w) buf)"
proof -
  let ?f = "\<lambda>x b. if x < w then put_pixel x (color_bytes (pixel x)) b else Some b"
  have "[0..<n] = [0..<w] @ [w..<n]" using assms(2) by (metis le_Suc_ex upt_add_eq_append zero_le)
  moreover have "fold_opt ?f [0..<w] buf = Some (row_bytes w pixel @ drop (2 * w) buf)"
    using put_pixels [OF assms(1), of pixel]
      fold_opt_cong [of "[0..<w]" ?f "\<lambda>x. put_pixel x (color_bytes (pixel x))" buf] by simp
  ultimately show ?thesis
    using fold_opt_id [of "[w..<n]" ?f "row_bytes w pixel @ drop (2 * w) buf"] by (simp add: fold_opt_append)
qed

lemma image_row_loop_row:
  assumes "length pixels = h * ((w + 7) div 8)" "y < h" "length buf = LINEBUF_LEN" "w \<le> LCD_WIDTH"
  shows "image_row_loop pixels (y * ((w + 7) div 8)) ((w + 7) div 8) x_start w fg buf
    = Some (row_bytes w (image_pixel pixels w fg y) @ drop (2 * w) buf)"
proof -
  let ?n = "(w + 7) div 8"
  let ?F = "\<lambda>x b. if x < w then put_pixel x (color_bytes (image_pixel pixels w fg y x)) b else Some b"
  have inner: "Option.bind (buf_get pixels (y * ?n + i)) (\<lambda>b. fold_opt (\<lambda>k buf.
        (let x = unat x_start + i * 8 + k;
             c = color_table ! unat (if b AND push_bit (7 - k) 1 \<noteq> 0 then color_value fg else 0)
         in if x < unat x_start + w then put_pixel (x - unat x_start) (color_bytes c) buf else Some buf)) [0..<8] bf)
      = fold_opt (\<lambda>k. ?F (8 * i + k)) [0..<8] bf" if "i \<in> set [0..<?n]" for i bf
  proof -
    have "Suc y * ?n \<le> h * ?n" by (rule mult_le_mono1) (use assms(2) in simp)
    then have "y * ?n + i < length pixels" using that assms(1) by simp
    then have g: "buf_get pixels (y * ?n + i) = Some (pixels ! (y * ?n + i))" by simp
    have "(let x = unat x_start + i * 8 + k;
             c = color_table ! unat (if pixels ! (y * ?n + i) AND push_bit (7 - k) 1 \<noteq> 0 then color_value fg else 0)
         in if x < unat x_start + w then put_pixel (x - unat x_start) (color_bytes c) b else Some b)
        = ?F (8 * i + k) b" if "k \<in> set [0..<8]" for k b
    proof -
      have k: "k < 8" "(8 * i + k) div 8 = i" "(8 * i + k) mod 8 = k" using that by auto
      have "(if bit v (7 - k) then color_value fg else 0) = color_value (if bit v (7 - k) then fg else BLACK)" for v :: u8
        by simp
      then show ?thesis
        using k by (simp add: Let_def image_pixel_def and_mask_bit mult.commute)
    qed
    then show ?thesis unfolding g Option.bind.simps(2) by (rule fold_opt_cong)
  qed
  have "2 * w \<le> length buf" "w \<le> 8 * ?n" using assms(3,4) by (simp_all add: LINEBUF_LEN_def)
  note g = guarded_pixels [OF this, of "image_pixel pixels w fg y"]
  have "image_row_loop pixels (y * ?n) ?n x_start w fg buf
      = fold_opt (\<lambda>i. fold_opt (\<lambda>k. ?F (8 * i + k)) [0..<8]) [0..<?n] buf"
    unfolding image_row_loop_def by (rule fold_opt_cong) (rule inner)
  then show ?thesis using g fold_opt_nested [of ?F ?n buf] by simp
qed

text \<open>A character is its glyph's picture, an icon its image's.\<close>

lemma lcd_write_char_delivers:
  assumes "panel_pins m state" "length (linebuf g) = LINEBUF_LEN" "wf_font font"
  shows "\<exists>g'. lcd_write_char state x y c font fg bg g
      = Some (g', if printable c then uint (glyph_width (font_table font ! (of_char c - 32))) else 0)
    \<and> delivers m (if printable c then
        (let gl = font_table font ! (of_char c - 32); w = unat (glyph_width gl); h = unat (font_height font)
         in window_bytes x y (of_nat w) (font_height font)
            @ map (Pair True) (picture_bytes w h (glyph_pixel font gl fg bg))) else []) g g'
    \<and> length (linebuf g') = LINEBUF_LEN"
proof (cases "printable c")
  case False
  then show ?thesis using assms(2) by (simp add: lcd_write_char_def delivers_def)
next
  case True
  define gl where "gl = font_table font ! (of_char c - 32)"
  let ?w = "unat (glyph_width gl)" and ?h = "unat (font_height font)"
  have i: "of_char c - 32 < length (font_table font)"
    using printable_index [OF True] assms(3) by (simp add: wf_font_def)
  then have gl: "glyph_of font c = Some gl" "wf_glyph font gl"
    using assms(3) by (simp_all add: glyph_of_def gl_def wf_font_def)
  have w: "2 * ?w \<le> LINEBUF_LEN" using gl(2) by (simp add: wf_glyph_def LINEBUF_LEN_def)
  let ?row = "\<lambda>y. glyph_row_loop gl (y * unat (byte_width font)) (color_bytes (color_table ! unat (color_value fg)))
    (color_bytes (color_table ! unat (color_value bg)))"
  have "\<exists>g'. map_option (close_data state) (fold_opt (\<lambda>r g. Option.bind (?row r (linebuf g))
        (\<lambda>buf. write_line (?w * 2) buf g)) [0..<?h]
      ((open_data state (st7789_set_command_windows state x y (of_nat ?w) (font_height font) g))\<lparr>linebuf := linebuf g\<rparr>)) = Some g'
    \<and> delivers m (window_bytes x y (of_nat ?w) (font_height font)
        @ map (Pair True) (picture_bytes ?w ?h (glyph_pixel font gl fg bg))) g g' \<and> length (linebuf g') = LINEBUF_LEN"
    by (rule draw_delivers [OF assms(1), where P = "\<lambda>b. length b = LINEBUF_LEN"])
      (use assms(2) w glyph_row_loop_row [OF gl(2)] in \<open>auto simp: min_def\<close>)
  then obtain g' where g': "map_option (close_data state) (fold_opt (\<lambda>r g. Option.bind (?row r (linebuf g))
        (\<lambda>buf. write_line (?w * 2) buf g)) [0..<?h]
      (open_data state (st7789_set_command_windows state x y (of_nat ?w) (font_height font) g))) = Some g'"
    "delivers m (window_bytes x y (of_nat ?w) (font_height font)
        @ map (Pair True) (picture_bytes ?w ?h (glyph_pixel font gl fg bg))) g g'" "length (linebuf g') = LINEBUF_LEN"
    by auto
  have "lcd_write_char state x y c font fg bg g = Some (g', uint (glyph_width gl))"
    using g'(1) True gl(1) by (auto simp: lcd_write_char_def Let_def color_value_mod)
  then show ?thesis using g'(2,3) True by (simp add: gl_def [symmetric] Let_def)
qed

lemma lcd_write_image_delivers:
  assumes "panel_pins m state" "length (linebuf g) = LINEBUF_LEN" "unat w \<le> LCD_WIDTH"
    and "length pixels = unat h * ((unat w + 7) div 8)"
  shows "\<exists>g'. lcd_write_image state pixels x y w h fg g = Some g'
    \<and> delivers m (window_bytes x y w h
        @ map (Pair True) (picture_bytes (unat w) (unat h) (image_pixel pixels (unat w) fg))) g g'
    \<and> length (linebuf g') = LINEBUF_LEN"
proof -
  let ?n = "(unat w + 7) div 8"
  let ?row = "\<lambda>yy. image_row_loop pixels (yy * ?n) ?n x (unat w) fg"
  have w: "2 * unat w \<le> LINEBUF_LEN" using assms(3) by (simp add: LINEBUF_LEN_def)
  have "\<exists>g'. map_option (close_data state) (fold_opt (\<lambda>r g. Option.bind (?row r (linebuf g))
        (\<lambda>buf. write_line (unat w * 2) buf g)) [0..<unat h]
      ((open_data state (st7789_set_command_windows state x y w h g))\<lparr>linebuf := linebuf g\<rparr>)) = Some g'
    \<and> delivers m (window_bytes x y w h @ map (Pair True) (picture_bytes (unat w) (unat h)
        (image_pixel pixels (unat w) fg))) g g' \<and> length (linebuf g') = LINEBUF_LEN"
    by (rule draw_delivers [OF assms(1), where P = "\<lambda>b. length b = LINEBUF_LEN"])
      (use assms(2) w image_row_loop_row [OF assms(4) _ _ assms(3)] in \<open>auto simp: min_def\<close>)
  then show ?thesis
    by (auto simp: lcd_write_image_def Let_def)
qed

section \<open>The driver's operations\<close>

record lcd_assets =
  text_font :: font_t
  clock_digit_font :: font_t
  icon_bits :: "icon \<Rightarrow> u8 list"
  pwm_gpio_to_slice_num :: "u16 \<Rightarrow> nat"

text \<open>What the generators produce: well-formed fonts, and icons of \<open>ICON_BYTES\<close> = 36 rows of 5 bytes.\<close>

definition wf_assets :: "lcd_assets \<Rightarrow> bool" where
  "wf_assets a \<longleftrightarrow> wf_font (text_font a) \<and> wf_font (clock_digit_font a) \<and> (\<forall>i. length (icon_bits a i) = 180)"

datatype lcd_op = LcdInit lcd_state_t u16 bool | LcdClear lcd_state_t color_t
  | LcdLine lcd_state_t color_t lcd_status_message_t | LcdDigit lcd_state_t color_t char
  | LcdIcons lcd_state_t watchdog_error_t ntp_error_t wifi_error_t | LcdBacklight lcd_state_t u8

fun lcd_step :: "lcd_assets \<Rightarrow> lcd_globals \<Rightarrow> lcd_op \<Rightarrow> lcd_globals option" where
  "lcd_step a g (LcdInit st num rst) = map_option snd (lcd_init (pwm_gpio_to_slice_num a) st num rst g)"
| "lcd_step a g (LcdClear st color) = lcd_clear_screen st color g"
| "lcd_step a g (LcdLine st color msg) = lcd_print_line (text_font a) st color msg g"
| "lcd_step a g (LcdDigit st color c) = lcd_print_clock_digit (clock_digit_font a) st color c g"
| "lcd_step a g (LcdIcons st we ne fe) = lcd_update_icons (icon_bits a) st we ne fe g"
| "lcd_step a g (LcdBacklight st level) = Some (lcd_set_backlight st level g)"

text \<open>The panel an operation is for, if its state is one that \<open>lcd_init\<close> has set up.\<close>

definition panel_of :: "lcd_state_t \<Rightarrow> nat" where "panel_of st = unat (CS_N_gpio st - LCD_GPIO_CS_N_BASE)"

fun op_panel :: "lcd_op \<Rightarrow> nat" where
  "op_panel (LcdInit st num rst) = unat num"
| "op_panel (LcdClear st color) = panel_of st"
| "op_panel (LcdLine st color msg) = panel_of st"
| "op_panel (LcdDigit st color c) = panel_of st"
| "op_panel (LcdIcons st we ne fe) = panel_of st"
| "op_panel (LcdBacklight st level) = panel_of st"

fun op_ok :: "lcd_op \<Rightarrow> bool" where
  "op_ok (LcdInit st num rst) = (unat num < NUM_LCDS)"
| "op_ok (LcdClear st color) = panel_pins (panel_of st) st"
| "op_ok (LcdLine st color msg) = panel_pins (panel_of st) st"
| "op_ok (LcdDigit st color c) = panel_pins (panel_of st) st"
| "op_ok (LcdIcons st we ne fe) = panel_pins (panel_of st) st"
| "op_ok (LcdBacklight st level) = panel_pins (panel_of st) st"

text \<open>An operation that succeeds, keeps the line buffer and delivers \<open>bytes\<close> to one panel.\<close>

definition draws :: "nat \<Rightarrow> (bool \<times> u8) list \<Rightarrow> lcd_globals \<Rightarrow> lcd_globals option \<Rightarrow> bool" where
  "draws m bytes g r \<longleftrightarrow> (\<exists>g'. r = Some g' \<and> delivers m bytes g g' \<and> length (linebuf g') = LINEBUF_LEN)"

lemma drawsI: "r = Some g' \<Longrightarrow> delivers m bytes g g' \<Longrightarrow> length (linebuf g') = LINEBUF_LEN \<Longrightarrow> draws m bytes g r"
  by (simp add: draws_def)

lemma draws_bind:
  assumes "draws m b1 g r" "\<And>g1. length (linebuf g1) = LINEBUF_LEN \<Longrightarrow> draws m b2 g1 (f g1)"
  shows "draws m (b1 @ b2) g (Option.bind r f)"
  using assms delivers_trans by (fastforce simp: draws_def)

lemma draws_skip: "length (linebuf g) = LINEBUF_LEN \<Longrightarrow> draws m [] g (Some g)"
  by (simp add: draws_def delivers_def)

definition rectangle_bytes :: "u16 \<Rightarrow> u16 \<Rightarrow> nat \<Rightarrow> nat \<Rightarrow> (nat \<Rightarrow> nat \<Rightarrow> u16) \<Rightarrow> (bool \<times> u8) list" where
  "rectangle_bytes x y w h pixel =
     window_bytes x y (of_nat w) (of_nat h) @ map (Pair True) (picture_bytes w h pixel)"

text \<open>Clearing paints all 172 by 320 pixels.\<close>

lemma lcd_clear_screen_draws:
  assumes "panel_pins m st" "length (linebuf g) = LINEBUF_LEN"
  shows "draws m (rectangle_bytes 0 0 172 320 (\<lambda>_ _. color_table ! unat (color_value c))) g (lcd_clear_screen st c g)"
proof -
  let ?g = "g\<lparr>line_number := 0\<rparr>"
  obtain g' where "lcd_draw_rectangle st 0 0 172 320 (color_value c) ?g = Some g'"
    "delivers m (window_bytes 0 0 172 320 @ map (Pair True) (picture_bytes 172 320
      (\<lambda>_ _. color_table ! (unat (color_value c) mod 4)))) ?g g'" "length (linebuf g') = LINEBUF_LEN"
    using lcd_draw_rectangle_delivers [OF assms(1), of ?g 172 0 0 320 "color_value c"] assms(2)
    by (auto simp: LCD_WIDTH_def)
  moreover have "delivers m [] g ?g" by (rule delivers_same) simp
  ultimately show ?thesis
    using delivers_trans [of m "[]" g ?g]
    by (auto simp: draws_def lcd_clear_screen_def LCD_WIDTH_def LCD_HEIGHT_def rectangle_bytes_def color_value_mod)
qed

definition icon_bytes :: "(icon \<Rightarrow> u8 list) \<Rightarrow> (icon \<times> u16 \<times> color_t) option \<Rightarrow> (bool \<times> u8) list" where
  "icon_bytes icons ic = (case ic of None \<Rightarrow> []
     | Some (i, x, c) \<Rightarrow> rectangle_bytes x 0 36 36 (image_pixel (icons i) 36 c))"

lemma draw_icon_draws:
  assumes "panel_pins m st" "length (linebuf g) = LINEBUF_LEN" "\<And>i. length (icons i) = 180"
  shows "draws m (icon_bytes icons ic) g (draw_icon icons st ic g)"
proof (cases ic)
  case None
  then show ?thesis using assms(2) by (simp add: icon_bytes_def draw_icon_def draws_skip)
next
  case (Some t)
  obtain i x c where t: "t = (i, x, c)" by (cases t)
  show ?thesis
    using lcd_write_image_delivers [OF assms(1,2), of 36 "icons i" 36 x 0 c] assms(3) [of i] Some t
    by (simp add: draws_def draw_icon_def icon_bytes_def rectangle_bytes_def ICON_SIZE_def LCD_WIDTH_def)
qed

lemma lcd_update_icons_draws:
  assumes "panel_pins m st" "length (linebuf g) = LINEBUF_LEN" "\<And>i. length (icons i) = 180"
  shows "draws m (icon_bytes icons (watchdog_case we) @ icon_bytes icons (ntp_case ne) @ icon_bytes icons (wifi_case fe))
    g (lcd_update_icons icons st we ne fe g)"
  unfolding lcd_update_icons_def
  by (intro draws_bind draw_icon_draws assms)

text \<open>A digit is centred: \<open>(172 - w) / 2\<close> columns from the left.\<close>

definition digit_bytes :: "font_t \<Rightarrow> color_t \<Rightarrow> char \<Rightarrow> (bool \<times> u8) list" where
  "digit_bytes font color c = (if \<not> printable c then [] else
     (let gl = font_table font ! (of_char c - 32); w = unat (glyph_width gl)
      in rectangle_bytes (of_nat ((172 - w) div 2)) 0 w (unat (font_height font)) (glyph_pixel font gl color BLACK)))"

lemma centre: "w \<le> 172 \<Longrightarrow> (172 - int w) sdiv 2 = int ((172 - w) div 2)"
proof -
  assume "w \<le> 172"
  then have i: "172 - int w = int (172 - w)" by linarith
  have "(172 - int w) sdiv 2 = int (172 - w) div 2" unfolding i by (rule sdiv_nonneg) linarith+
  then show ?thesis by linarith
qed

lemma lcd_print_clock_digit_draws:
  assumes "panel_pins m st" "length (linebuf g) = LINEBUF_LEN" "wf_font font"
  shows "draws m (digit_bytes font color c) g (lcd_print_clock_digit font st color c g)"
proof (cases "printable c")
  case False
  then show ?thesis using assms(2) by (simp add: digit_bytes_def lcd_print_clock_digit_def draws_skip)
next
  case True
  define gl where "gl = font_table font ! (of_char c - 32)"
  have i: "of_char c - 32 < length (font_table font)"
    using printable_index [OF True] assms(3) by (simp add: wf_font_def)
  then have gl: "glyph_of font c = Some gl" "wf_glyph font gl"
    using assms(3) by (simp_all add: glyph_of_def gl_def wf_font_def)
  let ?w = "unat (glyph_width gl)"
  have w: "?w \<le> 172" using gl(2) by (simp add: wf_glyph_def LCD_WIDTH_def)
  have "uint (glyph_width gl) = int ?w" by simp
  then have "(int LCD_WIDTH - uint (glyph_width gl)) sdiv 2 = int ((172 - ?w) div 2)"
    unfolding LCD_WIDTH_def by (simp only: of_nat_numeral centre [OF w])
  then have x: "word_of_int ((int LCD_WIDTH - uint (glyph_width gl)) sdiv 2) = (of_nat ((172 - ?w) div 2) :: u16)"
    by (simp only: of_int_of_nat_eq)
  define xp :: u16 where "xp = of_nat ((172 - ?w) div 2)"
  obtain g' where g': "lcd_write_char st xp 0 c font color BLACK g = Some (g', uint (glyph_width gl))"
    "delivers m (window_bytes xp 0 (of_nat ?w) (font_height font)
      @ map (Pair True) (picture_bytes ?w (unat (font_height font)) (glyph_pixel font gl color BLACK))) g g'"
    "length (linebuf g') = LINEBUF_LEN"
    using lcd_write_char_delivers [OF assms, of xp 0 c color BLACK]
    unfolding gl_def [symmetric] Let_def by (simp only: True if_True) blast
  have "lcd_print_clock_digit font st color c g = Some g'"
    unfolding lcd_print_clock_digit_def gl(1) Let_def Option.bind.simps(2) x xp_def [symmetric] g'(1)
    by (simp only: True if_False not_True_eq_False option.map fst_conv)
  moreover have "digit_bytes font color c = window_bytes xp 0 (of_nat ?w) (font_height font)
      @ map (Pair True) (picture_bytes ?w (unat (font_height font)) (glyph_pixel font gl color BLACK))"
    unfolding digit_bytes_def rectangle_bytes_def gl_def [symmetric] Let_def xp_def
    by (simp only: True if_False not_True_eq_False of_nat_unat ucast_id)
  ultimately show ?thesis using g'(2,3) by (simp add: draws_def)
qed

lemma print_line_loop_draws:
  assumes "panel_pins m st" "wf_font font" "length (linebuf g) = LINEBUF_LEN"
  shows "\<exists>bytes. draws m bytes g (print_line_loop font st color s x y w g)"
  using assms(3)
proof (induction s arbitrary: x y w g)
  case Nil
  then show ?case using draws_skip by auto
next
  case (Cons c s)
  obtain x' y' where xy: "(let (x, y) = (if uint x + w > int LCD_WIDTH then (0, y + font_height font) else (x, y))
      in (if uint y + uint (font_height font) > int LCD_HEIGHT then (0, 0) else (x, y))) = (x', y')" by fastforce
  obtain g1 w1 b1 where c: "lcd_write_char st x' y' c font color BLACK g = Some (g1, w1)" "delivers m b1 g g1"
    "length (linebuf g1) = LINEBUF_LEN"
    using lcd_write_char_delivers [OF assms(1) Cons.prems assms(2)] by meson
  obtain b2 where "draws m b2 g1 (print_line_loop font st color s (x' + word_of_int w1) y' w1 g1)"
    using Cons.IH [OF c(3)] by blast
  moreover have "print_line_loop font st color (c # s) x y w g
      = print_line_loop font st color s (x' + word_of_int w1) y' w1 g1"
    using xy c(1) by (auto simp: Let_def split: if_splits)
  ultimately show ?case using delivers_trans [OF c(2)] by (auto simp: draws_def)
qed

lemma lcd_print_line_draws:
  assumes "panel_pins m st" "wf_font font" "length (linebuf g) = LINEBUF_LEN"
  shows "\<exists>bytes. draws m bytes g (lcd_print_line font st color msg g)"
proof -
  have d: "delivers m b g g1 \<Longrightarrow> delivers m b g (g1\<lparr>line_number := l\<rparr>)" for b g1 l
    by (simp add: delivers_def deselected_def received_def)
  obtain b where "draws m b g (print_line_loop font st color (lcd_msg_str msg) 0
      (word_of_int ((uint (line_number g) + 3) * uint (font_height font))) 0 g)"
    using print_line_loop_draws [OF assms] by blast
  then show ?thesis by (intro exI [of _ b]) (auto simp: draws_def lcd_print_line_def Let_def intro: d)
qed

text \<open>Events that no deselected panel notices: no transfer, and a chip select only goes high.\<close>

fun quiet :: "bus_event \<Rightarrow> bool" where
  "quiet (SpiWrite bs) = False"
| "quiet (GpioPut p v) = (v \<or> p \<notin> {2, 3, 4, 5, 6, 7, 8})"
| "quiet e = True"

lemma quiet_delivers:
  assumes "\<forall>e \<in> set es. quiet e"
  shows "delivers m [] g (bus_out es g)"
proof -
  have cs: "(LCD_GPIO_CS_N_BASE + of_nat n :: u16) \<in> {2, 3, 4, 5, 6, 7, 8}" if "n < NUM_LCDS" for n
  proof -
    have "n \<in> {0, 1, 2, 3, 4, 5, 6}" using that by (auto simp: NUM_LCDS_def)
    then show ?thesis by (auto simp: LCD_GPIO_CS_N_BASE_def)
  qed
  have "\<exists>dc'. foldl (rx (LCD_GPIO_CS_N_BASE + of_nat n)) (dc, True, out) es = (dc', True, out)" if n: "n < NUM_LCDS" for n dc out
    using assms
  proof (induction es arbitrary: dc)
    case (Cons e es)
    then have "quiet e" by simp
    then obtain dc1 where "rx (LCD_GPIO_CS_N_BASE + of_nat n) (dc, True, out) e = (dc1, True, out)"
      using cs [OF n] by (cases e) auto
    then show ?case using Cons by simp
  qed simp
  then have *: "n < NUM_LCDS \<Longrightarrow> deselected n g \<Longrightarrow> \<exists>dc' out. rx_state n g = (dc', True, out)
      \<and> (\<exists>dc''. rx_state n (bus_out es g) = (dc'', True, out))" for n
    by (cases "rx_state n g") (auto simp: deselected_def rx_state_bus_out)
  show ?thesis
    unfolding delivers_def deselected_def received_def using * deselected_def by fastforce
qed

lemma lcd_set_backlight_draws:
  "length (linebuf g) = LINEBUF_LEN \<Longrightarrow> draws m [] g (Some (lcd_set_backlight st level g))"
  using quiet_delivers [of "[PwmSetChanLevel (slice_num g) (unat (if 100 < level then 100 else level))]" m g]
  by (simp add: draws_def lcd_set_backlight_def)

definition init_pins :: "lcd_state_t \<Rightarrow> u16 \<Rightarrow> lcd_state_t" where
  "init_pins st lcd_num = st\<lparr>RST_N_gpio := LCD_GPIO_RST_N, DC_gpio := LCD_GPIO_DC, BL_gpio := LCD_GPIO_BL,
     CS_N_gpio := LCD_GPIO_CS_N_BASE + lcd_num, CLK_gpio := LCD_GPIO_CLK, MOSI_gpio := LCD_GPIO_MOSI,
     smoothed_adc := 0\<rparr>"

lemma init_pins_ok: "unat num < NUM_LCDS \<Longrightarrow> panel_pins (unat num) (init_pins st num)"
  by (simp add: panel_pins_def init_pins_def)

lemma linebuf_init [simp]: "linebuf (lcd_init_peripherals so st r g) = linebuf g"
  "linebuf (lcd_reset st g) = linebuf g" "linebuf (lcd_set_backlight st l g) = linebuf g"
  "linebuf (st7789_init st g) = linebuf g"
  by (simp_all add: lcd_init_peripherals_def lcd_reset_def lcd_set_backlight_def st7789_init_def Let_def)

lemma init_peripherals_delivers:
  assumes "panel_pins m st"
  shows "delivers m [] g (lcd_init_peripherals so st r g)"
proof -
  have p: "BL_gpio st = 13" "DC_gpio st = 14" using assms by (simp_all add: panel_pins_def lcd_consts)
  have s: "delivers m [] g g1 \<Longrightarrow> delivers m [] g (g1\<lparr>slice_num := x\<rparr>)" for g1 x
    by (simp add: delivers_def deselected_def received_def)
  have q: "delivers m [] g g1 \<Longrightarrow> \<forall>e \<in> set es. quiet e \<Longrightarrow> delivers m [] g (bus_out es g1)" for g1 es
    using delivers_trans [of m "[]" g g1 "[]"] quiet_delivers by simp
  have r: "delivers m [] g g" by (simp add: delivers_def)
  show ?thesis
    unfolding lcd_init_peripherals_def Let_def
    by (cases r; simp only: if_True if_False; intro q s r) (use p in auto)
qed

text \<open>The chip is woken, configured and switched on.\<close>

lemma st7789_init_delivers:
  assumes "panel_pins m st"
  shows "\<exists>bytes. delivers m bytes g (st7789_init st g)"
proof -
  have a: "\<exists>b. delivers m b g g1 \<Longrightarrow> \<exists>b. delivers m b g (st7789_send st reg ps g1)" for g1 reg ps
    using delivers_trans st7789_send_delivers [OF assms] by blast
  have q: "\<exists>b. delivers m b g g1 \<Longrightarrow> \<exists>b. delivers m b g (bus_out [SleepMs k] g1)" for g1 k
  proof -
    assume "\<exists>b. delivers m b g g1"
    moreover have "delivers m [] g1 (bus_out [SleepMs k] g1)" by (rule quiet_delivers) simp
    ultimately show ?thesis using delivers_trans by blast
  qed
  have "\<exists>b. delivers m b g g" by (rule exI [of _ "[]"]) (simp add: delivers_def)
  then show ?thesis unfolding st7789_init_def Let_def by (intro a q)
qed

lemma lcd_init_draws:
  assumes "unat num < NUM_LCDS" "length (linebuf g) = LINEBUF_LEN"
  shows "\<exists>bytes. draws (unat num) bytes g (map_option snd (lcd_init so st num rst g))"
proof -
  let ?st = "init_pins st num"
  note pins = init_pins_ok [OF assms(1), of st]
  define g1 where "g1 = lcd_init_peripherals so ?st rst g"
  define g2 where "g2 = lcd_set_backlight ?st 90 g1"
  define g3 where "g3 = (if rst then lcd_reset ?st g2 else g2)"
  define g4 where "g4 = st7789_init ?st g3"
  have len: "length (linebuf g1) = LINEBUF_LEN" "length (linebuf g4) = LINEBUF_LEN"
    using assms(2) by (simp_all add: g1_def g2_def g3_def g4_def)
  have 2: "delivers (unat num) [] g1 g2"
    using lcd_set_backlight_draws [OF len(1)] by (auto simp: g2_def draws_def)
  have "RST_N_gpio ?st = 12" by (simp add: init_pins_def lcd_consts)
  then have "delivers (unat num) [] g2 (lcd_reset ?st g2)"
    unfolding lcd_reset_def by (intro quiet_delivers) auto
  then have 3: "delivers (unat num) [] g2 g3" by (simp add: g3_def delivers_def)
  obtain b where 4: "delivers (unat num) b g3 g4" using st7789_init_delivers [OF pins] by (auto simp: g4_def)
  obtain b' g5 where 5: "lcd_clear_screen ?st BLACK g4 = Some g5" "delivers (unat num) b' g4 g5"
    "length (linebuf g5) = LINEBUF_LEN"
    using lcd_clear_screen_draws [OF pins len(2)] unfolding draws_def by blast
  have "lcd_init so st num rst g = Some (?st, g5)"
    unfolding lcd_init_def init_pins_def [symmetric] Let_def g1_def [symmetric] g2_def [symmetric]
      g3_def [symmetric] g4_def [symmetric] 5(1) by simp
  then show ?thesis
    using delivers_trans [OF init_peripherals_delivers [OF pins, of g so rst, folded g1_def]
        delivers_trans [OF 2 delivers_trans [OF 3 delivers_trans [OF 4 5(2)]]]] 5(3)
    unfolding draws_def by (metis option.map(2) snd_conv)
qed

definition lcd_inv :: "lcd_globals \<Rightarrow> bool" where
  "lcd_inv g \<longleftrightarrow> length (linebuf g) = LINEBUF_LEN \<and> (\<forall>n < NUM_LCDS. deselected n g)"

lemma lcd_step_draws:
  assumes "wf_assets a" "op_ok op" "length (linebuf g) = LINEBUF_LEN"
  shows "\<exists>bytes. draws (op_panel op) bytes g (lcd_step a g op)"
proof (cases op)
  case (LcdInit st num rst)
  then show ?thesis using lcd_init_draws assms(2,3) by simp
next
  case (LcdClear st color)
  then show ?thesis using lcd_clear_screen_draws assms(2,3) by fastforce
next
  case (LcdLine st color msg)
  then show ?thesis using lcd_print_line_draws assms by (fastforce simp: wf_assets_def)
next
  case (LcdDigit st color c)
  then show ?thesis using lcd_print_clock_digit_draws assms by (fastforce simp: wf_assets_def)
next
  case (LcdIcons st we ne fe)
  then show ?thesis using lcd_update_icons_draws [of _ st g "icon_bits a"] assms by (fastforce simp: wf_assets_def)
next
  case (LcdBacklight st level)
  then show ?thesis using lcd_set_backlight_draws [OF assms(3)] by auto
qed

text \<open>
  The driver under any sequence of its operations. For a panel \<open>n\<close> that none of them is for, what
  it has received is kept as well.
\<close>

interpretation lcd_machine: safe_machine "lcd_step a" "\<lambda>g. wf_assets a \<and> lcd_inv g" op_ok for a
proof
  fix g op
  assume g: "wf_assets a \<and> lcd_inv g" and ok: "op_ok op"
  then obtain bytes where "draws (op_panel op) bytes g (lcd_step a g op)"
    using lcd_step_draws [of a op g] unfolding lcd_inv_def by blast
  then show "\<exists>g'. lcd_step a g op = Some g' \<and> wf_assets a \<and> lcd_inv g'"
    using g by (auto simp: draws_def delivers_def lcd_inv_def)
qed

interpretation panel_machine: safe_machine "lcd_step a"
  "\<lambda>g. wf_assets a \<and> lcd_inv g \<and> received n g = r" "\<lambda>op. op_ok op \<and> op_panel op \<noteq> n \<and> n < NUM_LCDS" for a n r
proof
  fix g op
  assume g: "wf_assets a \<and> lcd_inv g \<and> received n g = r" and ok: "op_ok op \<and> op_panel op \<noteq> n \<and> n < NUM_LCDS"
  then obtain bytes where "draws (op_panel op) bytes g (lcd_step a g op)"
    using lcd_step_draws [of a op g] unfolding lcd_inv_def by blast
  then show "\<exists>g'. lcd_step a g op = Some g' \<and> wf_assets a \<and> lcd_inv g' \<and> received n g' = r"
    using g ok by (auto simp: draws_def delivers_def lcd_inv_def)
qed

section \<open>Properties\<close>

text \<open>
  C25: The driver under any sequence of its operations on panels that \<open>lcd_init\<close> has set up, with
  any characters, messages, states and levels: no operation leaves the line buffer, a font or an icon;
  after each of them every chip select is high again; and a panel that none of the operations is for
  has received nothing.
\<close>

theorem lcd_panels_isolated:
  assumes "wf_assets a" and "lcd_inv g" and "\<forall>op \<in> set ops. op_ok op"
  shows "\<exists>g'. lcd_machine.run a g ops = Some g' \<and> lcd_inv g'
    \<and> (\<forall>n < NUM_LCDS. (\<forall>op \<in> set ops. op_panel op \<noteq> n) \<longrightarrow> received n g' = received n g)"
proof -
  obtain g' where g': "lcd_machine.run a g ops = Some g'" "lcd_inv g'"
    using lcd_machine.run_safe [of a g ops] assms by blast
  moreover have "received n g' = received n g" if "n < NUM_LCDS" "\<forall>op \<in> set ops. op_panel op \<noteq> n" for n
    using panel_machine.run_safe [of a g n "received n g" ops] assms that g'(1) by auto
  ultimately show ?thesis by blast
qed

definition sample_font :: font_t where
  "sample_font = \<lparr>font_table = replicate 95 \<lparr>glyph_table = [0xC0, 0x81], glyph_width = 8\<rparr>,
     byte_width = 1, font_height = 2\<rparr>"

definition sample_assets :: lcd_assets where
  "sample_assets = \<lparr>text_font = sample_font, clock_digit_font = sample_font,
     icon_bits = (\<lambda>_. replicate 180 0xff), pwm_gpio_to_slice_num = (\<lambda>p. unat p div 2)\<rparr>"

definition sample_globals :: lcd_globals where
  "sample_globals = \<lparr>slice_num = 0, line_number = 0, linebuf = replicate LINEBUF_LEN 0, bus = []\<rparr>"

definition sample_panel :: "nat \<Rightarrow> lcd_state_t" where
  "sample_panel m = \<lparr>RST_N_gpio = 12, DC_gpio = 14, BL_gpio = 13, CS_N_gpio = 2 + of_nat m, CLK_gpio = 10,
     MOSI_gpio = 11, lcd_width_field = 0, lcd_height_field = 0, smoothed_adc = 0\<rparr>"

lemma sample_font_wf: "wf_font sample_font"
  by (simp add: wf_font_def sample_font_def wf_glyph_def LCD_WIDTH_def)

lemma sample_globals_inv: "lcd_inv sample_globals"
  by (simp add: lcd_inv_def sample_globals_def deselected_def rx_state_def)

theorem lcd_panels_isolated_witness:
  "\<exists>g'. lcd_machine.run sample_assets sample_globals [LcdInit (sample_panel 0) 0 True,
      LcdLine (sample_panel 0) GREEN LCD_MSG_INIT_OK, LcdDigit (sample_panel 1) CYAN CHR ''7''] = Some g'
    \<and> received 2 g' = []"
proof -
  let ?ops = "[LcdInit (sample_panel 0) 0 True, LcdLine (sample_panel 0) GREEN LCD_MSG_INIT_OK,
      LcdDigit (sample_panel 1) CYAN CHR ''7'']"
  have a: "wf_assets sample_assets" using sample_font_wf by (simp add: wf_assets_def sample_assets_def)
  have p: "panel_of (sample_panel 0) = 0" "panel_of (sample_panel 1) = 1"
    by (simp_all add: panel_of_def sample_panel_def lcd_consts)
  then have ok: "\<forall>op \<in> set ?ops. op_ok op"
    by (simp add: panel_pins_def sample_panel_def lcd_consts NUM_LCDS_def)
  obtain g' where g': "lcd_machine.run sample_assets sample_globals ?ops = Some g'"
      "\<forall>n < NUM_LCDS. (\<forall>op \<in> set ?ops. op_panel op \<noteq> n) \<longrightarrow> received n g' = received n sample_globals"
    using lcd_panels_isolated [OF a sample_globals_inv ok] by blast
  have "received 2 g' = received 2 sample_globals"
    using g'(2) p by (auto simp: NUM_LCDS_def)
  then have "received 2 g' = []" by (simp add: received_def rx_state_def sample_globals_def)
  with g'(1) show ?thesis by blast
qed

text \<open>
  C26: A clock digit appears centred on its own panel: the panel receives the window commands for
  the columns from \<open>(172 - w) / 2\<close> on, which lie inside the panel, and then the glyph's pixels in the
  given colour on black, row by row, most significant bit leftmost; the other panels receive nothing.
\<close>

theorem lcd_digit_drawn_centred:
  assumes "panel_pins m st" and "lcd_inv g" and "wf_font font" and "printable c"
    and "gl = font_table font ! (of_char c - 32)" and "w = unat (glyph_width gl)"
  shows "\<exists>g'. lcd_print_clock_digit font st color c g = Some g'
    \<and> received m g' = received m g @ window_bytes (of_nat ((172 - w) div 2)) 0 (of_nat w) (font_height font)
        @ map (Pair True) (picture_bytes w (unat (font_height font)) (glyph_pixel font gl color BLACK))
    \<and> (172 - w) div 2 + w \<le> 172 \<and> (\<forall>n < NUM_LCDS. n \<noteq> m \<longrightarrow> received n g' = received n g)"
proof -
  obtain g' where g': "lcd_print_clock_digit font st color c g = Some g'" "delivers m (digit_bytes font color c) g g'"
    using lcd_print_clock_digit_draws [OF assms(1) _ assms(3)] assms(2) unfolding lcd_inv_def draws_def by blast
  have b: "digit_bytes font color c = window_bytes (of_nat ((172 - w) div 2)) 0 (of_nat w) (font_height font)
      @ map (Pair True) (picture_bytes w (unat (font_height font)) (glyph_pixel font gl color BLACK))"
    unfolding digit_bytes_def rectangle_bytes_def assms(5,6) Let_def
    by (simp only: assms(4) if_False not_True_eq_False of_nat_unat ucast_id)
  have "of_char c - 32 < length (font_table font)"
    using printable_index [OF assms(4)] assms(3) by (simp add: wf_font_def)
  then have "w \<le> 172" using assms(3,5,6) by (simp add: wf_font_def wf_glyph_def LCD_WIDTH_def)
  then have "(172 - w) div 2 + w \<le> 172" by simp
  moreover have "m < NUM_LCDS" using assms(1) by (simp add: panel_pins_def)
  ultimately show ?thesis
    using g' assms(2) unfolding delivers_def lcd_inv_def b by auto
qed

theorem lcd_digit_drawn_centred_witness:
  "\<exists>g'. lcd_print_clock_digit sample_font (sample_panel 3) GREEN CHR ''7'' sample_globals = Some g'
    \<and> received 3 g' = received 3 sample_globals @ window_bytes 82 0 8 2
        @ map (Pair True) (picture_bytes 8 2 (glyph_pixel sample_font
            \<lparr>glyph_table = [0xC0, 0x81], glyph_width = 8\<rparr> GREEN BLACK))"
proof -
  have p: "panel_pins 3 (sample_panel 3)" by (simp add: panel_pins_def sample_panel_def lcd_consts NUM_LCDS_def)
  have c: "printable CHR ''7''" by (simp add: printable_def)
  have gl: "\<lparr>glyph_table = [0xC0, 0x81], glyph_width = 8\<rparr> = font_table sample_font ! (of_char CHR ''7'' - 32)"
    by (simp add: sample_font_def)
  have w: "(8 :: nat) = unat (glyph_width \<lparr>glyph_table = [0xC0, 0x81], glyph_width = 8\<rparr>)" by simp
  have h: "font_height sample_font = 2" by (simp add: sample_font_def)
  from lcd_digit_drawn_centred [OF p sample_globals_inv sample_font_wf c gl w, of GREEN]
  show ?thesis by (auto simp: h)
qed

text \<open>
  The status icons never overlap: \<open>lcd_update_icons\<close> draws the watchdog's, the NTP client's
  and the Wi-Fi icon (those that have a case) in three adjacent boxes of 36 by 36 pixels, columns 59 to
  166 of the panel, each with its image's set bits in the icon's colour.
\<close>

lemma lcd_icons_drawn:
  assumes "panel_pins m st" and "lcd_inv g" and "\<forall>i. length (icons i) = 180"
  shows "\<exists>g'. lcd_update_icons icons st we ne fe g = Some g'
    \<and> received m g' = received m g @ concat (map (\<lambda>ic. case ic of None \<Rightarrow> []
        | Some (i, x, c) \<Rightarrow> window_bytes x 0 36 36 @ map (Pair True) (picture_bytes 36 36 (image_pixel (icons i) 36 c)))
        [watchdog_case we, ntp_case ne, wifi_case fe])
    \<and> (\<forall>i x c. watchdog_case we = Some (i, x, c) \<longrightarrow> x = 59) \<and> (\<forall>i x c. ntp_case ne = Some (i, x, c) \<longrightarrow> x = 59 + 36)
    \<and> (\<forall>i x c. wifi_case fe = Some (i, x, c) \<longrightarrow> x = 59 + 2 * 36)"
proof -
  obtain g' where g': "lcd_update_icons icons st we ne fe g = Some g'"
      "delivers m (icon_bytes icons (watchdog_case we) @ icon_bytes icons (ntp_case ne) @ icon_bytes icons (wifi_case fe)) g g'"
    using lcd_update_icons_draws [OF assms(1), of g icons we ne fe] assms(2,3) unfolding draws_def lcd_inv_def by blast
  have b: "icon_bytes icons ic = (case ic of None \<Rightarrow> [] | Some (i, x, c) \<Rightarrow> window_bytes x 0 36 36
      @ map (Pair True) (picture_bytes 36 36 (image_pixel (icons i) 36 c)))" for ic
    by (simp add: icon_bytes_def rectangle_bytes_def split: option.split)
  have o: "WATCHDOG_ICON_X_OFFSET = 59" "NTP_ICON_X_OFFSET = 95" "WIFI_ICON_X_OFFSET = 131"
    by (simp_all add: WATCHDOG_ICON_X_OFFSET_def NTP_ICON_X_OFFSET_def WIFI_ICON_X_OFFSET_def ICON_SIZE_def LCD_WIDTH_def)
  have "m < NUM_LCDS" using assms(1) by (simp add: panel_pins_def)
  then have "received m g' = received m g @ concat (map (icon_bytes icons) [watchdog_case we, ntp_case ne, wifi_case fe])"
    using g'(2) assms(2) by (simp add: delivers_def lcd_inv_def)
  moreover have "(\<forall>i x c. watchdog_case we = Some (i, x, c) \<longrightarrow> x = 59) \<and> (\<forall>i x c. ntp_case ne = Some (i, x, c) \<longrightarrow> x = 59 + 36)
    \<and> (\<forall>i x c. wifi_case fe = Some (i, x, c) \<longrightarrow> x = 59 + 2 * 36)"
    by (cases we; cases ne; cases fe) (simp_all add: o)
  ultimately show ?thesis using g'(1) unfolding b [abs_def] by blast
qed

end
