(* ===== verification/CString.thy ===== *)
theory CString
  imports Config
begin

text \<open>
  The C library's string functions that the configuration server calls, on strings without NUL
  (what \<open>c_str\<close> reads from an array). A pointer into a string is the rest of the string or an
  index into it. \<open>long\<close> has 32 bits on the target.
\<close>

section \<open>Searching and comparing\<close>

definition prefixb :: "string \<Rightarrow> string \<Rightarrow> bool" where
  "prefixb p s \<longleftrightarrow> take (length p) s = p"

fun strstr :: "string \<Rightarrow> string \<Rightarrow> nat option" where
  "strstr [] pat = (if pat = [] then Some 0 else None)"
| "strstr (c # s) pat = (if prefixb pat (c # s) then Some 0 else map_option Suc (strstr s pat))"

fun strchr :: "string \<Rightarrow> char \<Rightarrow> nat option" where
  "strchr [] x = None"
| "strchr (c # s) x = (if c = x then Some 0 else map_option Suc (strchr s x))"

definition strncmp_eq :: "string \<Rightarrow> string \<Rightarrow> nat \<Rightarrow> bool" where
  "strncmp_eq s t n \<longleftrightarrow> take n s = take n t"

definition char_code :: "char \<Rightarrow> nat" where "char_code c = of_char c"

definition tolower :: "char \<Rightarrow> char" where
  "tolower c = (if 65 \<le> char_code c \<and> char_code c \<le> 90 then char_of (char_code c + 32) else c)"

definition strncasecmp_eq :: "string \<Rightarrow> string \<Rightarrow> nat \<Rightarrow> bool" where
  "strncasecmp_eq s t n \<longleftrightarrow> map tolower (take n s) = map tolower (take n t)"

lemma prefixb_iff: "prefixb p s \<longleftrightarrow> (\<exists>r. s = p @ r)"
  unfolding prefixb_def by (metis append_eq_conv_conj)

lemma strstr_Some_imp: "strstr s pat = Some n \<Longrightarrow> n + length pat \<le> length s \<and> prefixb pat (drop n s)"
proof (induction s arbitrary: n)
  case (Cons c s)
  then show ?case
    by (cases n) (auto simp: prefixb_iff dest: arg_cong [where f = length] split: if_splits)
qed (auto simp: prefixb_def split: if_splits)

lemma strstr_first: "strstr s pat = Some n \<Longrightarrow> k < n \<Longrightarrow> \<not> prefixb pat (drop k s)"
proof (induction s arbitrary: n k)
  case (Cons c s)
  then show ?case by (cases k) (auto split: if_splits)
qed (auto split: if_splits)

lemma strstr_None: "strstr s pat = None \<Longrightarrow> \<not> prefixb pat (drop k s)"
proof (induction s arbitrary: k)
  case Nil
  then show ?case by (auto simp: prefixb_def split: if_splits)
next
  case (Cons c s)
  then show ?case by (cases k) (auto split: if_splits)
qed

lemma strstr_SomeI:
  "prefixb pat (drop n s) \<Longrightarrow> n \<le> length s \<Longrightarrow> \<forall>k < n. \<not> prefixb pat (drop k s) \<Longrightarrow> strstr s pat = Some n"
proof (induction s arbitrary: n)
  case Nil
  then show ?case by (simp add: prefixb_def)
next
  case (Cons c s)
  show ?case
  proof (cases n)
    case 0
    then show ?thesis using Cons.prems by simp
  next
    case (Suc m)
    then have "strstr s pat = Some m" using Cons.prems by (intro Cons.IH) auto
    then show ?thesis using Suc Cons.prems(3) by auto
  qed
qed

lemma strstr_NoneI: "\<forall>k \<le> length s. \<not> prefixb pat (drop k s) \<Longrightarrow> strstr s pat = None"
proof (induction s)
  case Nil
  then show ?case by (simp add: prefixb_def)
next
  case (Cons c s)
  then have "\<not> prefixb pat (c # s)" by auto
  moreover have "strstr s pat = None" using Cons by (metis Suc_le_mono drop_Suc_Cons length_Cons)
  ultimately show ?case by simp
qed

lemma strchr_None: "strchr s x = None \<longleftrightarrow> x \<notin> set s"
  by (induction s) auto

lemma strchr_append: "x \<notin> set s \<Longrightarrow> strchr (s @ x # r) x = Some (length s)"
  by (induction s) auto

lemma strchr_Some: "strchr s x = Some n \<Longrightarrow> n < length s \<and> s ! n = x \<and> x \<notin> set (take n s)"
proof (induction s arbitrary: n)
  case (Cons c s)
  then show ?case by (cases n) (auto split: if_splits)
qed simp

section \<open>Numbers\<close>

definition LONG_MAX :: int where "LONG_MAX = 2 ^ 31 - 1"
definition LONG_MIN :: int where "LONG_MIN = - (2 ^ 31)"
definition INT_MAX :: int where "INT_MAX = 2 ^ 31 - 1"

definition isspace :: "char \<Rightarrow> bool" where
  "isspace c \<longleftrightarrow> c = CHR '' '' \<or> (9 \<le> char_code c \<and> char_code c \<le> 13)"

definition isdigit :: "char \<Rightarrow> bool" where
  "isdigit c \<longleftrightarrow> 48 \<le> char_code c \<and> char_code c \<le> 57"

definition digit_value :: "char \<Rightarrow> int" where
  "digit_value c = int (char_code c) - 48"

definition digits_value :: "string \<Rightarrow> int" where
  "digits_value s = foldl (\<lambda>n c. 10 * n + digit_value c) 0 s"

definition clamp_long :: "int \<Rightarrow> int" where
  "clamp_long n = max LONG_MIN (min LONG_MAX n)"

text \<open>
  \<open>strtol(value, &endptr, 10)\<close>: white space, an optional sign, digits; the value saturates at
  the bounds of \<open>long\<close>. Without a digit nothing is consumed. The second component is the string at
  \<open>endptr\<close>.
\<close>

definition strtol :: "string \<Rightarrow> int \<times> string" where
  "strtol s =
     (let s1 = dropWhile isspace s;
          neg = (s1 \<noteq> [] \<and> hd s1 = CHR ''-'');
          s2 = (if s1 \<noteq> [] \<and> (hd s1 = CHR ''-'' \<or> hd s1 = CHR ''+'') then tl s1 else s1);
          ds = takeWhile isdigit s2
      in if ds = [] then (0, s)
         else (clamp_long (if neg then - digits_value ds else digits_value ds), dropWhile isdigit s2))"

lemma digits_value_snoc: "digits_value (s @ [c]) = 10 * digits_value s + digit_value c"
  by (simp add: digits_value_def)

lemma digits_value_nonneg: "list_all isdigit s \<Longrightarrow> 0 \<le> digits_value s"
proof (induction s rule: rev_induct)
  case (snoc c s)
  then show ?case by (simp add: digits_value_snoc isdigit_def digit_value_def)
qed (simp add: digits_value_def)

text \<open>The decimal numeral of a number, as \<open>printf("%d")\<close> writes it.\<close>

fun dec_string :: "nat \<Rightarrow> string" where
  "dec_string n = (if n < 10 then [char_of (48 + n)] else dec_string (n div 10) @ [char_of (48 + n mod 10)])"

declare dec_string.simps [simp del]

definition int_string :: "int \<Rightarrow> string" where
  "int_string k = (if k < 0 then CHR ''-'' # dec_string (nat (- k)) else dec_string (nat k))"

lemma char_code_of [simp]: "n < 256 \<Longrightarrow> char_code (char_of n) = n"
  by (simp add: char_code_def)

lemma dec_string_digits: "list_all isdigit (dec_string n) \<and> dec_string n \<noteq> [] \<and> digits_value (dec_string n) = int n"
proof (induction n rule: dec_string.induct)
  case (1 n)
  show ?case
  proof (cases "n < 10")
    case True
    then show ?thesis
      by (subst (1 2 3) dec_string.simps) (simp add: isdigit_def digits_value_def digit_value_def)
  next
    case False
    have "n mod 10 < 10" by simp
    then have d: "isdigit (char_of (48 + n mod 10))" "digit_value (char_of (48 + n mod 10)) = int (n mod 10)"
      by (simp_all add: isdigit_def digit_value_def)
    have "int n = 10 * int (n div 10) + int (n mod 10)" by presburger
    with False 1 d show ?thesis
      by (subst (1 2 3) dec_string.simps) (simp add: digits_value_snoc)
  qed
qed

lemma isdigit_not_space: "isdigit c \<Longrightarrow> \<not> isspace c \<and> c \<noteq> CHR ''-'' \<and> c \<noteq> CHR ''+''"
  by (auto simp: isdigit_def isspace_def char_code_def)

lemma strtol_int_string:
  assumes "LONG_MIN \<le> k" "k \<le> LONG_MAX"
  shows "strtol (int_string k) = (k, [])"
proof -
  have *: "list_all isdigit (dec_string n)" "dec_string n \<noteq> []" "digits_value (dec_string n) = int n" for n
    using dec_string_digits [of n] by simp_all
  have hd: "isdigit (hd (dec_string n))" for n using *(1,2) [of n] by (cases "dec_string n") simp_all
  have tw: "takeWhile isdigit (dec_string n) = dec_string n" "dropWhile isdigit (dec_string n) = []" for n
    using *(1) [of n] by (auto simp: list_all_iff takeWhile_eq_all_conv)
  have dw: "dropWhile isspace (dec_string n) = dec_string n" for n
    using isdigit_not_space [OF hd] by (simp add: dropWhile_eq_self_iff)
  show ?thesis
  proof (cases "k < 0")
    case True
    have "\<not> isspace CHR ''-''" by (simp add: isspace_def char_code_def)
    then show ?thesis
      using True assms by (simp add: strtol_def int_string_def Let_def tw * clamp_long_def)
  next
    case False
    then show ?thesis
      using assms isdigit_not_space [OF hd [of "nat k"]]
      by (simp add: strtol_def int_string_def Let_def tw dw * clamp_long_def)
  qed
qed

section \<open>Tokens\<close>

text \<open>One call of \<open>strtok_r\<close> with a one-character delimiter: the token and what is left.\<close>

definition strtok_r :: "string \<Rightarrow> char \<Rightarrow> (string \<times> string) option" where
  "strtok_r s d =
     (let s1 = dropWhile (\<lambda>c. c = d) s
      in if s1 = [] then None
         else Some (takeWhile (\<lambda>c. c \<noteq> d) s1, tl (dropWhile (\<lambda>c. c \<noteq> d) s1)))"

lemma strtok_r_shorter: "strtok_r s d = Some (tok, rest) \<Longrightarrow> length rest < length s"
proof -
  assume "strtok_r s d = Some (tok, rest)"
  then have ne: "dropWhile (\<lambda>c. c = d) s \<noteq> []" and r: "rest = tl (dropWhile (\<lambda>c. c \<noteq> d) (dropWhile (\<lambda>c. c = d) s))"
    by (auto simp: strtok_r_def Let_def split: if_splits)
  have "hd (dropWhile (\<lambda>c. c = d) s) \<noteq> d" using hd_dropWhile [OF ne] by simp
  then have "length rest < length (dropWhile (\<lambda>c. c = d) s)"
    using ne length_dropWhile_le [of "\<lambda>c. c \<noteq> d" "tl (dropWhile (\<lambda>c. c = d) s)"]
    unfolding r by (cases "dropWhile (\<lambda>c. c = d) s") auto
  then show ?thesis using length_dropWhile_le [of "\<lambda>c. c = d" s] by linarith
qed

lemma token_end:
  assumes "d \<notin> set xs"
  shows "takeWhile (\<lambda>c. c \<noteq> d) (xs @ d # r) = xs" "dropWhile (\<lambda>c. c \<noteq> d) (xs @ d # r) = d # r"
    "takeWhile (\<lambda>c. c \<noteq> d) xs = xs" "dropWhile (\<lambda>c. c \<noteq> d) xs = []"
  using assms by (induction xs) auto

lemma strtok_r_Cons:
  "tok \<noteq> [] \<Longrightarrow> d \<notin> set tok \<Longrightarrow> strtok_r (tok @ d # rest) d = Some (tok, rest)"
  by (cases tok) (auto simp: strtok_r_def Let_def token_end)

lemma strtok_r_last: "tok \<noteq> [] \<Longrightarrow> d \<notin> set tok \<Longrightarrow> strtok_r tok d = Some (tok, [])"
  by (cases tok) (auto simp: strtok_r_def Let_def token_end)

lemma strtok_r_Nil [simp]: "strtok_r [] d = None"
  by (simp add: strtok_r_def)

end
