(* ===== verification/HttpText.thy ===== *)
theory HttpText
  imports CString Lwip
begin

text \<open>
  The text handling of src/src/wifi.c: bounded numbers, the in-place decoding of a form value and
  the expansion of the configuration page's template. The decoder works on the character array
  itself, its two pointers as indices; \<open>url_decode\<close> is what it computes.
\<close>

section \<open>Bounded numbers\<close>

definition parse_long_bounded :: "string \<Rightarrow> int \<Rightarrow> int \<Rightarrow> int option" where
  "parse_long_bounded value min_val max_val =
     (let (parsed, endptr) = strtol value
      in if value = [] then None
         else if endptr \<noteq> [] then None
         else if parsed < min_val \<or> parsed > max_val then None
         else Some parsed)"

lemma parse_long_bounded_range:
  "parse_long_bounded value lo hi = Some n \<Longrightarrow> lo \<le> n \<and> n \<le> hi"
  by (auto simp: parse_long_bounded_def split: if_splits prod.splits)

lemma parse_long_bounded_int_string:
  assumes "LONG_MIN \<le> k" "k \<le> LONG_MAX"
  shows "parse_long_bounded (int_string k) lo hi = (if lo \<le> k \<and> k \<le> hi then Some k else None)"
proof -
  have "int_string k \<noteq> []" using dec_string_digits by (simp add: int_string_def)
  then show ?thesis using strtol_int_string [OF assms] by (simp add: parse_long_bounded_def)
qed

section \<open>Decoding a form value\<close>

definition hex_to_int :: "char \<Rightarrow> nat" where
  "hex_to_int c =
     (if char_code CHR ''0'' \<le> char_code c \<and> char_code c \<le> char_code CHR ''9''
        then char_code c - char_code CHR ''0''
      else if char_code CHR ''a'' \<le> char_code c \<and> char_code c \<le> char_code CHR ''f''
        then char_code c - char_code CHR ''a'' + 10
      else if char_code CHR ''A'' \<le> char_code c \<and> char_code c \<le> char_code CHR ''F''
        then char_code c - char_code CHR ''A'' + 10
      else 0)"

definition hex_pair :: "char \<Rightarrow> char \<Rightarrow> char" where
  "hex_pair a b = char_of (push_bit 4 (hex_to_int a) OR hex_to_int b)"

text \<open>The test of the first branch: \<open>Some (Some c)\<close> when an escape starts here.\<close>

definition escape_at :: "char list \<Rightarrow> nat \<Rightarrow> char \<Rightarrow> char option option" where
  "escape_at str src c =
     (if c = CHR ''%'' then do {
        a \<leftarrow> buf_get str (src + 1);
        if a = NUL then Some None
        else do {
          b \<leftarrow> buf_get str (src + 2);
          if b = NUL then Some None else Some (Some (hex_pair a b))
        }
      } else Some None)"

function urldecode_loop :: "char list \<Rightarrow> nat \<Rightarrow> nat \<Rightarrow> (char list \<times> nat) option" where
  "urldecode_loop str dst src =
     (case buf_get str src of
        None \<Rightarrow> None
      | Some c \<Rightarrow>
          if c = NUL then Some (str, dst)
          else
            (case escape_at str src c of
               None \<Rightarrow> None
             | Some (Some x) \<Rightarrow>
                 (case buf_put str dst [x] of
                    None \<Rightarrow> None
                  | Some str' \<Rightarrow> urldecode_loop str' (dst + 1) (src + 3))
             | Some None \<Rightarrow>
                 (case buf_put str dst [if c = CHR ''+'' then CHR '' '' else c] of
                    None \<Rightarrow> None
                  | Some str' \<Rightarrow> urldecode_loop str' (dst + 1) (src + 1))))"
  by pat_completeness auto
termination
  by (relation "measure (\<lambda>(str, dst, src). length str - src)")
    (auto simp: buf_get_Some_iff dest!: buf_put_length)

declare urldecode_loop.simps [simp del]

definition is_crlf :: "char \<Rightarrow> bool" where
  "is_crlf c \<longleftrightarrow> c = CHR 0x0D \<or> c = CHR 0x0A"

fun strip_back :: "char list \<Rightarrow> nat \<Rightarrow> nat option" where
  "strip_back str 0 = Some 0"
| "strip_back str (Suc dst) =
     (case buf_get str dst of
        None \<Rightarrow> None
      | Some c \<Rightarrow> if is_crlf c then strip_back str dst else Some (Suc dst))"

definition urldecode_inplace :: "char list \<Rightarrow> char list option" where
  "urldecode_inplace str = do {
     (str, dst) \<leftarrow> urldecode_loop str 0 0;
     dst \<leftarrow> strip_back str dst;
     buf_put str dst [NUL] }"

subsection \<open>What it computes\<close>

definition plain_char :: "char \<Rightarrow> char" where
  "plain_char c = (if c = CHR ''+'' then CHR '' '' else c)"

fun url_decode :: "string \<Rightarrow> string" where
  "url_decode [] = []"
| "url_decode [c] = [plain_char c]"
| "url_decode [c, a] = plain_char c # url_decode [a]"
| "url_decode (c # a # b # r) =
     (if c = CHR ''%'' then hex_pair a b # url_decode r else plain_char c # url_decode (a # b # r))"

definition strip_tail :: "string \<Rightarrow> string" where
  "strip_tail s = rev (dropWhile is_crlf (rev s))"

lemma length_url_decode: "length (url_decode s) \<le> length s"
  by (induction s rule: url_decode.induct) auto

lemma length_strip_tail: "length (strip_tail s) \<le> length s"
  using length_dropWhile_le [of is_crlf "rev s"] by (simp add: strip_tail_def)

lemma strip_tail_snoc: "strip_tail (s @ [c]) = (if is_crlf c then strip_tail s else s @ [c])"
  by (simp add: strip_tail_def)

lemma strip_back_correct:
  "n \<le> length str \<Longrightarrow> strip_back str n = Some (length (strip_tail (take n str)))
     \<and> take (length (strip_tail (take n str))) str = strip_tail (take n str)"
proof (induction n)
  case 0
  then show ?case by (simp add: strip_tail_def)
next
  case (Suc n)
  then show ?case by (simp add: take_Suc_conv_app_nth strip_tail_snoc)
qed

text \<open>One step: a character is stored at \<open>dst\<close>, behind the text still to be read.\<close>

lemma put_behind:
  assumes "dst < length str" "dst < n"
  obtains str' where "buf_put str dst [x] = Some str'" "length str' = length str"
    "drop n str' = drop n str" "take (dst + 1) str' = take dst str @ [x]"
proof -
  have "buf_put str dst [x] = Some (str[dst := x])"
    using assms(1) by (simp add: upd_conv_take_nth_drop)
  moreover have "take (dst + 1) (str[dst := x]) = take dst str @ [x]"
    using assms(1) by (simp add: take_Suc_conv_app_nth)
  ultimately show thesis using assms(2) by (intro that) simp_all
qed

lemma url_decode_Cons:
  "url_decode (c # s) = (if c = CHR ''%'' \<and> 2 \<le> length s
     then hex_pair (s ! 0) (s ! 1) # url_decode (drop 2 s) else plain_char c # url_decode s)"
  by (cases s; cases "tl s"; simp)

lemma drop_eq_nth: "drop n xs = ys \<Longrightarrow> i < length ys \<Longrightarrow> n + i < length xs \<and> xs ! (n + i) = ys ! i"
  by (auto simp: less_diff_conv add.commute)

lemma escape_at_correct:
  assumes "drop src str = c # s @ NUL # rest" "NUL \<notin> set s"
  shows "escape_at str src c
    = Some (if c = CHR ''%'' \<and> 2 \<le> length s then Some (hex_pair (s ! 0) (s ! 1)) else None)"
proof -
  note at = drop_eq_nth [OF assms(1)]
  have 1: "buf_get str (src + 1) = Some ((s @ NUL # rest) ! 0)"
    using at [of 1] by (simp add: buf_get_Some_iff)
  consider "s = []" | x where "s = [x]" | x y s' where "s = x # y # s'"
    by (cases s; cases "tl s") auto
  then show ?thesis
  proof cases
    case (2 x)
    then show ?thesis using 1 at [of 2] assms(2) by (simp add: escape_at_def buf_get_Some_iff)
  next
    case (3 x y s')
    then show ?thesis using 1 at [of 2] assms(2) by (auto simp: escape_at_def buf_get_Some_iff)
  qed (use 1 in \<open>simp add: escape_at_def\<close>)
qed

lemma urldecode_loop_step:
  assumes "drop src str = c # s @ NUL # rest" "NUL \<notin> set (c # s)"
  shows "urldecode_loop str dst src = (if c = CHR ''%'' \<and> 2 \<le> length s
    then Option.bind (buf_put str dst [hex_pair (s ! 0) (s ! 1)]) (\<lambda>str'. urldecode_loop str' (dst + 1) (src + 3))
    else Option.bind (buf_put str dst [plain_char c]) (\<lambda>str'. urldecode_loop str' (dst + 1) (src + 1)))"
proof -
  have "buf_get str src = Some c"
    using drop_eq_nth [OF assms(1), of 0] by (simp add: buf_get_Some_iff)
  moreover have "escape_at str src c
      = Some (if c = CHR ''%'' \<and> 2 \<le> length s then Some (hex_pair (s ! 0) (s ! 1)) else None)"
    using escape_at_correct [OF assms(1)] assms(2) by simp
  ultimately show ?thesis
    using assms(2) by (subst urldecode_loop.simps) (auto simp: plain_char_def split: option.splits)
qed

lemma urldecode_loop_correct:
  assumes "drop src str = s @ NUL # rest" "NUL \<notin> set s" "dst \<le> src"
  shows "\<exists>str'. urldecode_loop str dst src = Some (str', dst + length (url_decode s))
    \<and> length str' = length str \<and> take (dst + length (url_decode s)) str' = take dst str @ url_decode s
    \<and> drop (src + length s) str' = NUL # rest"
  using assms
proof (induction s arbitrary: str dst src rule: length_induct)
  case (1 s)
  show ?case
  proof (cases s)
    case Nil
    then have "buf_get str src = Some NUL"
      using drop_eq_nth [OF "1.prems"(1), of 0] by (simp add: buf_get_Some_iff)
    then show ?thesis using Nil "1.prems" by (subst urldecode_loop.simps) simp
  next
    case (Cons c s')
    note step = urldecode_loop_step [of src str c s' rest dst] and prems = "1.prems" [unfolded Cons]
    have src: "src < length str" using drop_eq_nth [OF prems(1), of 0] by simp
    define esc where "esc \<longleftrightarrow> c = CHR ''%'' \<and> 2 \<le> length s'"
    define x where "x = (if esc then hex_pair (s' ! 0) (s' ! 1) else plain_char c)"
    define n where "n = (if esc then 3 else 1 :: nat)"
    define s1 where "s1 = (if esc then drop 2 s' else s')"
    have dec: "url_decode s = x # url_decode s1"
      by (simp add: Cons url_decode_Cons x_def s1_def esc_def)
    have "dst < length str" "dst < src + n" using src prems(3) by (simp_all add: n_def)
    then obtain str1 where w: "buf_put str dst [x] = Some str1" "length str1 = length str"
        "drop (src + n) str1 = drop (src + n) str" "take (dst + 1) str1 = take dst str @ [x]"
      by (rule put_behind)
    have "drop (src + n) str = drop n (drop src str)" by (simp add: add.commute)
    then have d1: "drop (src + n) str1 = s1 @ NUL # rest"
      unfolding w(3) prems(1) by (simp add: n_def s1_def esc_def)
    have shorter: "length s1 < length s" "NUL \<notin> set s1" "n + length s1 = length s"
      using prems(2) by (auto simp: s1_def Cons n_def esc_def dest: in_set_dropD)
    have "urldecode_loop str dst src = urldecode_loop str1 (dst + 1) (src + n)"
      using step [folded esc_def] prems(1,2) w(1) by (cases esc) (simp_all add: n_def x_def)
    moreover have "dst + 1 \<le> src + n" using prems(3) by (simp add: n_def)
    moreover from this obtain str' where "urldecode_loop str1 (dst + 1) (src + n)
        = Some (str', dst + 1 + length (url_decode s1))" "length str' = length str1"
        "take (dst + 1 + length (url_decode s1)) str' = take (dst + 1) str1 @ url_decode s1"
        "drop (src + n + length s1) str' = NUL # rest"
      using "1.IH" [rule_format, OF shorter(1) d1 shorter(2)] by blast
    ultimately show ?thesis using w(2,4) by (simp add: dec shorter(3) [symmetric] add.assoc)
  qed
qed

text \<open>
  The decoder on a terminated string: it stays inside the string's bytes, leaves what follows the
  terminator alone and stores the decoded text, with trailing line ends removed and a terminator.
\<close>

lemma urldecode_inplace_correct:
  assumes "NUL \<notin> set s"
  obtains buf where "urldecode_inplace (s @ NUL # rest) = Some buf" "length buf = length s + 1 + length rest"
    "take (length (strip_tail (url_decode s)) + 1) buf = strip_tail (url_decode s) @ [NUL]"
    "drop (length s + 1) buf = rest"
proof -
  let ?d = "url_decode s"
  obtain str' where l: "urldecode_loop (s @ NUL # rest) 0 0 = Some (str', length ?d)"
      "length str' = length s + 1 + length rest" "take (length ?d) str' = ?d" "drop (length s) str' = NUL # rest"
    using urldecode_loop_correct [of 0 "s @ NUL # rest" s rest 0] assms by auto
  let ?n = "length (strip_tail ?d)"
  have n: "?n \<le> length s"
    using length_strip_tail [of ?d] length_url_decode [of s] by linarith
  have "length ?d \<le> length str'" using l(2) length_url_decode [of s] by simp
  then have b: "strip_back str' (length ?d) = Some ?n" "take ?n str' = strip_tail ?d"
    using strip_back_correct [of "length ?d" str'] l(3) by simp_all
  have "?n < length str'" "?n < length s + 1" using n l(2) by simp_all
  then obtain buf where w: "buf_put str' ?n [NUL] = Some buf" "length buf = length str'"
      "drop (length s + 1) buf = drop (length s + 1) str'" "take (?n + 1) buf = take ?n str' @ [NUL]"
    by (rule put_behind)
  have "drop (length s + 1) str' = rest" using l(4) by (metis add.commute drop_drop drop_Suc_Cons drop0 One_nat_def)
  with l b w show thesis by (intro that) (simp_all add: urldecode_inplace_def)
qed

subsection \<open>The browser's encoding\<close>

definition hex_digit :: "nat \<Rightarrow> char" where
  "hex_digit n = char_of (if n < 10 then 48 + n else 55 + n)"

definition isalnum :: "char \<Rightarrow> bool" where
  "isalnum c \<longleftrightarrow> isdigit c \<or> 65 \<le> char_code c \<and> char_code c \<le> 90
     \<or> 97 \<le> char_code c \<and> char_code c \<le> 122"

definition form_safe :: "char \<Rightarrow> bool" where
  "form_safe c \<longleftrightarrow> isalnum c \<or> c \<in> set ''*-._''"

definition url_encode_char :: "char \<Rightarrow> string" where
  "url_encode_char c = (if form_safe c then [c] else if c = CHR '' '' then ''+''
     else [CHR ''%'', hex_digit (char_code c div 16), hex_digit (char_code c mod 16)])"

definition url_encode :: "string \<Rightarrow> string" where
  "url_encode s = concat (map url_encode_char s)"

lemma url_encode_simps [simp]: "url_encode [] = []" "url_encode (c # s) = url_encode_char c @ url_encode s"
  by (simp_all add: url_encode_def)

lemma hex_bounds: "char_code CHR ''0'' = 48" "char_code CHR ''9'' = 57" "char_code CHR ''a'' = 97"
  "char_code CHR ''f'' = 102" "char_code CHR ''A'' = 65" "char_code CHR ''F'' = 70"
  by (simp_all add: char_code_def)

lemma hex_to_int_digit: "n < 16 \<Longrightarrow> hex_to_int (hex_digit n) = n"
  by (auto simp: hex_to_int_def hex_digit_def hex_bounds)

lemma nibbles: "a < 16 \<Longrightarrow> b < 16 \<Longrightarrow> push_bit 4 a OR b = 16 * a + b" for a b :: nat
  using or_shift_eq_add [of "int b" 4 "int a"]
proof -
  assume "a < 16" "b < 16"
  then have "int (push_bit 4 a OR b) = int (16 * a + b)"
    using or_shift_eq_add [of "int b" 4 "int a"] by (simp add: of_nat_or_eq push_bit_of_nat)
  then show "push_bit 4 a OR b = 16 * a + b" by (simp only: of_nat_eq_iff)
qed

lemma char_code_less: "char_code c < 256"
proof -
  have "of_char c = (of_char c :: nat) mod 256"
    using of_char_of [of "of_char c :: nat"] by simp
  then show ?thesis unfolding char_code_def by (metis mod_less_divisor zero_less_numeral)
qed

lemma char_of_code [simp]: "char_of (char_code c) = c"
  by (simp add: char_code_def)

lemma hex_pair_digits: "hex_pair (hex_digit (char_code c div 16)) (hex_digit (char_code c mod 16)) = c"
proof -
  have "char_code c div 16 < 16" using char_code_less [of c] by (simp add: less_mult_imp_div_less)
  then show ?thesis by (simp add: hex_pair_def hex_to_int_digit nibbles)
qed

lemma form_safe_plain:
  "form_safe c \<Longrightarrow> c \<noteq> CHR ''%'' \<and> c \<noteq> CHR ''+'' \<and> c \<noteq> CHR ''&'' \<and> c \<noteq> CHR ''='' \<and> c \<noteq> NUL"
  by (auto simp: form_safe_def isalnum_def isdigit_def char_code_def)

lemma url_decode_encode: "url_decode (url_encode s @ t) = s @ url_decode t"
proof (induction s)
  case (Cons c s)
  then show ?case
    using form_safe_plain [of c]
    by (auto simp: url_encode_char_def url_decode_Cons plain_char_def hex_pair_digits)
qed simp

lemma url_encode_chars:
  "x \<in> set (url_encode s) \<Longrightarrow> form_safe x \<or> x = CHR ''%'' \<or> x = CHR ''+''"
proof (induction s)
  case (Cons c s)
  have "form_safe (hex_digit n)" if "n < 16" for n
    using that by (auto simp: form_safe_def isalnum_def isdigit_def hex_digit_def)
  moreover have "char_code c div 16 < 16" using char_code_less [of c] by (simp add: less_mult_imp_div_less)
  ultimately show ?case using Cons by (auto simp: url_encode_char_def split: if_splits)
qed simp

lemma url_encode_safe:
  "NUL \<notin> set (url_encode s)" "CHR ''&'' \<notin> set (url_encode s)" "CHR ''='' \<notin> set (url_encode s)"
  using url_encode_chars [of NUL s] url_encode_chars [of "CHR ''&''" s] url_encode_chars [of "CHR ''=''" s]
    form_safe_plain by auto

text \<open>What decoding in place leaves as the value of the field, as a string.\<close>

definition decoded_value :: "string \<Rightarrow> string option" where
  "decoded_value s = map_option c_str (urldecode_inplace (s @ [NUL]))"

lemma c_str_append_NUL: "c_str (t @ NUL # r) = c_str t"
  by (induction t) (simp_all add: c_str_def)

lemma c_str_prefix: "take (n + 1) buf = t @ [NUL] \<Longrightarrow> c_str buf = c_str t"
proof -
  assume "take (n + 1) buf = t @ [NUL]"
  then have "buf = t @ NUL # drop (n + 1) buf" by (metis append.assoc append_Cons append_Nil append_take_drop_id)
  then show "c_str buf = c_str t" by (metis c_str_append_NUL)
qed

lemma decoded_value_correct:
  "NUL \<notin> set s \<Longrightarrow> decoded_value s = Some (c_str (strip_tail (url_decode s)))"
proof -
  assume "NUL \<notin> set s"
  then obtain buf where "urldecode_inplace (s @ NUL # []) = Some buf"
      "take (length (strip_tail (url_decode s)) + 1) buf = strip_tail (url_decode s) @ [NUL]"
    by (rule urldecode_inplace_correct)
  then show "decoded_value s = Some (c_str (strip_tail (url_decode s)))"
    using c_str_prefix by (simp add: decoded_value_def)
qed

lemma strip_tail_id: "s = [] \<or> \<not> is_crlf (last s) \<Longrightarrow> strip_tail s = s"
  by (cases s rule: rev_cases) (simp_all add: strip_tail_snoc, simp add: strip_tail_def)

lemma decoded_value_encode:
  assumes "NUL \<notin> set s" "s = [] \<or> \<not> is_crlf (last s)"
  shows "decoded_value (url_encode s) = Some s"
  using decoded_value_correct [OF url_encode_safe(1)] url_decode_encode [of s "[]"]
    strip_tail_id [OF assms(2)] c_str_id [OF assms(1)] by simp

section \<open>The configuration page\<close>

definition TEMPLATE_MARK :: string where "TEMPLATE_MARK = ''{TEMPLATE:''"

text \<open>
  The text that replaces a key; \<open>key_start\<close> is the rest of the template from the key on.
\<close>

definition template_replacement :: "flash_config_t option \<Rightarrow> string \<Rightarrow> nat \<Rightarrow> string" where
  "template_replacement flash_config key_start key_len =
     (case flash_config of
        None \<Rightarrow> []
      | Some c \<Rightarrow>
          if key_len > 0 then
            if strncasecmp_eq key_start ''ssid'' key_len then c_str (wifi_ssid c)
            else if strncasecmp_eq key_start ''pwd'' key_len then c_str (wifi_password c)
            else if strncasecmp_eq key_start ''ntp'' key_len then c_str (ntp_server c)
            else []
          else [])"

text \<open>
  The loop from \<open>cursor\<close> on, \<open>out_len\<close> bytes written. \<open>max_len\<close> is
  \<open>HTML_FORM_MAX_LENGTH\<close>, which the build generates with the page.
\<close>

function expand_loop ::
  "nat \<Rightarrow> flash_config_t option \<Rightarrow> string \<Rightarrow> char list \<Rightarrow> nat \<Rightarrow> (int \<times> char list) option" where
  "expand_loop max_len flash_config cursor buffer_out out_len =
     (if cursor = [] then
        map_option (\<lambda>b. (ERR_OK, b)) (buf_put buffer_out out_len [NUL])
      else
        (case strstr cursor TEMPLATE_MARK of
           None \<Rightarrow>
             if out_len + length cursor \<ge> max_len then Some (ERR_MEM, buffer_out)
             else do {
               buffer_out \<leftarrow> buf_put buffer_out out_len cursor;
               map_option (\<lambda>b. (ERR_OK, b)) (buf_put buffer_out (out_len + length cursor) [NUL])
             }
         | Some prefix_len \<Rightarrow>
             if out_len + prefix_len \<ge> max_len then Some (ERR_MEM, buffer_out)
             else
               (case buf_put buffer_out out_len (take prefix_len cursor) of
                  None \<Rightarrow> None
                | Some buffer_out \<Rightarrow>
                    (let out_len = out_len + prefix_len;
                         key_start = drop (prefix_len + length TEMPLATE_MARK) cursor
                     in case strchr key_start CHR ''}'' of
                          None \<Rightarrow> Some (ERR_VAL, buffer_out)
                        | Some key_len \<Rightarrow>
                            (let replacement = template_replacement flash_config key_start key_len
                             in if out_len + length replacement \<ge> max_len
                                then Some (ERR_MEM, buffer_out)
                                else
                                  (case buf_put buffer_out out_len replacement of
                                     None \<Rightarrow> None
                                   | Some buffer_out \<Rightarrow>
                                       expand_loop max_len flash_config (drop (key_len + 1) key_start)
                                         buffer_out (out_len + length replacement)))))))"
  by pat_completeness auto
termination
  by (relation "measure (\<lambda>(m, c, cursor, out, n). length cursor)") auto

declare expand_loop.simps [simp del]

definition expand_html_template ::
  "nat \<Rightarrow> string \<Rightarrow> char list \<Rightarrow> flash_config_t option \<Rightarrow> (int \<times> char list) option" where
  "expand_html_template max_len buffer buffer_out flash_config =
     expand_loop max_len flash_config buffer buffer_out 0"

text \<open>Whatever the template and the configuration, the page stays inside its array.\<close>

lemma expand_loop_safe:
  "length out = max_len \<Longrightarrow> n < max_len \<Longrightarrow>
     \<exists>err out'. expand_loop max_len cfg cursor out n = Some (err, out') \<and> length out' = max_len"
proof (induction max_len cfg cursor out n rule: expand_loop.induct)
  case (1 max_len cfg cursor out n)
  show ?case
  proof (cases "cursor = []")
    case True
    then show ?thesis using "1.prems" by (subst expand_loop.simps) simp
  next
    case ne: False
    show ?thesis
    proof (cases "strstr cursor TEMPLATE_MARK")
      case None
      then show ?thesis
        using ne "1.prems" by (subst expand_loop.simps) auto
    next
      case (Some p)
      show ?thesis
      proof (cases "n + p \<ge> max_len")
        case True
        then show ?thesis using ne Some "1.prems" by (subst expand_loop.simps) simp
      next
        case fits: False
        have "p \<le> length cursor" using strstr_Some_imp [OF Some] by simp
        then obtain out1 where w: "buf_put out n (take p cursor) = Some out1" "length out1 = max_len"
          using fits "1.prems" buf_put_in [of n "take p cursor" out] buf_put_length by fastforce
        let ?key = "drop (p + length TEMPLATE_MARK) cursor"
        show ?thesis
        proof (cases "strchr ?key CHR ''}''")
          case None
          then show ?thesis
            using ne Some fits w by (subst expand_loop.simps) (simp add: Let_def)
        next
          case key: (Some k)
          let ?r = "template_replacement cfg ?key k"
          show ?thesis
          proof (cases "n + p + length ?r \<ge> max_len")
            case True
            then show ?thesis
              using ne Some fits w key by (subst expand_loop.simps) (simp add: Let_def)
          next
            case False
            then obtain out2 where w2: "buf_put out1 (n + p) ?r = Some out2" "length out2 = max_len"
              using w(2) buf_put_in [of "n + p" ?r out1] buf_put_length by fastforce
            have "expand_loop max_len cfg cursor out n
                = expand_loop max_len cfg (drop (k + 1) ?key) out2 (n + p + length ?r)"
              using ne Some fits w key False w2 by (subst expand_loop.simps) (simp add: Let_def)
            moreover have "\<exists>err out'. expand_loop max_len cfg (drop (k + 1) ?key) out2 (n + p + length ?r)
                = Some (err, out') \<and> length out' = max_len"
              using "1.IH" [OF ne Some fits w(1) refl refl key refl _ w2(1) w2(2)] False by simp
            ultimately show ?thesis by simp
          qed
        qed
      qed
    qed
  qed
qed

text \<open>A template: text and key, alternating, and the text behind the last key.\<close>

fun template_of :: "(string \<times> string) list \<Rightarrow> string \<Rightarrow> string" where
  "template_of [] tail = tail"
| "template_of ((t, k) # ps) tail = t @ TEMPLATE_MARK @ k @ CHR ''}'' # template_of ps tail"

definition key_is :: "string \<Rightarrow> string \<Rightarrow> bool" where
  "key_is k name \<longleftrightarrow> map tolower k = map tolower (take (length k) name)"

text \<open>The value of a key; keys are compared without case, up to the key's own length.\<close>

definition field_value :: "flash_config_t option \<Rightarrow> string \<Rightarrow> string" where
  "field_value flash_config k = (case flash_config of
     None \<Rightarrow> []
   | Some c \<Rightarrow> if k = [] then []
       else if key_is k ''ssid'' then c_str (wifi_ssid c)
       else if key_is k ''pwd'' then c_str (wifi_password c)
       else if key_is k ''ntp'' then c_str (ntp_server c) else [])"

fun render :: "flash_config_t option \<Rightarrow> (string \<times> string) list \<Rightarrow> string \<Rightarrow> string" where
  "render cfg [] tail = tail"
| "render cfg ((t, k) # ps) tail = t @ field_value cfg k @ render cfg ps tail"

definition template_ok :: "(string \<times> string) list \<Rightarrow> string \<Rightarrow> bool" where
  "template_ok ps tail \<longleftrightarrow> list_all (\<lambda>(t, k). strstr (t @ TEMPLATE_MARK) TEMPLATE_MARK = Some (length t)
     \<and> CHR ''}'' \<notin> set k) ps \<and> strstr tail TEMPLATE_MARK = None"

lemma template_replacement_value:
  "template_replacement cfg (k @ r) (length k) = field_value cfg k"
  by (auto simp: template_replacement_def field_value_def strncasecmp_eq_def key_is_def split: option.splits)

lemma strstr_mark:
  assumes "strstr (t @ m) m = Some (length t)"
  shows "strstr (t @ m @ r) m = Some (length t)"
proof (rule strstr_SomeI)
  show "prefixb m (drop (length t) (t @ m @ r))" by (simp add: prefixb_def)
  show "\<forall>k < length t. \<not> prefixb m (drop k (t @ m @ r))"
  proof (intro allI impI)
    fix k assume k: "k < length t"
    define x where "x = drop k (t @ m)"
    have x: "drop k (t @ m @ r) = x @ r" "length m \<le> length x" using k by (simp_all add: x_def)
    then have "take (length m) (drop k (t @ m @ r)) = take (length m) x" by simp
    then show "\<not> prefixb m (drop k (t @ m @ r))"
      using strstr_first [OF assms k, folded x_def] by (simp only: prefixb_def not_False_eq_True)
  qed
qed simp

text \<open>The state of the output: what is written so far in front of the rest of the array.\<close>

lemma buf_put_written:
  "length written + length xs \<le> length out \<Longrightarrow> take (length written) out = written \<Longrightarrow>
   \<exists>out'. buf_put out (length written) xs = Some out' \<and> length out' = length out
     \<and> take (length written + length xs) out' = written @ xs"
  by (auto simp: min_def)

lemma expand_loop_step:
  assumes "strstr (t @ TEMPLATE_MARK) TEMPLATE_MARK = Some (length t)" "CHR ''}'' \<notin> set k"
  shows "expand_loop max_len cfg (t @ TEMPLATE_MARK @ k @ CHR ''}'' # r) out n =
    (if n + length t \<ge> max_len then Some (ERR_MEM, out)
     else (case buf_put out n t of
        None \<Rightarrow> None
      | Some out \<Rightarrow>
          if n + length t + length (field_value cfg k) \<ge> max_len then Some (ERR_MEM, out)
          else (case buf_put out (n + length t) (field_value cfg k) of
              None \<Rightarrow> None
            | Some out \<Rightarrow> expand_loop max_len cfg r out (n + length t + length (field_value cfg k)))))"
proof -
  have "t @ TEMPLATE_MARK @ k @ CHR ''}'' # r \<noteq> []" by (simp add: TEMPLATE_MARK_def)
  moreover have "strstr (t @ TEMPLATE_MARK @ k @ CHR ''}'' # r) TEMPLATE_MARK = Some (length t)"
    using strstr_mark [OF assms(1)] by simp
  moreover have "strchr (k @ CHR ''}'' # r) CHR ''}'' = Some (length k)"
    using assms(2) by (rule strchr_append)
  ultimately show ?thesis
    by (subst expand_loop.simps)
      (simp add: Let_def template_replacement_value cong: if_cong option.case_cong)
qed

lemma render_length_le:
  "length (render cfg ps tail) \<le> length (template_of ps tail) + sum_list (map (\<lambda>(t, k). length (field_value cfg k)) ps)"
  by (induction ps) (auto simp: TEMPLATE_MARK_def)

lemma expand_loop_correct:
  assumes "template_ok ps tail" "length out = max_len" "length w < max_len" "take (length w) out = w"
  shows "\<exists>out'. length out' = max_len \<and>
    (if length (w @ render cfg ps tail) < max_len
     then expand_loop max_len cfg (template_of ps tail) out (length w) = Some (ERR_OK, out')
       \<and> take (length (w @ render cfg ps tail) + 1) out' = w @ render cfg ps tail @ [NUL]
     else expand_loop max_len cfg (template_of ps tail) out (length w) = Some (ERR_MEM, out'))"
  using assms
proof (induction ps arbitrary: out w)
  case Nil
  show ?case
  proof (cases "length w + length tail < max_len")
    case False
    then have "tail \<noteq> []" using Nil.prems by auto
    then show ?thesis
      using False Nil.prems by (subst (1 2) expand_loop.simps) (simp add: template_ok_def)
  next
    case True
    obtain out1 where o1: "buf_put out (length w) tail = Some out1" "length out1 = max_len"
        "take (length (w @ tail)) out1 = w @ tail"
      using buf_put_written [of w tail out] True Nil.prems by auto
    obtain out2 where o2: "buf_put out1 (length (w @ tail)) [NUL] = Some out2" "length out2 = max_len"
        "take (length (w @ tail) + 1) out2 = (w @ tail) @ [NUL]"
      using buf_put_written [of "w @ tail" "[NUL]" out1] True o1 by auto
    have "tail = [] \<Longrightarrow> out1 = out" using o1(1) Nil.prems(3,2) by simp
    then have "expand_loop max_len cfg tail out (length w) = Some (ERR_OK, out2)"
      using True Nil.prems(1) o1(1) o2(1) by (subst expand_loop.simps) (auto simp: template_ok_def)
    then show ?thesis using True o2 by auto
  qed
next
  case (Cons p ps)
  obtain t k where p: "p = (t, k)" by (cases p)
  have ok: "strstr (t @ TEMPLATE_MARK) TEMPLATE_MARK = Some (length t)" "CHR ''}'' \<notin> set k"
      "template_ok ps tail"
    using Cons.prems(1) by (auto simp: template_ok_def p)
  note step = expand_loop_step [OF ok(1,2), of max_len cfg _ out "length w"]
  let ?v = "field_value cfg k"
  show ?case
  proof (cases "length w + length t < max_len")
    case False
    then show ?thesis using step Cons.prems(2) by (auto simp: p)
  next
    case True
    obtain out1 where o1: "buf_put out (length w) t = Some out1" "length out1 = max_len"
        "take (length (w @ t)) out1 = w @ t"
      using buf_put_written [of w t out] True Cons.prems by auto
    show ?thesis
    proof (cases "length w + length t + length ?v < max_len")
      case False
      then show ?thesis using step True o1 by (auto simp: p)
    next
      case fits: True
      obtain out2 where o2: "buf_put out1 (length (w @ t)) ?v = Some out2" "length out2 = max_len"
          "take (length ((w @ t) @ ?v)) out2 = (w @ t) @ ?v"
        using buf_put_written [of "w @ t" ?v out1] fits o1 by auto
      show ?thesis
        using Cons.IH [OF ok(3) o2(2) _ o2(3)] step True fits o1(1) o2(1)
        by (auto simp: p add.assoc)
    qed
  qed
qed

section \<open>Properties\<close>

text \<open>
  C29: The in-place decoder on any terminated value: it reads and writes only the value's own bytes and
  its terminator, and leaves the decoded text there (escapes and plus signs replaced, line ends at
  the end removed), terminated; what lies behind the value in memory is untouched.
\<close>

theorem urldecode_inplace_computes:
  assumes "NUL \<notin> set s"
  shows "\<exists>buf. urldecode_inplace (s @ NUL # rest) = Some buf \<and> length buf = length s + 1 + length rest
    \<and> take (length (strip_tail (url_decode s)) + 1) buf = strip_tail (url_decode s) @ [NUL]
    \<and> drop (length s + 1) buf = rest"
  using urldecode_inplace_correct [OF assms] by metis

theorem urldecode_inplace_computes_witness:
  "\<exists>buf. urldecode_inplace (''a%42+%4'' @ NUL # ''xy'') = Some buf \<and> take 6 buf = ''aB %4'' @ [NUL]
    \<and> drop 8 buf = ''xy''"
proof -
  have d: "strip_tail (url_decode ''a%42+%4'') = ''aB %4''" by code_simp
  have "NUL \<notin> set ''a%42+%4''" by simp
  from urldecode_inplace_computes [OF this, of "''xy''"]
  show ?thesis unfolding d by (auto simp: eval_nat_numeral)
qed



lemma lower_chars: "char_of (115 :: nat) = CHR ''s''" "char_of (105 :: nat) = CHR ''i''"
  "char_of (100 :: nat) = CHR ''d''" "char_of (112 :: nat) = CHR ''p''" "char_of (119 :: nat) = CHR ''w''"
  "char_of (110 :: nat) = CHR ''n''" "char_of (116 :: nat) = CHR ''t''"
  by (simp_all add: char_of_def bit_0)

text \<open>
  C31: The page is the template with every key replaced by its value, terminated, exactly when it fits
  the array; otherwise the expansion reports ERR_MEM. In no case does it write outside the array.
\<close>

theorem expand_html_template_correct:
  assumes "template_ok ps tail" and "length out = max_len" and "0 < max_len"
  shows "\<exists>out'. length out' = max_len \<and> expand_html_template max_len (template_of ps tail) out cfg
      = Some (if length (render cfg ps tail) < max_len then ERR_OK else ERR_MEM, out')
    \<and> (length (render cfg ps tail) < max_len \<longrightarrow>
        take (length (render cfg ps tail) + 1) out' = render cfg ps tail @ [NUL])"
  using expand_loop_correct [OF assms(1,2), of "[]" cfg] assms(3)
  by (auto simp: expand_html_template_def split: if_splits)

definition sample_config :: flash_config_t where
  "sample_config = flash_config_zero\<lparr>wifi_ssid := ''net'' @ replicate 30 NUL,
     ntp_server := ''pool'' @ replicate 61 NUL, ntp_port := 123\<rparr>"

theorem expand_html_template_correct_witness:
  "\<exists>out'. expand_html_template 20 ''a{TEMPLATE:SSID}b'' (replicate 20 NUL) (Some sample_config)
     = Some (ERR_OK, out') \<and> take 6 out' = ''anetb'' @ [NUL]"
proof -
  have ok: "template_ok [(''a'', ''SSID'')] ''b''" by code_simp
  have r: "render (Some sample_config) [(''a'', ''SSID'')] ''b'' = ''anetb''"
    by (simp add: field_value_def key_is_def tolower_def char_code_def lower_chars
        sample_config_def c_str_def)
  have t: "template_of [(''a'', ''SSID'')] ''b'' = ''a{TEMPLATE:SSID}b''" by code_simp
  from expand_html_template_correct [OF ok, of "replicate 20 NUL" 20 "Some sample_config"]
  show ?thesis unfolding r t by (auto simp: eval_nat_numeral)
qed

text \<open>
  The configuration page always fits: with the array size the build computes (the template's
  length and the three fields' maximal lengths) a page with the three keys is expanded without
  error, for every stored configuration whose fields are terminated.
\<close>

lemma config_page_fits:
  assumes "template_ok [(t1, ''SSID''), (t2, ''PWD''), (t3, ''NTP'')] tail" and "wf_flash_config cfg"
    and "max_len = length (template_of [(t1, ''SSID''), (t2, ''PWD''), (t3, ''NTP'')] tail)
      + WIFI_SSID_MAX_LEN + WIFI_PASSWORD_MAX_LEN + HOSTNAME_MAX_LEN"
    and "length out = max_len"
  shows "\<exists>out'. expand_html_template max_len (template_of [(t1, ''SSID''), (t2, ''PWD''), (t3, ''NTP'')] tail)
      out (Some cfg) = Some (ERR_OK, out')
    \<and> c_str out' = c_str (t1 @ c_str (wifi_ssid cfg) @ t2 @ c_str (wifi_password cfg) @ t3
        @ c_str (ntp_server cfg) @ tail)"
proof -
  have k: "key_is ''SSID'' ''ssid''" "\<not> key_is ''PWD'' ''ssid''" "key_is ''PWD'' ''pwd''"
    "\<not> key_is ''NTP'' ''ssid''" "\<not> key_is ''NTP'' ''pwd''" "key_is ''NTP'' ''ntp''"
    by (simp_all add: key_is_def tolower_def char_code_def lower_chars)
  then have f: "field_value (Some cfg) ''SSID'' = c_str (wifi_ssid cfg)"
    "field_value (Some cfg) ''PWD'' = c_str (wifi_password cfg)"
    "field_value (Some cfg) ''NTP'' = c_str (ntp_server cfg)"
    by (simp_all add: field_value_def)
  let ?r = "render (Some cfg) [(t1, ''SSID''), (t2, ''PWD''), (t3, ''NTP'')] tail"
  have "length (c_str (wifi_ssid cfg)) \<le> WIFI_SSID_MAX_LEN"
    "length (c_str (wifi_password cfg)) \<le> WIFI_PASSWORD_MAX_LEN"
    "length (c_str (ntp_server cfg)) \<le> HOSTNAME_MAX_LEN"
    using assms(2) terminated_c_str_length by (auto simp: wf_flash_config_def)
  then have "length ?r < max_len" unfolding assms(3) by (simp add: f TEMPLATE_MARK_def)
  then obtain out' where o: "expand_html_template max_len
        (template_of [(t1, ''SSID''), (t2, ''PWD''), (t3, ''NTP'')] tail) out (Some cfg) = Some (ERR_OK, out')"
      "take (length ?r + 1) out' = ?r @ [NUL]"
    using expand_loop_correct [OF assms(1,4), of "[]" "Some cfg"]
    by (auto simp: expand_html_template_def split: if_splits)
  have "c_str out' = c_str ?r" using o(2) by (rule c_str_prefix)
  with o(1) show ?thesis by (simp add: f)
qed

end
