(* ===== verification/ConfigForm.thy ===== *)
theory ConfigForm
  imports HttpText
begin

text \<open>
  The POST body of the configuration page (src/src/wifi.c, the form branch of
  \<open>tcp_server_recv\<close>): the fields are split at \<open>&\<close>, decoded and stored one after
  the other in a copy of the configuration, until a number out of its range ends the loop. Stores
  into the fixed character arrays are bounds-checked (\<open>None\<close> is a store outside).
\<close>

section \<open>The code\<close>

definition MIN_TZ_OFFSET_MINS :: int where "MIN_TZ_OFFSET_MINS = - 12 * 60"
definition MAX_TZ_OFFSET_MINS :: int where "MAX_TZ_OFFSET_MINS = 14 * 60"
definition MIN_NTP_TIMEOUT_MS :: int where "MIN_NTP_TIMEOUT_MS = 1000"
definition MAX_NTP_TIMEOUT_MS :: int where "MAX_NTP_TIMEOUT_MS = 60000"

lemmas form_bounds = MIN_TZ_OFFSET_MINS_def MAX_TZ_OFFSET_MINS_def MIN_NTP_TIMEOUT_MS_def
  MAX_NTP_TIMEOUT_MS_def

definition dst_rule_of_value :: "string \<Rightarrow> dst_rule_t" where
  "dst_rule_of_value value =
     (if value = ''NA'' then DST_RULE_NA
      else if value = ''EU'' then DST_RULE_EU
      else if value = ''AU'' then DST_RULE_AU
      else if value = ''NZ'' then DST_RULE_NZ
      else if value = ''CL'' then DST_RULE_CL
      else if value = ''IL'' then DST_RULE_IL
      else DST_RULE_NONE)"

text \<open>One field. \<open>Some None\<close> is the \<open>break\<close> with \<open>invalid_param\<close> set.\<close>

definition apply_field :: "flash_config_t \<Rightarrow> string \<Rightarrow> string \<Rightarrow> flash_config_t option option" where
  "apply_field config key value =
     (if key = ''ssid'' then
        map_option (\<lambda>a. Some (config\<lparr>wifi_ssid := a\<rparr>))
          (strncpy (wifi_ssid config) value (length (wifi_ssid config) - 1))
      else if key = ''pwd'' then
        map_option (\<lambda>a. Some (config\<lparr>wifi_password := a\<rparr>))
          (strncpy (wifi_password config) value (length (wifi_password config) - 1))
      else if key = ''ntp'' then
        map_option (\<lambda>a. Some (config\<lparr>ntp_server := a\<rparr>))
          (strncpy (ntp_server config) value (length (ntp_server config) - 1))
      else if key = ''tz'' then
        (case parse_long_bounded value MIN_TZ_OFFSET_MINS MAX_TZ_OFFSET_MINS of
           None \<Rightarrow> Some None
         | Some tz_mins \<Rightarrow> Some (Some (config\<lparr>tz_offset_mins := word_of_int tz_mins\<rparr>)))
      else if key = ''dst'' then Some (Some (config\<lparr>dst_rule := dst_rule_of_value value\<rparr>))
      else if key = ''cto'' then
        (case parse_long_bounded value MIN_NTP_TIMEOUT_MS MAX_NTP_TIMEOUT_MS of
           None \<Rightarrow> Some None
         | Some timeout_ms \<Rightarrow> Some (Some (config\<lparr>ntp_timeout := word_of_int timeout_ms\<rparr>)))
      else if key = ''port'' then
        (case parse_long_bounded value 1 65535 of
           None \<Rightarrow> Some None
         | Some port \<Rightarrow> Some (Some (config\<lparr>ntp_port := word_of_int port\<rparr>)))
      else if key = ''led_on'' then Some (Some (config\<lparr>led_always_on := (value \<noteq> [] \<and> hd value = CHR ''1'')\<rparr>))
      else Some (Some config))"

text \<open>The loop over the pairs; the result is the configuration and \<open>invalid_param\<close>.\<close>

function form_loop :: "flash_config_t \<Rightarrow> string \<Rightarrow> (flash_config_t \<times> bool) option" where
  "form_loop config saveptr =
     (case strtok_r saveptr CHR ''&'' of
        None \<Rightarrow> Some (config, False)
      | Some (pair, saveptr') \<Rightarrow>
          (case strchr pair CHR ''='' of
             None \<Rightarrow> form_loop config saveptr'
           | Some eq \<Rightarrow>
               (case decoded_value (drop (eq + 1) pair) of
                  None \<Rightarrow> None
                | Some value \<Rightarrow>
                    (case apply_field config (take eq pair) value of
                       None \<Rightarrow> None
                     | Some None \<Rightarrow> Some (config, True)
                     | Some (Some config') \<Rightarrow> form_loop config' saveptr'))))"
  by pat_completeness auto
termination
  by (relation "measure (\<lambda>(config, s). length s)") (auto dest: strtok_r_shorter)

declare form_loop.simps [simp del]

text \<open>The configuration the fields are applied to: the caller's, or the defaults.\<close>

definition form_base :: "flash_config_t option \<Rightarrow> flash_config_t option" where
  "form_base flash_config = (case flash_config of
     Some c \<Rightarrow> Some c
   | None \<Rightarrow> do {
       let config = flash_config_zero\<lparr>dst_rule := DST_RULE_NONE, ntp_timeout := NTP_DEFAULT_TIMEOUT_MS,
         ntp_port := NTP_DEFAULT_PORT, led_always_on := False\<rparr>;
       s \<leftarrow> strncpy (ntp_server config) NTP_DEFAULT_SERVER (length (ntp_server config) - 1);
       Some (config\<lparr>ntp_server := s\<rparr>)
     })"

section \<open>Stored configurations\<close>

text \<open>What every consumer of a configuration relies on.\<close>

definition valid_config :: "flash_config_t \<Rightarrow> bool" where
  "valid_config c \<longleftrightarrow> wf_flash_config c
     \<and> MIN_TZ_OFFSET_MINS \<le> sint (tz_offset_mins c) \<and> sint (tz_offset_mins c) \<le> MAX_TZ_OFFSET_MINS
     \<and> MIN_NTP_TIMEOUT_MS \<le> uint (ntp_timeout c) \<and> uint (ntp_timeout c) \<le> MAX_NTP_TIMEOUT_MS
     \<and> 1 \<le> uint (ntp_port c)"

lemma strncpy_field:
  assumes "terminated_array n arr"
  obtains arr' where "strncpy arr value (length arr - 1) = Some arr'" "terminated_array n arr'"
    "c_str arr' = take n (c_str value)"
proof -
  have l: "length arr = Suc n" "arr ! n = NUL" using assms by (simp_all add: terminated_array_def)
  then obtain arr' where a: "strncpy arr value n = Some arr'" using strncpy_fits [of n arr "value"] by auto
  from strncpy_terminated [OF a l] show thesis
    using a l by (intro that [of arr']) (simp_all add: terminated_array_def)
qed

lemma sint_word_of_int_16: "- 720 \<le> k \<Longrightarrow> k \<le> 840 \<Longrightarrow> sint (word_of_int k :: u16) = k"
  by (simp add: signed_of_int signed_take_bit_int_eq_self)

lemma uint_word_of_int_small:
  "0 \<le> k \<Longrightarrow> k \<le> 65535 \<Longrightarrow> uint (word_of_int k :: u16) = k \<and> uint (word_of_int k :: u32) = k"
  by (simp add: unsigned_of_int take_bit_int_eq_self)

text \<open>Every field is stored inside the configuration and keeps it valid.\<close>

lemma apply_field_valid:
  assumes "valid_config c"
  shows "\<exists>r. apply_field c key value = Some r \<and> (\<forall>c'. r = Some c' \<longrightarrow> valid_config c')"
proof -
  have t: "terminated_array WIFI_SSID_MAX_LEN (wifi_ssid c)"
    "terminated_array WIFI_PASSWORD_MAX_LEN (wifi_password c)"
    "terminated_array HOSTNAME_MAX_LEN (ntp_server c)"
    using assms by (simp_all add: valid_config_def wf_flash_config_def)
  obtain s1 where s1: "strncpy (wifi_ssid c) value (length (wifi_ssid c) - 1) = Some s1"
      "terminated_array WIFI_SSID_MAX_LEN s1" using strncpy_field [OF t(1)] by blast
  obtain s2 where s2: "strncpy (wifi_password c) value (length (wifi_password c) - 1) = Some s2"
      "terminated_array WIFI_PASSWORD_MAX_LEN s2" using strncpy_field [OF t(2)] by blast
  obtain s3 where s3: "strncpy (ntp_server c) value (length (ntp_server c) - 1) = Some s3"
      "terminated_array HOSTNAME_MAX_LEN s3" using strncpy_field [OF t(3)] by blast
  have upd: "valid_config (c\<lparr>wifi_ssid := s1\<rparr>)" "valid_config (c\<lparr>wifi_password := s2\<rparr>)"
    "valid_config (c\<lparr>ntp_server := s3\<rparr>)" "valid_config (c\<lparr>dst_rule := rule\<rparr>)"
    "valid_config (c\<lparr>led_always_on := on\<rparr>)" for rule on
    using assms s1(2) s2(2) s3(2) by (simp_all add: valid_config_def wf_flash_config_def)
  have num: "parse_long_bounded value MIN_TZ_OFFSET_MINS MAX_TZ_OFFSET_MINS = Some k
      \<Longrightarrow> valid_config (c\<lparr>tz_offset_mins := word_of_int k\<rparr>)"
    "parse_long_bounded value MIN_NTP_TIMEOUT_MS MAX_NTP_TIMEOUT_MS = Some k
      \<Longrightarrow> valid_config (c\<lparr>ntp_timeout := word_of_int k\<rparr>)"
    "parse_long_bounded value 1 65535 = Some k \<Longrightarrow> valid_config (c\<lparr>ntp_port := word_of_int k\<rparr>)" for k
    using assms sint_word_of_int_16 [of k] uint_word_of_int_small [of k]
    by (auto simp: valid_config_def wf_flash_config_def form_bounds dest!: parse_long_bounded_range)
  show ?thesis
    unfolding apply_field_def using assms upd num
    by (simp add: s1(1) [unfolded One_nat_def] s2(1) [unfolded One_nat_def] s3(1) [unfolded One_nat_def]
        split: option.split)
qed

lemma strtok_r_NUL:
  "strtok_r s d = Some (tok, rest) \<Longrightarrow> NUL \<notin> set s \<Longrightarrow> NUL \<notin> set tok \<and> NUL \<notin> set rest"
proof -
  assume s: "strtok_r s d = Some (tok, rest)" "NUL \<notin> set s"
  let ?s = "dropWhile (\<lambda>c. c = d) s"
  have "set (tl xs) \<subseteq> set xs" for xs :: string by (cases xs) auto
  then have "set rest \<subseteq> set ?s" "set tok \<subseteq> set ?s"
    using s(1) set_dropWhileD [of _ "\<lambda>c. c \<noteq> d" ?s]
    by (fastforce simp: strtok_r_def Let_def dest: set_takeWhileD split: if_splits)+
  moreover have "set ?s \<subseteq> set s" by (auto dest: set_dropWhileD)
  ultimately show "NUL \<notin> set tok \<and> NUL \<notin> set rest" using s(2) by blast
qed

lemma form_loop_valid:
  "valid_config c \<Longrightarrow> NUL \<notin> set body \<Longrightarrow>
     \<exists>c' bad. form_loop c body = Some (c', bad) \<and> valid_config c'"
proof (induction c body rule: form_loop.induct)
  case (1 c s)
  show ?case
  proof (cases "strtok_r s CHR ''&''")
    case None
    then show ?thesis using "1.prems" by (subst form_loop.simps) auto
  next
    case (Some p)
    then obtain pair rest where tok: "strtok_r s CHR ''&'' = Some (pair, rest)" by (cases p) auto
    then have nul: "NUL \<notin> set pair" "NUL \<notin> set rest" using strtok_r_NUL "1.prems"(2) by blast+
    show ?thesis
    proof (cases "strchr pair CHR ''=''")
      case None
      then show ?thesis
        using "1.IH"(1) [OF tok refl None "1.prems"(1) nul(2)] tok by (subst form_loop.simps) simp
    next
      case (Some eq)
      have "NUL \<notin> set (drop (eq + 1) pair)" using nul(1) by (auto dest: in_set_dropD)
      then obtain v where v: "decoded_value (drop (eq + 1) pair) = Some v"
        using decoded_value_correct by blast
      obtain r where r: "apply_field c (take eq pair) v = Some r" "\<forall>c'. r = Some c' \<longrightarrow> valid_config c'"
        using apply_field_valid [OF "1.prems"(1)] by blast
      show ?thesis
      proof (cases r)
        case None
        then show ?thesis
          using tok Some v r "1.prems"(1) by (subst form_loop.simps) auto
      next
        case (Some c')
        then show ?thesis
          using "1.IH"(2) [OF tok refl \<open>strchr pair CHR ''='' = Some eq\<close> v, of "Some c'"] r tok
            \<open>strchr pair CHR ''='' = Some eq\<close> v nul(2)
          by (subst form_loop.simps) auto
      qed
    qed
  qed
qed

lemma form_base_valid:
  assumes "\<And>c. cfg = Some c \<Longrightarrow> valid_config c"
  obtains c where "form_base cfg = Some c" "valid_config c"
proof (cases cfg)
  case (Some c)
  then show thesis using assms that by (simp add: form_base_def)
next
  case None
  have "terminated_array HOSTNAME_MAX_LEN (ntp_server flash_config_zero)"
    using wf_flash_config_zero by (simp add: wf_flash_config_def)
  then obtain s where "strncpy (ntp_server flash_config_zero) NTP_DEFAULT_SERVER
      (length (ntp_server flash_config_zero) - 1) = Some s" "terminated_array HOSTNAME_MAX_LEN s"
    using strncpy_field by blast
  with None wf_flash_config_zero show thesis
    by (intro that) (auto simp: form_base_def valid_config_def wf_flash_config_def form_bounds
        flash_config_zero_def NTP_DEFAULT_TIMEOUT_MS_def NTP_DEFAULT_PORT_def)
qed

section \<open>Forms as a browser sends them\<close>

fun form_body :: "(string \<times> string) list \<Rightarrow> string" where
  "form_body [] = []"
| "form_body [(k, v)] = k @ CHR ''='' # url_encode v"
| "form_body ((k, v) # f # fs) = k @ CHR ''='' # url_encode v @ CHR ''&'' # form_body (f # fs)"

definition form_field_ok :: "string \<times> string \<Rightarrow> bool" where
  "form_field_ok f \<longleftrightarrow> list_all form_safe (fst f) \<and> NUL \<notin> set (snd f)
     \<and> (snd f = [] \<or> \<not> is_crlf (last (snd f)))"

text \<open>The reference: the fields applied in order, up to the first bad number.\<close>

fun apply_fields :: "flash_config_t \<Rightarrow> (string \<times> string) list \<Rightarrow> (flash_config_t \<times> bool) option" where
  "apply_fields c [] = Some (c, False)"
| "apply_fields c ((k, v) # fs) = (case apply_field c k v of
     None \<Rightarrow> None
   | Some None \<Rightarrow> Some (c, True)
   | Some (Some c') \<Rightarrow> apply_fields c' fs)"

lemma form_loop_pair:
  assumes "form_field_ok (k, v)" "strtok_r s CHR ''&'' = Some (k @ CHR ''='' # url_encode v, rest)"
  shows "form_loop c s = (case apply_field c k v of
     None \<Rightarrow> None | Some None \<Rightarrow> Some (c, True) | Some (Some c') \<Rightarrow> form_loop c' rest)"
proof -
  have "CHR ''='' \<notin> set k"
    using assms(1) form_safe_plain by (auto simp: form_field_ok_def list_all_iff)
  then have "strchr (k @ CHR ''='' # url_encode v) CHR ''='' = Some (length k)" by (rule strchr_append)
  moreover have "decoded_value (url_encode v) = Some v"
    using assms(1) by (intro decoded_value_encode) (simp_all add: form_field_ok_def)
  ultimately show ?thesis by (subst form_loop.simps) (simp add: assms(2))
qed

lemma form_loop_body:
  assumes "\<forall>f \<in> set fs. form_field_ok f"
  shows "form_loop c (form_body fs) = apply_fields c fs"
  using assms
proof (induction fs arbitrary: c rule: form_body.induct)
  case 1
  then show ?case by (subst form_loop.simps) simp
next
  case (2 k v)
  have amp: "CHR ''&'' \<notin> set (k @ CHR ''='' # url_encode v)"
    using 2 form_safe_plain url_encode_safe(2) by (auto simp: form_field_ok_def list_all_iff)
  have "form_loop c' [] = Some (c', False)" for c' by (subst form_loop.simps) simp
  then show ?case
    using form_loop_pair [OF _ strtok_r_last [OF _ amp]] 2 by (simp split: option.splits)
next
  case (3 k v f fs)
  have amp: "CHR ''&'' \<notin> set (k @ CHR ''='' # url_encode v)"
    using 3 form_safe_plain url_encode_safe(2) by (auto simp: form_field_ok_def list_all_iff)
  have "form_body ((k, v) # f # fs) = (k @ CHR ''='' # url_encode v) @ CHR ''&'' # form_body (f # fs)" by simp
  then show ?case
    using form_loop_pair [OF _ strtok_r_Cons [OF _ amp]] 3 by (simp split: option.splits)
qed

fun dst_value :: "dst_rule_t \<Rightarrow> string" where
  "dst_value DST_RULE_NONE = ''NONE''"
| "dst_value DST_RULE_NA = ''NA''"
| "dst_value DST_RULE_EU = ''EU''"
| "dst_value DST_RULE_AU = ''AU''"
| "dst_value DST_RULE_NZ = ''NZ''"
| "dst_value DST_RULE_CL = ''CL''"
| "dst_value DST_RULE_IL = ''IL''"

lemma dst_rule_of_value_inverse: "dst_rule_of_value (dst_value r) = r"
  by (cases r) (simp_all add: dst_rule_of_value_def)

lemma dst_value_chars: "NUL \<notin> set (dst_value r)" "\<not> is_crlf (last (dst_value r))"
  by (cases r; simp add: is_crlf_def)+

lemma int_string_chars:
  "x \<in> set (int_string k) \<Longrightarrow> isdigit x \<or> x = CHR ''-''" "int_string k \<noteq> []"
  using dec_string_digits by (auto simp: int_string_def list_all_iff split: if_splits)

lemma int_string_field: "form_field_ok (k, int_string n) \<longleftrightarrow> list_all form_safe k"
proof -
  have "\<not> isdigit NUL" "\<not> isdigit CHR 0x0D" "\<not> isdigit CHR 0x0A"
    by (simp_all add: isdigit_def char_code_def)
  then have "x \<noteq> NUL \<and> \<not> is_crlf x" if "x \<in> set (int_string n)" for x
    using int_string_chars(1) [OF that] by (auto simp: is_crlf_def)
  moreover have "last (int_string n) \<in> set (int_string n)" using int_string_chars(2) by simp
  ultimately show ?thesis by (auto simp: form_field_ok_def)
qed

section \<open>Properties\<close>

text \<open>
  C22: Whatever is posted, the fields are stored inside the configuration (the three text fields stay
  terminated), and the configuration stays valid: the timezone offset between -12 and +14 hours, the
  NTP timeout between 1 and 60 seconds, a port of at least 1. This holds from a valid configuration
  as well as from the defaults.
\<close>

theorem form_keeps_config_valid:
  assumes "cfg = Some c \<longrightarrow> valid_config c" and "cfg = None \<or> cfg = Some c" and "NUL \<notin> set body"
  shows "\<exists>base c' bad. form_base cfg = Some base \<and> form_loop base body = Some (c', bad) \<and> valid_config c'"
proof -
  obtain base where "form_base cfg = Some base" "valid_config base"
    using form_base_valid [of cfg] assms(1,2) by auto
  with form_loop_valid [OF this(2) assms(3)] show ?thesis by auto
qed

theorem form_keeps_config_valid_witness:
  "\<exists>base c' bad. form_base None = Some base \<and> form_loop base ''tz=9999&ssid=a&&=&port'' = Some (c', bad)
     \<and> valid_config c'"
  by (rule form_keeps_config_valid [where c = flash_config_zero]) simp_all

definition sample_config_valid :: flash_config_t where
  "sample_config_valid = flash_config_zero\<lparr>ntp_timeout := 10000, ntp_port := 123\<rparr>"

lemma sample_config_is_valid: "valid_config sample_config_valid"
  using wf_flash_config_zero
  by (simp add: valid_config_def sample_config_valid_def wf_flash_config_def form_bounds)
    (simp add: flash_config_zero_def)



definition bad_field :: "string \<times> string \<Rightarrow> bool" where
  "bad_field f \<longleftrightarrow>
     fst f = ''tz'' \<and> parse_long_bounded (snd f) MIN_TZ_OFFSET_MINS MAX_TZ_OFFSET_MINS = None
   \<or> fst f = ''cto'' \<and> parse_long_bounded (snd f) MIN_NTP_TIMEOUT_MS MAX_NTP_TIMEOUT_MS = None
   \<or> fst f = ''port'' \<and> parse_long_bounded (snd f) 1 65535 = None"

lemma apply_field_bad:
  "apply_field c k v = Some None \<longleftrightarrow> bad_field (k, v)"
  by (auto simp: apply_field_def bad_field_def split: option.splits)

lemma apply_fields_bad:
  assumes "valid_config c" "apply_fields c fs = Some (c', bad)"
  shows "bad \<longleftrightarrow> (\<exists>f \<in> set fs. bad_field f)"
  using assms
proof (induction fs arbitrary: c)
  case (Cons f fs)
  obtain k v where f: "f = (k, v)" by (cases f)
  obtain r where r: "apply_field c k v = Some r" "\<forall>c'. r = Some c' \<longrightarrow> valid_config c'"
    using apply_field_valid [OF Cons.prems(1)] by blast
  show ?case
    using Cons.IH Cons.prems(2) r apply_field_bad [of c k v] by (cases r) (auto simp: f)
qed simp



text \<open>
  A form without the checkbox's field leaves the LED setting as it is in the configuration the form
  is applied to. Browsers send nothing for an unchecked box, so a clock that has the LED on cannot be
  switched off from the page: only the defaults, used when no configuration is stored, have it off.
\<close>

lemma form_cannot_switch_led_off:
  assumes "led_always_on c" and "\<forall>f \<in> set fs. form_field_ok f \<and> fst f \<noteq> ''led_on''"
    and "form_loop c (form_body fs) = Some (c', bad)"
  shows "led_always_on c'"
proof -
  have "\<forall>f \<in> set fs. fst f \<noteq> ''led_on''" "apply_fields c fs = Some (c', bad)"
    using assms(2,3) form_loop_body [of fs c] by auto
  then show ?thesis
    using assms(1)
  proof (induction fs arbitrary: c)
    case (Cons f fs)
    obtain k v where f: "f = (k, v)" by (cases f)
    have "led_always_on c1" if "apply_field c k v = Some (Some c1)" for c1
      using that Cons.prems(1,3) by (auto simp: apply_field_def f split: if_splits option.splits)
    then show ?case using Cons by (auto simp: f split: option.splits)
  qed simp
qed

end
