(* ===== verification/TcpServer.thy ===== *)
theory TcpServer
  imports ConfigForm
begin

text \<open>
  The configuration web server of src/src/wifi.c: four connection slots behind the callbacks that
  lwIP calls (accept, recv, sent, poll, err). A control block is a number; \<open>pcb_arg\<close> is the
  argument registered with it, the index of its slot, and \<open>None\<close> once the callbacks are removed.
  What the stack and the flash handler answer within one callback is the record \<open>tcp_env\<close>; what the
  server does to the outside (bytes written, blocks closed or aborted, configurations handed to the
  store handler) is logged in the state. \<open>None\<close> is an access outside an array.
\<close>

section \<open>State\<close>

record tcp_connect_state_t =
  con_pcb :: "nat option"
  sent_len :: int
  headers :: "char list"
  header_len :: int
  result_len :: int
  con_gw :: "ip_addr_t option"
  con_flash_config :: "flash_config_t option"
  con_server_state :: bool

definition con_zero :: tcp_connect_state_t where
  "con_zero = \<lparr>con_pcb = None, sent_len = 0, headers = replicate TCP_IP_BUFFER_SIZE NUL, header_len = 0,
     result_len = 0, con_gw = None, con_flash_config = None, con_server_state = False\<rparr>"

datatype tcp_effect = TcpWrite nat string | TcpClose nat | TcpAbort nat

record tcp_server_t =
  server_pcb :: "nat option"
  complete :: bool
  gw :: ip_addr_t
  server_flash_config :: "flash_config_t option"
  active_connections :: int
  connections :: "tcp_connect_state_t list"
  html_form_expanded :: "char list"
  pcb_arg :: "nat \<Rightarrow> nat option"
  effects :: "tcp_effect list"
  stored :: "flash_config_t list"

record tcp_env =
  env_close :: int
  env_store_ok :: bool
  env_ntoa :: "ip_addr_t \<Rightarrow> string"

definition emit :: "tcp_effect list \<Rightarrow> tcp_server_t \<Rightarrow> tcp_server_t" where
  "emit es s = s\<lparr>effects := effects s @ es\<rparr>"

definition set_con :: "nat \<Rightarrow> tcp_connect_state_t \<Rightarrow> tcp_server_t \<Rightarrow> tcp_server_t" where
  "set_con i c s = s\<lparr>connections := (connections s)[i := c]\<rparr>"

text \<open>\<open>strlen\<close> on an array: only when the array holds a terminator.\<close>

definition arr_string :: "char list \<Rightarrow> string option" where
  "arr_string a = (if NUL \<in> set a then Some (c_str a) else None)"

text \<open>\<open>snprintf(a, sizeof(a), ...)\<close> of the text \<open>s\<close>; the length returned is that of \<open>s\<close>.\<close>

definition snprintf :: "char list \<Rightarrow> string \<Rightarrow> char list option" where
  "snprintf a s = buf_put a 0 (take (length a - 1) s @ [NUL])"

section \<open>Closing\<close>

text \<open>\<open>tcp_close_client_connection\<close>; the slot is \<open>None\<close> for a null \<open>con_state\<close>.\<close>

definition close_slot :: "nat option \<Rightarrow> tcp_server_t \<Rightarrow> tcp_server_t" where
  "close_slot con s = (case con of
     None \<Rightarrow> s
   | Some i \<Rightarrow> if con_server_state (connections s ! i)
       then s\<lparr>active_connections := active_connections s - 1\<rparr> else s)"

definition zero_slot :: "nat option \<Rightarrow> tcp_server_t \<Rightarrow> tcp_server_t" where
  "zero_slot con s = (case con of None \<Rightarrow> s | Some i \<Rightarrow> set_con i con_zero s)"

definition tcp_close_client_connection ::
  "tcp_env \<Rightarrow> nat option \<Rightarrow> nat option \<Rightarrow> int \<Rightarrow> tcp_server_t \<Rightarrow> tcp_server_t \<times> int" where
  "tcp_close_client_connection env con client_pcb close_err s =
     (case client_pcb of
        Some p \<Rightarrow>
          (let s = close_slot con s;
               s = s\<lparr>pcb_arg := (pcb_arg s)(p := None)\<rparr>;
               s = emit [TcpClose p] s;
               (s, close_err) = (if env_close env \<noteq> ERR_OK then (emit [TcpAbort p] s, ERR_ABRT)
                 else (s, close_err))
           in (zero_slot con s, close_err))
      | None \<Rightarrow> (case con of
          Some i \<Rightarrow> (zero_slot con (close_slot con s), close_err)
        | None \<Rightarrow> (s, close_err)))"

definition tcp_server_close :: "tcp_server_t \<Rightarrow> tcp_server_t" where
  "tcp_server_close s = (case server_pcb s of
     None \<Rightarrow> s
   | Some p \<Rightarrow> (emit [TcpClose p] s)\<lparr>server_pcb := None\<rparr>)"

definition tcp_server_sent :: "tcp_env \<Rightarrow> nat \<Rightarrow> nat \<Rightarrow> nat \<Rightarrow> tcp_server_t \<Rightarrow> tcp_server_t \<times> int" where
  "tcp_server_sent env i pcb len s =
     (let c = connections s ! i; c = c\<lparr>sent_len := sent_len c + int len\<rparr>; s = set_con i c s
      in if sent_len c \<ge> header_len c + result_len c
         then tcp_close_client_connection env (Some i) (Some pcb) ERR_OK s
         else (s, ERR_OK))"

definition tcp_server_poll :: "tcp_env \<Rightarrow> nat \<Rightarrow> nat \<Rightarrow> tcp_server_t \<Rightarrow> tcp_server_t \<times> int" where
  "tcp_server_poll env i pcb s = tcp_close_client_connection env (Some i) (Some pcb) ERR_OK s"

definition tcp_server_err :: "tcp_env \<Rightarrow> nat option \<Rightarrow> int \<Rightarrow> tcp_server_t \<Rightarrow> tcp_server_t" where
  "tcp_server_err env arg err s = (case arg of
     None \<Rightarrow> s
   | Some i \<Rightarrow> fst (tcp_close_client_connection env (Some i) None err s))"

section \<open>Accepting and opening\<close>

text \<open>The first slot without a control block.\<close>

fun free_slot :: "tcp_connect_state_t list \<Rightarrow> nat \<Rightarrow> nat option" where
  "free_slot [] i = None"
| "free_slot (c # cs) i = (if con_pcb c = None then Some i else free_slot cs (i + 1))"

definition tcp_server_accept :: "nat option \<Rightarrow> int \<Rightarrow> tcp_server_t \<Rightarrow> tcp_server_t \<times> int" where
  "tcp_server_accept client_pcb err s =
     (if err \<noteq> ERR_OK then (s, ERR_VAL)
      else (case client_pcb of
        None \<Rightarrow> (s, ERR_VAL)
      | Some p \<Rightarrow>
          (let s = s\<lparr>active_connections := active_connections s + 1\<rparr>
           in if active_connections s > int TCP_IP_MAX_CONNECTIONS
              then (s\<lparr>active_connections := active_connections s - 1\<rparr>, ERR_ABRT)
              else (case free_slot (connections s) 0 of
                None \<Rightarrow> (s, ERR_MEM)
              | Some i \<Rightarrow>
                  (let c = con_zero\<lparr>con_server_state := True, con_flash_config := server_flash_config s,
                         con_pcb := Some p, con_gw := Some (gw s)\<rparr>;
                       s = set_con i c s
                   in (s\<lparr>pcb_arg := (pcb_arg s)(p := Some i)\<rparr>, ERR_OK))))))"

text \<open>The three calls that may fail: allocation, binding, listening.\<close>

definition tcp_server_open ::
  "nat option \<Rightarrow> int \<Rightarrow> nat option \<Rightarrow> tcp_server_t \<Rightarrow> tcp_server_t \<times> bool" where
  "tcp_server_open new_pcb bind_err listen_pcb s =
     (case new_pcb of
        None \<Rightarrow> (s, False)
      | Some pcb \<Rightarrow>
          if bind_err \<noteq> ERR_OK then (s, False)
          else
            (let s = s\<lparr>server_pcb := listen_pcb\<rparr>
             in case listen_pcb of
                  None \<Rightarrow> (emit [TcpClose pcb] s, False)
                | Some _ \<Rightarrow> (s, True)))"

section \<open>Requests\<close>

definition CRLF :: string where "CRLF = [CHR 0x0D, CHR 0x0A]"

definition HTTP_CONFIG_URL :: string where "HTTP_CONFIG_URL = ''/clock-config''"

definition HTTP_RESPONSE_OK_HEADER :: string where
  "HTTP_RESPONSE_OK_HEADER = ''HTTP/1.1 200 OK'' @ CRLF @ ''Content-Type: text/html; charset=utf-8'' @ CRLF
     @ ''Connection: close'' @ CRLF @ CRLF"

definition HTTP_RESPONSE_REDIRECT_HEADER :: "string \<Rightarrow> string" where
  "HTTP_RESPONSE_REDIRECT_HEADER ip = ''HTTP/1.1 302 Found'' @ CRLF @ ''Location: http://'' @ ip
     @ HTTP_CONFIG_URL @ CRLF @ ''Connection: close'' @ CRLF @ CRLF"

definition bad_req_msg :: string where
  "bad_req_msg = ''HTTP/1.1 400 Bad Request'' @ CRLF @ ''Connection: close'' @ CRLF @ CRLF
     @ ''Invalid config fields.''"
definition success_msg :: string where
  "success_msg = ''HTTP/1.1 200 OK'' @ CRLF @ ''Connection: close'' @ CRLF @ CRLF @ ''Saved! Rebooting...''"
definition fail_msg :: string where
  "fail_msg = ''HTTP/1.1 500 Error'' @ CRLF @ ''Connection: close'' @ CRLF @ CRLF @ ''Failed to save to Flash.''"

text \<open>Appending a packet to the request, as much as the buffer has room for.\<close>

definition chars_of_bytes :: "u8 list \<Rightarrow> string" where
  "chars_of_bytes bs = map (\<lambda>b. char_of (unat b)) bs"

definition append_packet :: "char list \<Rightarrow> pbuf \<Rightarrow> char list option" where
  "append_packet hdrs p =
     (if tot_len p > 0 then do {
        s \<leftarrow> arr_string hdrs;
        let current_len = length s;
        let available_space = length hdrs - current_len - 1;
        let copy_len = (if tot_len p > available_space then available_space else tot_len p);
        hdrs \<leftarrow> buf_put hdrs current_len (chars_of_bytes (pbuf_copy_partial p copy_len 0));
        buf_put hdrs (current_len + copy_len) [NUL]
      } else Some hdrs)"

datatype request_check = Proceed | Incomplete | Reject

text \<open>Has the whole request arrived? \<open>Reject\<close> closes the connection with ERR_VAL.\<close>

definition CONTENT_LENGTH :: string where "CONTENT_LENGTH = ''Content-Length: ''"

definition expected_body_len :: "string \<Rightarrow> int option" where
  "expected_body_len request =
     (case strstr request CONTENT_LENGTH of
        None \<Rightarrow> Some 0
      | Some content_len_ptr \<Rightarrow>
          (case strstr (drop content_len_ptr request) CRLF of
             None \<Rightarrow> None
           | Some line_end \<Rightarrow>
               (let raw_len = line_end - 16
                in if raw_len = 0 \<or> raw_len \<ge> 16 then None
                   else parse_long_bounded (take raw_len (drop (content_len_ptr + 16) request)) 0 INT_MAX)))"

definition is_post :: "string \<Rightarrow> bool" where "is_post request = strncmp_eq request ''POST '' 5"

definition check_request :: "string \<Rightarrow> request_check" where
  "check_request request =
     (if is_post request then
        (case expected_body_len request of
           None \<Rightarrow> Reject
         | Some expected \<Rightarrow>
             (case strstr request (CRLF @ CRLF) of
                None \<Rightarrow> Incomplete
              | Some body \<Rightarrow> if int (length (drop (body + 4) request)) < expected then Incomplete else Proceed))
      else (case strstr request CRLF of None \<Rightarrow> Incomplete | Some _ \<Rightarrow> Proceed))"

text \<open>Route A: the posted form.\<close>

definition handle_post :: "tcp_env \<Rightarrow> nat \<Rightarrow> nat \<Rightarrow> string \<Rightarrow> tcp_server_t \<Rightarrow> (tcp_server_t \<times> int) option" where
  "handle_post env i pcb request s = do {
     config \<leftarrow> form_base (con_flash_config (connections s ! i));
     (case strstr request (CRLF @ CRLF) of
        Some b \<Rightarrow>
          (let body = drop (b + 4) request in
           if length body \<ge> TCP_IP_BUFFER_SIZE
           then Some (tcp_close_client_connection env (Some i) (Some pcb) ERR_MEM s)
           else do {
             (config, invalid_param) \<leftarrow> form_loop config body;
             if invalid_param then Some (emit [TcpWrite pcb bad_req_msg] s, ERR_OK)
             else
               (let s = s\<lparr>stored := stored s @ [config]\<rparr>
                in if env_store_ok env
                   then Some ((emit [TcpWrite pcb success_msg] s)\<lparr>complete := True\<rparr>, ERR_OK)
                   else Some (emit [TcpWrite pcb fail_msg] s, ERR_OK))
           })
      | None \<Rightarrow>
          (let s = s\<lparr>stored := stored s @ [config]\<rparr>
           in if env_store_ok env
              then Some ((emit [TcpWrite pcb success_msg] s)\<lparr>complete := True\<rparr>, ERR_OK)
              else Some (emit [TcpWrite pcb fail_msg] s, ERR_OK)))
   }"

text \<open>Routes B and C: a response header goes into the slot's buffer and is written from there.\<close>

definition handle_page :: "tcp_env \<Rightarrow> nat \<Rightarrow> nat \<Rightarrow> tcp_server_t \<Rightarrow> (tcp_server_t \<times> int) option" where
  "handle_page env i pcb s = do {
     html \<leftarrow> arr_string (html_form_expanded s);
     let c = connections s ! i;
     hdrs \<leftarrow> snprintf (headers c) HTTP_RESPONSE_OK_HEADER;
     let c = c\<lparr>headers := hdrs, header_len := int (length HTTP_RESPONSE_OK_HEADER)\<rparr>;
     let s = set_con i c s;
     if header_len c \<le> 0 \<or> header_len c \<ge> int (length (headers c))
     then Some (tcp_close_client_connection env (Some i) (Some pcb) ERR_MEM s)
     else do {
       let s = set_con i (c\<lparr>result_len := int (length html)\<rparr>) s;
       Some (emit [TcpWrite pcb (take (length HTTP_RESPONSE_OK_HEADER) (headers c)),
         TcpWrite pcb (take (length html mod 65536) html)] s, ERR_OK)
     }
   }"

definition handle_redirect :: "tcp_env \<Rightarrow> nat \<Rightarrow> nat \<Rightarrow> tcp_server_t \<Rightarrow> (tcp_server_t \<times> int) option" where
  "handle_redirect env i pcb s = do {
     let c = connections s ! i;
     addr \<leftarrow> con_gw c;
     let text = HTTP_RESPONSE_REDIRECT_HEADER (env_ntoa env addr);
     hdrs \<leftarrow> snprintf (headers c) text;
     let c = c\<lparr>headers := hdrs, header_len := int (length text)\<rparr>;
     let s = set_con i c s;
     if header_len c \<le> 0 \<or> header_len c \<ge> int (length (headers c))
     then Some (tcp_close_client_connection env (Some i) (Some pcb) ERR_MEM s)
     else Some (emit [TcpWrite pcb (take (length text) (headers c))] s, ERR_OK)
   }"

definition is_config_page :: "string \<Rightarrow> bool" where
  "is_config_page request \<longleftrightarrow>
     strncmp_eq request (''GET '' @ HTTP_CONFIG_URL) (4 + length HTTP_CONFIG_URL) \<or> strncmp_eq request ''GET / '' 6"

definition tcp_server_recv ::
  "tcp_env \<Rightarrow> nat \<Rightarrow> nat \<Rightarrow> pbuf option \<Rightarrow> tcp_server_t \<Rightarrow> (tcp_server_t \<times> int) option" where
  "tcp_server_recv env i pcb p s =
     (case p of
        None \<Rightarrow> Some (tcp_close_client_connection env (Some i) (Some pcb) ERR_OK s)
      | Some p \<Rightarrow> do {
          hdrs \<leftarrow> append_packet (headers (connections s ! i)) p;
          let s = set_con i ((connections s ! i)\<lparr>headers := hdrs\<rparr>) s;
          request \<leftarrow> arr_string hdrs;
          (case check_request request of
             Reject \<Rightarrow> Some (tcp_close_client_connection env (Some i) (Some pcb) ERR_VAL s)
           | Incomplete \<Rightarrow> Some (s, ERR_OK)
           | Proceed \<Rightarrow>
               if is_post request then handle_post env i pcb request s
               else if is_config_page request then handle_page env i pcb s
               else handle_redirect env i pcb s)
        })"

section \<open>The callbacks as lwIP makes them\<close>

datatype tcp_event = Accept "nat option" int | Recv nat "pbuf option" | Sent nat nat | Poll nat | Err nat int

text \<open>
  A callback is made with the argument registered for its control block, and not at all once the
  callbacks are removed. A new connection has a block that is not in use. The block is freed before
  the error callback.
\<close>

definition tcp_dispatch :: "tcp_server_t \<Rightarrow> tcp_env \<times> tcp_event \<Rightarrow> tcp_server_t option" where
  "tcp_dispatch s e = (case e of (env, ev) \<Rightarrow> (case ev of
     Accept client err \<Rightarrow>
       (case client of
          Some p \<Rightarrow> if pcb_arg s p \<noteq> None then Some s else Some (fst (tcp_server_accept client err s))
        | None \<Rightarrow> Some (fst (tcp_server_accept client err s)))
   | Recv p pb \<Rightarrow> (case pcb_arg s p of
        None \<Rightarrow> Some s
      | Some i \<Rightarrow> map_option fst (tcp_server_recv env i p pb s))
   | Sent p len \<Rightarrow> (case pcb_arg s p of
        None \<Rightarrow> Some s
      | Some i \<Rightarrow> Some (fst (tcp_server_sent env i p len s)))
   | Poll p \<Rightarrow> (case pcb_arg s p of
        None \<Rightarrow> Some s
      | Some i \<Rightarrow> Some (fst (tcp_server_poll env i p s)))
   | Err p err \<Rightarrow> (case pcb_arg s p of
        None \<Rightarrow> Some s
      | Some i \<Rightarrow> Some ((tcp_server_err env (Some i) err s)\<lparr>pcb_arg := (pcb_arg s)(p := None)\<rparr>))))"

definition tcp_event_ok :: "tcp_env \<times> tcp_event \<Rightarrow> bool" where
  "tcp_event_ok e \<longleftrightarrow> (case snd e of Recv p (Some pb) \<Rightarrow> pbuf_sane pb | _ \<Rightarrow> True)"

section \<open>The invariant\<close>

definition buffer_ok :: "char list \<Rightarrow> bool" where
  "buffer_ok h \<longleftrightarrow> length h = TCP_IP_BUFFER_SIZE \<and> NUL \<in> set h"

definition con_ok :: "tcp_server_t \<Rightarrow> tcp_connect_state_t \<Rightarrow> bool" where
  "con_ok s c \<longleftrightarrow> buffer_ok (headers c) \<and> (con_server_state c \<longleftrightarrow> con_pcb c \<noteq> None)
     \<and> (con_pcb c \<noteq> None \<longrightarrow> con_gw c = Some (gw s) \<and> con_flash_config c = server_flash_config s)"

definition used :: "tcp_server_t \<Rightarrow> nat" where
  "used s = length (filter (\<lambda>c. con_pcb c \<noteq> None) (connections s))"

definition tcp_inv :: "tcp_server_t \<Rightarrow> bool" where
  "tcp_inv s \<longleftrightarrow> length (connections s) = TCP_IP_MAX_CONNECTIONS
     \<and> (\<forall>c \<in> set (connections s). con_ok s c) \<and> NUL \<in> set (html_form_expanded s)
     \<and> (\<forall>p i. pcb_arg s p = Some i \<longleftrightarrow> i < TCP_IP_MAX_CONNECTIONS \<and> con_pcb (connections s ! i) = Some p)
     \<and> active_connections s = int (used s)
     \<and> (\<forall>c. server_flash_config s = Some c \<longrightarrow> valid_config c) \<and> (\<forall>c \<in> set (stored s). valid_config c)"

lemma filter_update:
  assumes "i < length xs"
  shows "length (filter P (xs[i := x])) + (if P (xs ! i) then 1 else 0)
    = length (filter P xs) + (if P x then 1 else 0)"
proof -
  have "xs = take i xs @ xs ! i # drop (Suc i) xs" using assms by (simp add: id_take_nth_drop)
  then have "length (filter P xs) = length (filter P (take i xs @ xs ! i # drop (Suc i) xs))" by simp
  then show ?thesis using assms by (simp add: upd_conv_take_nth_drop)
qed

lemma buffer_ok_con_zero: "con_ok s con_zero"
  by (simp add: con_ok_def con_zero_def buffer_ok_def TCP_IP_BUFFER_SIZE_def)

lemma tcp_inv_nth: "tcp_inv s \<Longrightarrow> i < 4 \<Longrightarrow> con_ok s (connections s ! i)"
  by (simp add: tcp_inv_def TCP_IP_MAX_CONNECTIONS_def)

text \<open>A slot that keeps its control block may change in any other way.\<close>

lemma tcp_inv_set_con:
  assumes "tcp_inv s" "i < 4" "con_pcb c = con_pcb (connections s ! i)" "con_ok s c"
  shows "tcp_inv (set_con i c s)"
proof -
  have len: "length (connections s) = 4" using assms(1) by (simp add: tcp_inv_def TCP_IP_MAX_CONNECTIONS_def)
  have "used (set_con i c s) = used s"
    using filter_update [of i "connections s" "\<lambda>c. con_pcb c \<noteq> None" c] assms(2,3) len
    by (simp add: used_def set_con_def split: if_splits)
  moreover have "con_pcb ((connections s)[i := c] ! j) = con_pcb (connections s ! j)" for j
    using assms(2,3) len by (cases "j = i") simp_all
  moreover have "\<forall>x \<in> set ((connections s)[i := c]). con_ok s x"
    using assms(1,4) by (auto simp: tcp_inv_def dest!: set_update_subset_insert [THEN subsetD])
  ultimately show ?thesis
    using assms(1) by (simp add: tcp_inv_def set_con_def used_def con_ok_def)
qed

lemma tcp_inv_emit [simp]: "tcp_inv (emit es s) = tcp_inv s"
  by (simp add: tcp_inv_def emit_def used_def con_ok_def)

lemma emit_fields [simp]:
  "connections (emit es s) = connections s" "pcb_arg (emit es s) = pcb_arg s"
  "active_connections (emit es s) = active_connections s" "stored (emit es s) = stored s"
  "complete (emit es s) = complete s" "effects (emit es s) = effects s @ es"
  "html_form_expanded (emit es s) = html_form_expanded s"
  "server_flash_config (emit es s) = server_flash_config s" "gw (emit es s) = gw s"
  by (simp_all add: emit_def)

text \<open>Releasing a slot: the slot is cleared, its block unregistered and the count decremented.\<close>

definition release :: "nat \<Rightarrow> nat \<Rightarrow> tcp_server_t \<Rightarrow> tcp_server_t" where
  "release i p s = s\<lparr>active_connections := active_connections s - 1, pcb_arg := (pcb_arg s)(p := None),
     connections := (connections s)[i := con_zero]\<rparr>"

lemma tcp_inv_release:
  assumes "tcp_inv s" "i < 4" "con_pcb (connections s ! i) = Some p"
  shows "tcp_inv (release i p s)"
proof -
  have len: "length (connections s) = 4" using assms(1) by (simp add: tcp_inv_def TCP_IP_MAX_CONNECTIONS_def)
  have "used (release i p s) + 1 = used s"
    using filter_update [of i "connections s" "\<lambda>c. con_pcb c \<noteq> None" con_zero] assms(2,3) len
    by (simp add: used_def release_def con_zero_def)
  moreover have "((pcb_arg s)(p := None)) q = Some j \<longleftrightarrow>
      j < 4 \<and> con_pcb ((connections s)[i := con_zero] ! j) = Some q" for q j
  proof -
    have reg: "pcb_arg s q = Some j \<longleftrightarrow> j < 4 \<and> con_pcb (connections s ! j) = Some q" for q j
      using assms(1) by (simp add: tcp_inv_def TCP_IP_MAX_CONNECTIONS_def)
    have "pcb_arg s p = Some i" using reg assms(2,3) by simp
    then show ?thesis
      using reg [of q j] reg [of p j] assms(2,3) len
      by (cases "j = i") (auto simp: con_zero_def)
  qed
  moreover have "\<forall>x \<in> set ((connections s)[i := con_zero]). con_ok s x"
    using assms(1) buffer_ok_con_zero by (auto simp: tcp_inv_def dest!: set_update_subset_insert [THEN subsetD])
  ultimately show ?thesis
    using assms(1) unfolding tcp_inv_def
    by (auto simp: release_def used_def con_ok_def TCP_IP_MAX_CONNECTIONS_def)
qed

lemma tcp_close_client:
  assumes "tcp_inv s" "i < 4" "con_pcb (connections s ! i) = Some p"
  shows "tcp_close_client_connection env (Some i) (Some p) e s =
    (emit (if env_close env \<noteq> ERR_OK then [TcpClose p, TcpAbort p] else [TcpClose p]) (release i p s),
     if env_close env \<noteq> ERR_OK then ERR_ABRT else e)"
proof -
  have "con_server_state (connections s ! i)"
    using tcp_inv_nth [OF assms(1,2)] assms(3) by (simp add: con_ok_def)
  then show ?thesis
    by (simp add: tcp_close_client_connection_def close_slot_def zero_slot_def set_con_def release_def
        emit_def Let_def)
qed

lemma tcp_inv_close:
  assumes "tcp_inv s" "i < 4" "con_pcb (connections s ! i) = Some p"
  shows "tcp_inv (fst (tcp_close_client_connection env (Some i) (Some p) e s))"
  using tcp_inv_release [OF assms] by (simp add: tcp_close_client [OF assms])

section \<open>Every callback keeps the invariant\<close>

lemma c_str_split: "NUL \<in> set h \<Longrightarrow> \<exists>r. h = c_str h @ NUL # r"
  by (induction h) (auto simp: c_str_def)

lemma append_packet_result:
  assumes "buffer_ok h" "pbuf_sane p"
  obtains h' where "append_packet h p = Some h'" "buffer_ok h'"
proof (cases "tot_len p > 0")
  case False
  then show thesis using assms that by (simp add: append_packet_def)
next
  case True
  from assms(1) obtain r where r: "h = c_str h @ NUL # r" and len: "length h = 8192"
    using c_str_split by (auto simp: buffer_ok_def TCP_IP_BUFFER_SIZE_def)
  let ?n = "length (c_str h)"
  have n: "?n < 8192" using arg_cong [OF r, of length] len by simp
  define k where "k = (if tot_len p > length h - ?n - 1 then length h - ?n - 1 else tot_len p)"
  have k: "?n + k < 8192" using n len by (auto simp: k_def)
  have "length (chars_of_bytes (pbuf_copy_partial p k 0)) \<le> k"
    using assms(2) by (simp add: pbuf_sane_def chars_of_bytes_def)
  then obtain h1 where h1: "buf_put h ?n (chars_of_bytes (pbuf_copy_partial p k 0)) = Some h1" "length h1 = 8192"
    using k len buf_put_in [of ?n "chars_of_bytes (pbuf_copy_partial p k 0)" h] buf_put_length by fastforce
  obtain h2 where h2: "buf_put h1 (?n + k) [NUL] = Some h2" "length h2 = 8192"
    using k h1(2) buf_put_in [of "?n + k" "[NUL]" h1] buf_put_length by fastforce
  moreover have "NUL \<in> set h2" using h2(1) by (auto simp: buf_put_Some_iff)
  moreover have "append_packet h p = Option.bind (buf_put h ?n (chars_of_bytes (pbuf_copy_partial p k 0)))
      (\<lambda>h. buf_put h (?n + k) [NUL])"
    using True assms(1) by (simp add: append_packet_def arr_string_def buffer_ok_def Let_def k_def)
  then have "append_packet h p = Some h2" using h1(1) h2(1) by simp
  ultimately show thesis by (intro that) (simp_all add: buffer_ok_def TCP_IP_BUFFER_SIZE_def)
qed

lemma buffer_ok_string: "buffer_ok h \<Longrightarrow> arr_string h = Some (c_str h)"
  by (simp add: buffer_ok_def arr_string_def)

lemma snprintf_result:
  assumes "buffer_ok h"
  obtains h' where "snprintf h t = Some h'" "buffer_ok h'" "length t < TCP_IP_BUFFER_SIZE \<Longrightarrow> take (length t) h' = t"
proof -
  have len: "length h = 8192" using assms by (simp add: buffer_ok_def TCP_IP_BUFFER_SIZE_def)
  then have "snprintf h t = Some ((take 8191 t @ [NUL]) @ drop (length (take 8191 t @ [NUL])) h)"
    by (simp add: snprintf_def)
  then show thesis
    by (rule that) (use len in \<open>auto simp: buffer_ok_def TCP_IP_BUFFER_SIZE_def\<close>)
qed

lemma c_str_drop_NUL: "NUL \<notin> set (drop n (c_str h))"
  using c_str_no_nul by (auto dest: in_set_dropD)

lemma length_drop_c_str: "buffer_ok h \<Longrightarrow> length (drop n (c_str h)) < TCP_IP_BUFFER_SIZE"
proof -
  assume "buffer_ok h"
  then obtain r where "h = c_str h @ NUL # r" "length h = TCP_IP_BUFFER_SIZE"
    using c_str_split by (auto simp: buffer_ok_def)
  then have "length (c_str h) < TCP_IP_BUFFER_SIZE"
    by (metis length_append length_Cons add_Suc_right less_add_Suc1)
  then show ?thesis by simp
qed

lemma tcp_inv_store:
  "tcp_inv s \<Longrightarrow> valid_config c \<Longrightarrow> tcp_inv (s\<lparr>stored := stored s @ [c]\<rparr>)"
  by (auto simp: tcp_inv_def used_def con_ok_def)

lemma tcp_inv_complete: "tcp_inv s \<Longrightarrow> tcp_inv (s\<lparr>complete := b\<rparr>)"
  by (auto simp: tcp_inv_def used_def con_ok_def)

lemma handle_post_inv:
  assumes "tcp_inv s" "i < 4" "con_pcb (connections s ! i) = Some p" "buffer_ok h"
  shows "\<exists>s' e. handle_post env i p (c_str h) s = Some (s', e) \<and> tcp_inv s'"
proof -
  have c: "con_flash_config (connections s ! i) = server_flash_config s"
    using tcp_inv_nth [OF assms(1,2)] assms(3) by (simp add: con_ok_def)
  then obtain base where b: "form_base (con_flash_config (connections s ! i)) = Some base" "valid_config base"
    using assms(1) form_base_valid [of "server_flash_config s"] by (auto simp: tcp_inv_def)
  show ?thesis
  proof (cases "strstr (c_str h) (CRLF @ CRLF)")
    case None
    then show ?thesis
      using b assms(1) tcp_inv_store tcp_inv_complete
      by (auto simp: handle_post_def Let_def)
  next
    case (Some k)
    let ?body = "drop (k + 4) (c_str h)"
    obtain c' bad where f: "form_loop base ?body = Some (c', bad)" "valid_config c'"
      using form_loop_valid [OF b(2) c_str_drop_NUL] by blast
    then show ?thesis
      using b Some length_drop_c_str [OF assms(4), of "k + 4"] assms(1) tcp_inv_store [OF assms(1) f(2)]
        tcp_inv_complete
      by (auto simp: handle_post_def Let_def)
  qed
qed

lemma header_lengths: "length HTTP_RESPONSE_OK_HEADER = 78"
  by (simp add: HTTP_RESPONSE_OK_HEADER_def CRLF_def)

lemma handle_page_inv:
  assumes "tcp_inv s" "i < 4" "con_pcb (connections s ! i) = Some p"
  shows "\<exists>s' e. handle_page env i p s = Some (s', e) \<and> tcp_inv s'"
proof -
  have len: "i < length (connections s)" using assms(1,2) by (simp add: tcp_inv_def TCP_IP_MAX_CONNECTIONS_def)
  let ?c = "connections s ! i"
  have ok: "con_ok s ?c" by (rule tcp_inv_nth [OF assms(1,2)])
  then have "buffer_ok (headers ?c)" by (simp add: con_ok_def)
  then obtain h where h: "snprintf (headers ?c) HTTP_RESPONSE_OK_HEADER = Some h" "buffer_ok h"
    by (rule snprintf_result)
  have html: "arr_string (html_form_expanded s) = Some (c_str (html_form_expanded s))"
    using assms(1) by (simp add: tcp_inv_def arr_string_def)
  let ?c' = "?c\<lparr>headers := h, header_len := int (length HTTP_RESPONSE_OK_HEADER),
    result_len := int (length (c_str (html_form_expanded s)))\<rparr>"
  have "tcp_inv (set_con i ?c' s)"
    by (rule tcp_inv_set_con [OF assms(1,2)]) (use ok h in \<open>simp_all add: con_ok_def\<close>)
  moreover have "length h = 8192" using h(2) by (simp add: buffer_ok_def TCP_IP_BUFFER_SIZE_def)
  ultimately show ?thesis
    using len by (simp add: handle_page_def html h Let_def set_con_def header_lengths)
qed

lemma handle_redirect_inv:
  assumes "tcp_inv s" "i < 4" "con_pcb (connections s ! i) = Some p"
  shows "\<exists>s' e. handle_redirect env i p s = Some (s', e) \<and> tcp_inv s'"
proof -
  have len: "i < length (connections s)" using assms(1,2) by (simp add: tcp_inv_def TCP_IP_MAX_CONNECTIONS_def)
  let ?c = "connections s ! i" and ?t = "HTTP_RESPONSE_REDIRECT_HEADER (env_ntoa env (gw s))"
  have ok: "con_ok s ?c" "con_gw ?c = Some (gw s)"
    using tcp_inv_nth [OF assms(1,2)] assms(3) by (simp_all add: con_ok_def)
  then have "buffer_ok (headers ?c)" by (simp add: con_ok_def)
  then obtain h where h: "snprintf (headers ?c) ?t = Some h" "buffer_ok h"
    by (rule snprintf_result)
  define c' where "c' = ?c\<lparr>headers := h, header_len := int (length ?t)\<rparr>"
  have inv: "tcp_inv (set_con i c' s)"
    by (rule tcp_inv_set_con [OF assms(1,2)]) (use ok h in \<open>simp_all add: con_ok_def c'_def\<close>)
  have "con_pcb (connections (set_con i c' s) ! i) = Some p"
    using len assms(3) by (simp add: set_con_def c'_def)
  note closed = tcp_inv_close [OF inv assms(2) this]
  have "handle_redirect env i p s = Some (if header_len c' \<le> 0 \<or> header_len c' \<ge> int (length (headers c'))
      then tcp_close_client_connection env (Some i) (Some p) ERR_MEM (set_con i c' s)
      else (emit [TcpWrite p (take (length ?t) (headers c'))] (set_con i c' s), ERR_OK))"
    by (simp add: handle_redirect_def ok(2) h c'_def Let_def)
  then show ?thesis using inv closed [of env ERR_MEM]
    by (cases "tcp_close_client_connection env (Some i) (Some p) ERR_MEM (set_con i c' s)") simp
qed

lemma tcp_server_recv_inv:
  assumes "tcp_inv s" "i < 4" "con_pcb (connections s ! i) = Some p"
    and "\<And>b. pb = Some b \<Longrightarrow> pbuf_sane b"
  shows "\<exists>s' e. tcp_server_recv env i p pb s = Some (s', e) \<and> tcp_inv s'"
proof (cases pb)
  case None
  then show ?thesis
    using tcp_inv_close [OF assms(1-3), of env ERR_OK]
    by (cases "tcp_close_client_connection env (Some i) (Some p) ERR_OK s") (simp add: tcp_server_recv_def)
next
  case (Some b)
  have len: "i < length (connections s)" using assms(1,2) by (simp add: tcp_inv_def TCP_IP_MAX_CONNECTIONS_def)
  have ok: "con_ok s (connections s ! i)" by (rule tcp_inv_nth [OF assms(1,2)])
  then have "buffer_ok (headers (connections s ! i))" by (simp add: con_ok_def)
  from append_packet_result [OF this assms(4) [OF Some]]
  obtain h where h: "append_packet (headers (connections s ! i)) b = Some h" "buffer_ok h" .
  define s1 where "s1 = set_con i ((connections s ! i)\<lparr>headers := h\<rparr>) s"
  have s1: "tcp_inv s1" unfolding s1_def
    by (rule tcp_inv_set_con [OF assms(1,2)]) (use ok h in \<open>simp_all add: con_ok_def\<close>)
  have pcb: "con_pcb (connections s1 ! i) = Some p" using len assms(3) by (simp add: s1_def set_con_def)
  have "tcp_server_recv env i p pb s = (case check_request (c_str h) of
      Reject \<Rightarrow> Some (tcp_close_client_connection env (Some i) (Some p) ERR_VAL s1)
    | Incomplete \<Rightarrow> Some (s1, ERR_OK)
    | Proceed \<Rightarrow> if is_post (c_str h) then handle_post env i p (c_str h) s1
        else if is_config_page (c_str h) then handle_page env i p s1 else handle_redirect env i p s1)"
    by (simp add: tcp_server_recv_def Some h(1) buffer_ok_string [OF h(2)] s1_def Let_def
        cong: request_check.case_cong)
  then show ?thesis
    using handle_post_inv [OF s1 assms(2) pcb h(2)] handle_page_inv [OF s1 assms(2) pcb]
      handle_redirect_inv [OF s1 assms(2) pcb] s1 tcp_inv_close [OF s1 assms(2) pcb, of env ERR_VAL]
    by (cases "tcp_close_client_connection env (Some i) (Some p) ERR_VAL s1")
      (auto split: request_check.splits)
qed

lemma tcp_server_sent_inv:
  assumes "tcp_inv s" "i < 4" "con_pcb (connections s ! i) = Some p"
  shows "tcp_inv (fst (tcp_server_sent env i p n s))"
proof -
  have len: "i < length (connections s)" using assms(1,2) by (simp add: tcp_inv_def TCP_IP_MAX_CONNECTIONS_def)
  define c where "c = (connections s ! i)\<lparr>sent_len := sent_len (connections s ! i) + int n\<rparr>"
  have s1: "tcp_inv (set_con i c s)"
    using tcp_inv_nth [OF assms(1,2)]
    by (intro tcp_inv_set_con [OF assms(1,2)]) (simp_all add: c_def con_ok_def)
  moreover have "con_pcb (connections (set_con i c s) ! i) = Some p"
    using len assms(3) by (simp add: set_con_def c_def)
  ultimately show ?thesis
    using tcp_inv_close [OF s1 assms(2)] by (simp add: tcp_server_sent_def Let_def c_def [symmetric])
qed

lemma tcp_server_err_inv:
  assumes "tcp_inv s" "i < 4" "con_pcb (connections s ! i) = Some p"
  shows "(tcp_server_err env (Some i) e s)\<lparr>pcb_arg := (pcb_arg s)(p := None)\<rparr> = release i p s"
proof -
  have "con_server_state (connections s ! i)"
    using tcp_inv_nth [OF assms(1,2)] assms(3) by (simp add: con_ok_def)
  then show ?thesis
    by (simp add: tcp_server_err_def tcp_close_client_connection_def close_slot_def zero_slot_def
        set_con_def release_def)
qed

lemma free_slot_Some:
  "free_slot cs k = Some i \<Longrightarrow> k \<le> i \<and> i < k + length cs \<and> con_pcb (cs ! (i - k)) = None"
proof (induction cs k rule: free_slot.induct)
  case (2 c cs k)
  then show ?case
    by (cases "con_pcb c = None") (auto simp: nth_Cons' dest!: Suc_le_lessD)
qed simp

lemma free_slot_None: "free_slot cs k = None \<Longrightarrow> length (filter (\<lambda>c. con_pcb c \<noteq> None) cs) = length cs"
  by (induction cs k rule: free_slot.induct) (auto split: if_splits)

text \<open>Up to the limit a slot is free, so the allocation failure of the accept callback cannot happen.\<close>

lemma tcp_server_accept_cases:
  assumes "tcp_inv s"
  shows "tcp_server_accept (Some p) ERR_OK s =
    (if used s \<ge> 4 then (s, ERR_ABRT)
     else (let i = the (free_slot (connections s) 0) in
       (s\<lparr>active_connections := active_connections s + 1, pcb_arg := (pcb_arg s)(p := Some i),
          connections := (connections s)[i := con_zero\<lparr>con_server_state := True,
            con_flash_config := server_flash_config s, con_pcb := Some p, con_gw := Some (gw s)\<rparr>]\<rparr>, ERR_OK)))"
proof -
  have inv: "active_connections s = int (used s)" "length (connections s) = 4"
    using assms by (simp_all add: tcp_inv_def TCP_IP_MAX_CONNECTIONS_def)
  show ?thesis
  proof (cases "used s \<ge> 4")
    case True
    then show ?thesis by (simp add: tcp_server_accept_def Let_def inv(1) TCP_IP_MAX_CONNECTIONS_def)
  next
    case False
    then have "free_slot (connections s) 0 \<noteq> None"
      using free_slot_None [of "connections s" 0] inv(2) by (auto simp: used_def)
    then show ?thesis
      using False by (auto simp: tcp_server_accept_def Let_def inv(1) TCP_IP_MAX_CONNECTIONS_def set_con_def)
  qed
qed

lemma tcp_server_accept_inv:
  assumes "tcp_inv s" "pcb_arg s p = None"
  shows "tcp_inv (fst (tcp_server_accept (Some p) e s))"
proof (cases "e = ERR_OK \<and> used s < 4")
  case False
  then show ?thesis
    using tcp_server_accept_cases [OF assms(1), of p] assms(1)
    by (cases "e = ERR_OK") (auto simp: tcp_server_accept_def)
next
  case True
  have len: "length (connections s) = 4" using assms(1) by (simp add: tcp_inv_def TCP_IP_MAX_CONNECTIONS_def)
  then obtain i where i: "free_slot (connections s) 0 = Some i"
    using free_slot_None [of "connections s" 0] True by (auto simp: used_def)
  then have i4: "i < 4" "con_pcb (connections s ! i) = None" using free_slot_Some [OF i] len by simp_all
  define c where "c = con_zero\<lparr>con_server_state := True, con_flash_config := server_flash_config s,
    con_pcb := Some p, con_gw := Some (gw s)\<rparr>"
  define s' where "s' = s\<lparr>active_connections := active_connections s + 1, pcb_arg := (pcb_arg s)(p := Some i),
    connections := (connections s)[i := c]\<rparr>"
  have "used s' = used s + 1"
    using filter_update [of i "connections s" "\<lambda>c. con_pcb c \<noteq> None" c] i4 len
    by (simp add: used_def s'_def c_def)
  moreover have "((pcb_arg s)(p := Some i)) q = Some j \<longleftrightarrow> j < 4 \<and> con_pcb ((connections s)[i := c] ! j) = Some q" for q j
  proof -
    have reg: "pcb_arg s q = Some j \<longleftrightarrow> j < 4 \<and> con_pcb (connections s ! j) = Some q" for q j
      using assms(1) by (simp add: tcp_inv_def TCP_IP_MAX_CONNECTIONS_def)
    show ?thesis
      using reg [of q j] reg [of p j] assms(2) i4 len by (cases "j = i") (auto simp: c_def)
  qed
  moreover have "\<forall>x \<in> set ((connections s)[i := c]). con_ok s x"
    using assms(1) buffer_ok_con_zero [of s]
    by (auto simp: tcp_inv_def c_def con_ok_def dest!: set_update_subset_insert [THEN subsetD])
  ultimately have "tcp_inv s'"
    using assms(1) unfolding tcp_inv_def
    by (auto simp: s'_def used_def con_ok_def TCP_IP_MAX_CONNECTIONS_def)
  then show ?thesis
    using tcp_server_accept_cases [OF assms(1), of p] True i by (simp add: s'_def c_def Let_def)
qed

interpretation tcp_machine: safe_machine tcp_dispatch tcp_inv tcp_event_ok
proof
  fix s and e :: "tcp_env \<times> tcp_event"
  assume s: "tcp_inv s" and ok: "tcp_event_ok e"
  obtain env ev where e: "e = (env, ev)" by (cases e)
  have reg: "i < 4 \<and> con_pcb (connections s ! i) = Some p" if "pcb_arg s p = Some i" for p i
    using s that by (simp add: tcp_inv_def TCP_IP_MAX_CONNECTIONS_def)
  show "\<exists>s'. tcp_dispatch s e = Some s' \<and> tcp_inv s'"
  proof (cases ev)
    case (Accept client err)
    then show ?thesis
      using s tcp_server_accept_inv [OF s] e
      by (cases client) (auto simp: tcp_dispatch_def tcp_server_accept_def)
  next
    case (Recv p pb)
    have sane: "\<And>b. pb = Some b \<Longrightarrow> pbuf_sane b" using ok e Recv by (simp add: tcp_event_ok_def)
    show ?thesis
    proof (cases "pcb_arg s p")
      case (Some i)
      then show ?thesis
        using tcp_server_recv_inv [OF s, of i p pb env] sane reg [OF Some] e Recv
        by (auto simp: tcp_dispatch_def)
    qed (use s e Recv in \<open>simp add: tcp_dispatch_def\<close>)
  next
    case (Sent p n)
    then show ?thesis
      using s e tcp_server_sent_inv [OF s] reg by (auto simp: tcp_dispatch_def split: option.splits)
  next
    case (Poll p)
    then show ?thesis
      using s e tcp_inv_close [OF s] reg
      by (auto simp: tcp_dispatch_def tcp_server_poll_def split: option.splits)
  next
    case (Err p err)
    then show ?thesis
      using s e tcp_server_err_inv [OF s] tcp_inv_release [OF s] reg
      by (auto simp: tcp_dispatch_def split: option.splits)
  qed
qed

section \<open>Requests in pieces\<close>

lemma chars_of_bytes_append [simp]: "chars_of_bytes (a @ b) = chars_of_bytes a @ chars_of_bytes b"
  by (simp add: chars_of_bytes_def)

lemma length_chars_of_bytes [simp]: "length (chars_of_bytes b) = length b"
  by (simp add: chars_of_bytes_def)

lemma chars_no_NUL: "0 \<notin> set b \<Longrightarrow> NUL \<notin> set (chars_of_bytes b)"
proof -
  assume "0 \<notin> set b"
  moreover have "char_of (unat x) = NUL \<longleftrightarrow> x = 0" for x :: u8
  proof
    assume "char_of (unat x) = NUL"
    then have "(of_char (char_of (unat x)) :: nat) = of_char NUL" by simp
    moreover have "unat x < 2 ^ LENGTH(8)" by (rule unsigned_less)
    then have "unat x < 256" by simp
    ultimately show "x = 0" by (simp add: unat_eq_zero)
  qed (simp add: char_of_def)
  ultimately show "NUL \<notin> set (chars_of_bytes b)"
    unfolding chars_of_bytes_def by (metis (no_types, lifting) imageE list.set_map)
qed

text \<open>A packet that fits is appended to the string in the buffer.\<close>

lemma append_packet_fits:
  assumes "buffer_ok h" "pbuf_holds p b" "0 \<notin> set b" "length (c_str h) + length b < TCP_IP_BUFFER_SIZE"
  defines "h' \<equiv> c_str h @ chars_of_bytes b @ NUL # drop (length (c_str h) + length b + 1) h"
  shows "append_packet h p = Some h'" "buffer_ok h'" "c_str h' = c_str h @ chars_of_bytes b"
proof -
  obtain r where r: "h = c_str h @ NUL # r" and len: "length h = 8192"
    using c_str_split assms(1) by (auto simp: buffer_ok_def TCP_IP_BUFFER_SIZE_def)
  let ?n = "length (c_str h)"
  have fits: "?n + length b < 8192" using assms(4) by (simp add: TCP_IP_BUFFER_SIZE_def)
  have take: "take ?n h = c_str h" by (subst r) simp
  show "append_packet h p = Some h'"
  proof (cases "b = []")
    case True
    have "drop ?n h = NUL # r" by (subst (2) r) simp
    then have "drop (?n + 1) h = r" by (metis drop_drop drop_Suc_Cons drop0 add.commute One_nat_def)
    then show ?thesis
      using True assms(2) r by (simp add: append_packet_def pbuf_holds_def h'_def chars_of_bytes_def)
  next
    case False
    have "arr_string h = Some (c_str h)" by (rule buffer_ok_string [OF assms(1)])
    moreover have "tot_len p = length b" "tot_len p > 0" "pbuf_copy_partial p (length b) 0 = b"
      using assms(2) False by (simp_all add: pbuf_holds_def)
    moreover have "\<not> length b > length h - ?n - 1" using fits len by simp
    moreover have "buf_put h ?n (chars_of_bytes b) = Some (c_str h @ chars_of_bytes b @ drop (?n + length b) h)"
      using fits len take by simp
    moreover have "buf_put (c_str h @ chars_of_bytes b @ drop (?n + length b) h) (?n + length b) [NUL] = Some h'"
      using fits len by (simp add: buf_put_def h'_def)
    ultimately show ?thesis by (simp add: append_packet_def Let_def)
  qed
  show "buffer_ok h'" using fits len by (simp add: buffer_ok_def h'_def TCP_IP_BUFFER_SIZE_def)
  have "NUL \<notin> set (c_str h @ chars_of_bytes b)" using chars_no_NUL [OF assms(3)] c_str_no_nul by auto
  then show "c_str h' = c_str h @ chars_of_bytes b"
    using c_str_append_nul [of "c_str h @ chars_of_bytes b"] by (simp add: h'_def)
qed

lemma append_packet_twice:
  assumes "buffer_ok h" "pbuf_holds p1 b1" "pbuf_holds p2 b2" "pbuf_holds p (b1 @ b2)" "0 \<notin> set (b1 @ b2)"
    "length (c_str h) + length (b1 @ b2) < TCP_IP_BUFFER_SIZE"
  obtains h1 where "append_packet h p1 = Some h1" "buffer_ok h1" "c_str h1 = c_str h @ chars_of_bytes b1"
    "append_packet h1 p2 = append_packet h p"
proof -
  define h1 where "h1 = c_str h @ chars_of_bytes b1 @ NUL # drop (length (c_str h) + length b1 + 1) h"
  have n1: "0 \<notin> set b1" "length (c_str h) + length b1 < TCP_IP_BUFFER_SIZE" using assms(5,6) by auto
  note a1 = append_packet_fits [OF assms(1,2) n1, folded h1_def]
  have "length (c_str h1) + length b2 < TCP_IP_BUFFER_SIZE" "0 \<notin> set b2" using a1(3) assms(5,6) by auto
  note a2 = append_packet_fits [OF a1(2) assms(3) this(2,1)]
  note a = append_packet_fits [OF assms(1,4,5,6)]
  have "drop (length (c_str h1) + length b2 + 1) h1 = drop (length (c_str h) + length (b1 @ b2) + 1) h"
    unfolding a1(3) by (simp add: h1_def drop_Cons' ac_simps)
  then have "append_packet h1 p2 = append_packet h p" using a2(1) a(1) a1(3) by simp
  with a1 show thesis by (rule that)
qed

section \<open>Properties\<close>

definition tcp_server_zero :: tcp_server_t where
  "tcp_server_zero = \<lparr>server_pcb = None, complete = False, gw = 0, server_flash_config = None,
     active_connections = 0, connections = replicate TCP_IP_MAX_CONNECTIONS con_zero,
     html_form_expanded = [NUL], pcb_arg = (\<lambda>_. None), effects = [], stored = []\<rparr>"

lemma tcp_inv_start:
  assumes "NUL \<in> set html" "\<And>c. cfg = Some c \<Longrightarrow> valid_config c"
  shows "tcp_inv (tcp_server_zero\<lparr>gw := ip, server_flash_config := cfg, html_form_expanded := html,
    server_pcb := pcb\<rparr>)"
  using assms
  by (auto simp: tcp_inv_def tcp_server_zero_def used_def con_ok_def con_zero_def buffer_ok_def
      TCP_IP_MAX_CONNECTIONS_def TCP_IP_BUFFER_SIZE_def)

text \<open>
  The web server under any sequence of callbacks, with any packets and any answers of the stack:
  no callback leaves its buffers, the connection count is the number of slots in use and never above
  the limit, each registered control block is that of its slot, and every configuration handed to the
  store handler is valid.
\<close>

lemma tcp_server_safe_on_any_stream:
  assumes "NUL \<in> set html" and "cfg = Some c \<longrightarrow> valid_config c" and "cfg = None \<or> cfg = Some c"
    and "\<forall>e \<in> set es. tcp_event_ok e"
  shows "\<exists>s. tcp_machine.run (tcp_server_zero\<lparr>gw := ip, server_flash_config := cfg,
        html_form_expanded := html, server_pcb := pcb\<rparr>) es = Some s
    \<and> active_connections s = int (length (filter (\<lambda>c. con_pcb c \<noteq> None) (connections s)))
    \<and> active_connections s \<le> 4
    \<and> (\<forall>p i. pcb_arg s p = Some i \<longleftrightarrow> i < 4 \<and> con_pcb (connections s ! i) = Some p)
    \<and> (\<forall>c \<in> set (stored s). valid_config c)"
proof -
  have "tcp_inv (tcp_server_zero\<lparr>gw := ip, server_flash_config := cfg, html_form_expanded := html,
      server_pcb := pcb\<rparr>)"
    using assms(1-3) by (intro tcp_inv_start) auto
  then obtain s where s: "tcp_machine.run (tcp_server_zero\<lparr>gw := ip, server_flash_config := cfg,
      html_form_expanded := html, server_pcb := pcb\<rparr>) es = Some s" "tcp_inv s"
    using tcp_machine.run_safe assms(4) by blast
  moreover have "used s \<le> 4"
    using s(2) length_filter_le [of "\<lambda>c. con_pcb c \<noteq> None" "connections s"]
    by (simp add: tcp_inv_def used_def TCP_IP_MAX_CONNECTIONS_def)
  ultimately show ?thesis by (auto simp: tcp_inv_def used_def TCP_IP_MAX_CONNECTIONS_def)
qed

definition sample_env :: tcp_env where
  "sample_env = \<lparr>env_close = ERR_OK, env_store_ok = True, env_ntoa = (\<lambda>_. ''192.168.4.1'')\<rparr>"


definition sample_connected :: tcp_server_t where
  "sample_connected = fst (tcp_server_accept (Some 7) ERR_OK tcp_server_zero)"

lemma sample_connected_inv: "tcp_inv sample_connected" "pcb_arg sample_connected 7 = Some 0"
  "headers (connections sample_connected ! 0) = replicate TCP_IP_BUFFER_SIZE NUL"
proof -
  have "tcp_inv (tcp_server_zero\<lparr>gw := 0, server_flash_config := None, html_form_expanded := [NUL],
      server_pcb := None\<rparr>)"
    by (rule tcp_inv_start) simp_all
  then have z: "tcp_inv tcp_server_zero" by (simp add: tcp_server_zero_def)
  then show "tcp_inv sample_connected"
    unfolding sample_connected_def by (rule tcp_server_accept_inv) (simp add: tcp_server_zero_def)
  show "pcb_arg sample_connected 7 = Some 0"
    "headers (connections sample_connected ! 0) = replicate TCP_IP_BUFFER_SIZE NUL"
    by (simp_all add: sample_connected_def tcp_server_accept_def tcp_server_zero_def Let_def
        TCP_IP_MAX_CONNECTIONS_def set_con_def con_zero_def eval_nat_numeral)
qed

lemma sample_connected_string: "c_str (headers (connections sample_connected ! 0)) = []"
  by (simp add: sample_connected_inv(3) c_str_def TCP_IP_BUFFER_SIZE_def eval_nat_numeral)


fun accept_all :: "nat list \<Rightarrow> tcp_server_t \<Rightarrow> tcp_server_t" where
  "accept_all [] s = s"
| "accept_all (p # ps) s = accept_all ps (fst (tcp_server_accept (Some p) ERR_OK s))"

lemma accept_all_inv:
  assumes "tcp_inv s" "distinct ps" "\<forall>p \<in> set ps. pcb_arg s p = None"
    "active_connections s + int (length ps) \<le> 4"
  shows "tcp_inv (accept_all ps s) \<and> active_connections (accept_all ps s) = active_connections s + int (length ps)"
  using assms
proof (induction ps arbitrary: s)
  case (Cons p ps)
  let ?s = "fst (tcp_server_accept (Some p) ERR_OK s)"
  have "\<not> 4 \<le> used s" using Cons.prems(1,4) by (simp add: tcp_inv_def)
  then have "active_connections ?s = active_connections s + 1" "\<forall>q. q \<noteq> p \<longrightarrow> pcb_arg ?s q = pcb_arg s q"
    by (simp_all add: tcp_server_accept_cases [OF Cons.prems(1)] Let_def)
  moreover have "tcp_inv ?s" using Cons.prems by (intro tcp_server_accept_inv) simp_all
  moreover have "\<forall>q \<in> set ps. pcb_arg ?s q = None"
    using Cons.prems(2,3) calculation(2) by (metis distinct.simps(2) list.set_intros(2))
  ultimately show ?case using Cons.IH [of ?s] Cons.prems by simp
qed simp

text \<open>
  At the limit of four connections the accept callback returns ERR_ABRT and does nothing else: the
  new control block is neither aborted nor given callbacks. lwIP takes this return value to mean that
  the callback has aborted the block, so the connection stays open with nobody to serve or close it.
\<close>

lemma tcp_accept_over_limit_leaks:
  assumes "tcp_inv s" and "active_connections s = 4"
  shows "tcp_server_accept (Some p) ERR_OK s = (s, ERR_ABRT) \<and> effects (fst (tcp_server_accept (Some p) ERR_OK s)) = effects s"
proof -
  have "used s = 4" using assms by (simp add: tcp_inv_def)
  then show ?thesis using tcp_server_accept_cases [OF assms(1), of p] by simp
qed

section \<open>From the wire to the stored configuration\<close>

lemma strstr_skip:
  assumes "c \<notin> set a"
  shows "strstr (a @ s) (c # pat) = map_option ((+) (length a)) (strstr s (c # pat))"
  using assms
proof (induction a)
  case Nil
  then show ?case by (cases "strstr s (c # pat)") simp_all
next
  case (Cons x a)
  then have "\<not> prefixb (c # pat) (x # a @ s)" by (auto simp: prefixb_def)
  with Cons show ?case by (simp add: option.map_comp comp_def)
qed

lemma strstr_here: "strstr (pat @ s) pat = Some 0"
  by (rule strstr_SomeI) (simp_all add: prefixb_def)

text \<open>A browser's request: the request line, the length of the body, the body.\<close>

definition post_line :: string where
  "post_line = ''POST /clock-config HTTP/1.1'' @ CRLF"

definition post_request :: "string \<Rightarrow> string" where
  "post_request body = post_line @ CONTENT_LENGTH @ int_string (int (length body)) @ CRLF @ CRLF @ body"

lemma int_string_no_cr: "CHR 0x0D \<notin> set (int_string n)"
proof -
  have "\<not> isdigit CHR 0x0D" by (simp add: isdigit_def char_code_def)
  then show ?thesis using int_string_chars(1) [of "CHR 0x0D" n] by auto
qed

lemma length_dec_string: "n < 10 ^ Suc k \<Longrightarrow> length (dec_string n) \<le> Suc k"
proof (induction k arbitrary: n)
  case 0
  then show ?case by (subst dec_string.simps) simp
next
  case (Suc k)
  show ?case
  proof (cases "n < 10")
    case True
    then show ?thesis by (subst dec_string.simps) simp
  next
    case False
    have "n div 10 < 10 ^ Suc k" using Suc.prems by (simp add: less_mult_imp_div_less)
    with Suc.IH [of "n div 10"] False show ?thesis by (subst dec_string.simps) simp
  qed
qed

lemma expected_body_len_post:
  assumes "length body < 8192"
  shows "expected_body_len (post_request body) = Some (int (length body))"
proof -
  let ?n = "int_string (int (length body))"
  have "strstr (post_line @ CONTENT_LENGTH) CONTENT_LENGTH = Some (length post_line)" by code_simp
  then have 1: "strstr (post_request body) CONTENT_LENGTH = Some (length post_line)"
    unfolding post_request_def by (rule strstr_mark)
  have "CHR 0x0D \<notin> set (CONTENT_LENGTH @ ?n)"
    using int_string_no_cr by (simp add: CONTENT_LENGTH_def)
  then have 2: "strstr (drop (length post_line) (post_request body)) CRLF = Some (16 + length ?n)"
    using strstr_skip [of "CHR 0x0D" "CONTENT_LENGTH @ ?n" "CRLF @ CRLF @ body" "[CHR 0x0A]"]
      strstr_here [of CRLF "CRLF @ body"]
    by (simp add: post_request_def CRLF_def CONTENT_LENGTH_def)
  have "length (dec_string (length body)) \<le> 4" using length_dec_string [of "length body" 3] assms by simp
  then have 3: "0 < length ?n" "length ?n < 16"
    using int_string_chars(2) [of "int (length body)"] by (simp_all add: int_string_def)
  have 4: "take (length ?n) (drop (length post_line + 16) (post_request body)) = ?n"
    by (simp add: post_request_def CONTENT_LENGTH_def)
  have "parse_long_bounded ?n 0 INT_MAX = Some (int (length body))"
    using assms by (simp add: parse_long_bounded_int_string LONG_MIN_def LONG_MAX_def INT_MAX_def)
  then show ?thesis using 1 2 3 4 by (simp add: expected_body_len_def Let_def)
qed

lemma post_body_at:
  "strstr (post_request body) (CRLF @ CRLF)
    = Some (length post_line + 16 + length (int_string (int (length body))))"
proof -
  let ?n = "int_string (int (length body))"
  let ?line = "''POST /clock-config HTTP/1.1''"
  have "strstr (CHR 0x0D # CHR 0x0A # CONTENT_LENGTH @ s) (CRLF @ CRLF)
      = map_option ((+) 2) (strstr (CONTENT_LENGTH @ s) (CRLF @ CRLF))" for s
    by (simp add: prefixb_def CRLF_def CONTENT_LENGTH_def option.map_comp comp_def)
  moreover have "strstr (CONTENT_LENGTH @ ?n @ CRLF @ CRLF @ body) (CRLF @ CRLF) = Some (16 + length ?n)"
    using strstr_skip [of "CHR 0x0D" "CONTENT_LENGTH @ ?n" "CRLF @ CRLF @ body" "[CHR 0x0A] @ CRLF"]
      strstr_here [of "CRLF @ CRLF" body] int_string_no_cr
    by (simp add: CRLF_def CONTENT_LENGTH_def)
  ultimately have "strstr (CRLF @ CONTENT_LENGTH @ ?n @ CRLF @ CRLF @ body) (CRLF @ CRLF) = Some (18 + length ?n)"
    by (simp add: CRLF_def)
  then show ?thesis
    using strstr_skip [of "CHR 0x0D" ?line "CRLF @ CONTENT_LENGTH @ ?n @ CRLF @ CRLF @ body" "[CHR 0x0A] @ CRLF"]
    by (simp add: post_request_def post_line_def CRLF_def)
qed

lemma post_request_shape:
  "is_post (post_request body)"
  "drop (length post_line + 16 + length (int_string (int (length body))) + 4) (post_request body) = body"
proof -
  show "is_post (post_request body)"
    by (simp add: is_post_def strncmp_eq_def post_request_def post_line_def)
  let ?pre = "post_line @ CONTENT_LENGTH @ int_string (int (length body)) @ CRLF @ CRLF"
  have "length ?pre = length post_line + 16 + length (int_string (int (length body))) + 4"
    by (simp add: CONTENT_LENGTH_def CRLF_def)
  moreover have "post_request body = ?pre @ body" by (simp add: post_request_def)
  ultimately show "drop (length post_line + 16 + length (int_string (int (length body))) + 4) (post_request body) = body"
    by (metis append_eq_conv_conj)
qed

lemma check_post_request: "length body < 8192 \<Longrightarrow> check_request (post_request body) = Proceed"
  using post_request_shape [of body]
  by (simp add: check_request_def expected_body_len_post post_body_at)

text \<open>
  From the wire to the flash: a connected client that posts a form, in a request that fits the
  buffer, whose numbers are all in range, has exactly the configuration of the form's fields handed to
  the store handler, once, and gets the success page; the access point's loop is told to end.
\<close>

lemma tcp_post_stores_form:
  assumes "tcp_inv s" and "pcb_arg s pcb = Some i" and "c_str (headers (connections s ! i)) = []"
    and "pbuf_holds p b" and "0 \<notin> set b" and "chars_of_bytes b = post_request (form_body fs)"
    and "length b < TCP_IP_BUFFER_SIZE"
    and "form_base (server_flash_config s) = Some base"
    and "\<forall>f \<in> set fs. form_field_ok f" and "apply_fields base fs = Some (cfg, False)" and "env_store_ok env"
  shows "\<exists>s'. tcp_dispatch s (env, Recv pcb (Some p)) = Some s' \<and> stored s' = stored s @ [cfg]
    \<and> complete s' \<and> effects s' = effects s @ [TcpWrite pcb success_msg]"
proof -
  have i: "i < 4" "i < length (connections s)" and pcb: "con_pcb (connections s ! i) = Some pcb"
    using assms(1,2) by (simp_all add: tcp_inv_def TCP_IP_MAX_CONNECTIONS_def)
  have ok: "buffer_ok (headers (connections s ! i))" "con_flash_config (connections s ! i) = server_flash_config s"
    using tcp_inv_nth [OF assms(1) i(1)] pcb by (simp_all add: con_ok_def)
  have "length (c_str (headers (connections s ! i))) + length b < TCP_IP_BUFFER_SIZE"
    using assms(3,7) by simp
  from append_packet_fits [OF ok(1) assms(4,5) this]
  obtain h where h: "append_packet (headers (connections s ! i)) p = Some h" "buffer_ok h"
      "c_str h = post_request (form_body fs)"
    using assms(3,6) by auto
  define s1 where "s1 = set_con i ((connections s ! i)\<lparr>headers := h\<rparr>) s"
  have s1: "con_flash_config (connections s1 ! i) = server_flash_config s" "stored s1 = stored s"
    "effects s1 = effects s"
    using i(2) ok(2) by (simp_all add: s1_def set_con_def)
  have "length (post_request (form_body fs)) < 8192"
    using assms(6,7) by (metis TCP_IP_BUFFER_SIZE_def length_chars_of_bytes)
  then have len: "length (form_body fs) < 8192" by (simp add: post_request_def)
  have loop: "form_loop base (form_body fs) = Some (cfg, False)"
    using form_loop_body [OF assms(9)] assms(10) by simp
  have "handle_post env i pcb (post_request (form_body fs)) s1
      = Some ((emit [TcpWrite pcb success_msg] (s1\<lparr>stored := stored s1 @ [cfg]\<rparr>))\<lparr>complete := True\<rparr>, ERR_OK)"
    using assms(8,11) loop len post_request_shape(2) [of "form_body fs"] s1(1)
    by (simp add: handle_post_def post_body_at Let_def TCP_IP_BUFFER_SIZE_def)
  moreover have "tcp_server_recv env i pcb (Some p) s = handle_post env i pcb (post_request (form_body fs)) s1"
    using h(1,3) buffer_ok_string [OF h(2)] check_post_request [OF len] post_request_shape(1)
    by (simp add: tcp_server_recv_def s1_def Let_def)
  ultimately show ?thesis using assms(2) s1 by (simp add: tcp_dispatch_def)
qed

definition bytes_of_chars :: "string \<Rightarrow> u8 list" where
  "bytes_of_chars s = map (\<lambda>c. of_nat (char_code c)) s"

lemma chars_of_bytes_of_chars: "chars_of_bytes (bytes_of_chars s) = s"
proof -
  have "unat (of_nat (char_code c) :: u8) = char_code c" for c
    using char_code_less [of c] by (simp add: unat_of_nat)
  then show ?thesis by (simp add: chars_of_bytes_def bytes_of_chars_def map_idI)
qed

lemma bytes_no_zero: "NUL \<notin> set s \<Longrightarrow> 0 \<notin> set (bytes_of_chars s)"
proof -
  assume s: "NUL \<notin> set s"
  have "c = NUL" if "(of_nat (char_code c) :: u8) = 0" for c
  proof -
    have "char_code c = 0"
      using arg_cong [OF that, of unat] char_code_less [of c] by (simp add: unat_of_nat)
    then show "c = NUL" using char_of_code [of c] by (simp add: char_of_def)
  qed
  with s show "0 \<notin> set (bytes_of_chars s)" by (force simp: bytes_of_chars_def)
qed

text \<open>The smallest form, as one packet.\<close>

definition sample_post :: "u8 list" where
  "sample_post = bytes_of_chars (post_request ''dst=EU'')"

lemma sample_post_form:
  "form_body [(''dst'', ''EU'')] = ''dst=EU''" "\<forall>f \<in> set [(''dst'', ''EU'')]. form_field_ok f"
  "apply_fields base [(''dst'', ''EU'')] = Some (base\<lparr>dst_rule := DST_RULE_EU\<rparr>, False)"
  by (simp_all add: url_encode_char_def form_safe_def isalnum_def isdigit_def char_code_def form_field_ok_def
      is_crlf_def apply_field_def dst_rule_of_value_def)

lemma sample_post_bytes:
  "0 \<notin> set sample_post" "chars_of_bytes sample_post = post_request (form_body [(''dst'', ''EU'')])"
  "length sample_post < TCP_IP_BUFFER_SIZE"
proof -
  have "NUL \<notin> set (post_request ''dst=EU'')" "length (post_request ''dst=EU'') < 8192" by code_simp+
  then show "0 \<notin> set sample_post" "length sample_post < TCP_IP_BUFFER_SIZE"
    using bytes_no_zero by (simp_all add: sample_post_def bytes_of_chars_def TCP_IP_BUFFER_SIZE_def)
  show "chars_of_bytes sample_post = post_request (form_body [(''dst'', ''EU'')])"
    unfolding sample_post_form(1) sample_post_def by (rule chars_of_bytes_of_chars)
qed

end
