(* ===== verification/CStruct.thy ===== *)
theory CStruct
  imports Lwip
begin

text \<open>
  The layout of a C struct and the bytes of its fields. A field is its name, its size and its
  alignment; it lies at the next multiple of its alignment after the field before it, and the whole
  is rounded up to the largest alignment. The bytes between the fields are padding, whose contents are
  whatever was in memory. Words are little-endian, as on the target.
\<close>

section \<open>Layout\<close>

type_synonym c_field = "string \<times> nat \<times> nat"

definition align_up :: "nat \<Rightarrow> nat \<Rightarrow> nat" where
  "align_up a n = (n + a - 1) div a * a"

fun place_fields :: "nat \<Rightarrow> c_field list \<Rightarrow> (string \<times> nat) list" where
  "place_fields n [] = []"
| "place_fields n ((x, s, a) # fs) = (x, align_up a n) # place_fields (align_up a n + s) fs"

fun fields_end :: "nat \<Rightarrow> c_field list \<Rightarrow> nat" where
  "fields_end n [] = n"
| "fields_end n ((x, s, a) # fs) = fields_end (align_up a n + s) fs"

definition offset_of :: "c_field list \<Rightarrow> string \<Rightarrow> nat" where
  "offset_of fs x = the (map_of (place_fields 0 fs) x)"

definition sizeof :: "c_field list \<Rightarrow> nat" where
  "sizeof fs = align_up (foldr (\<lambda>(x, s, a). max a) fs 1) (fields_end 0 fs)"

lemma align_up_ge: "0 < a \<Longrightarrow> n \<le> align_up a n"
proof -
  assume a: "0 < a"
  have "align_up a n = n + a - 1 - (n + a - 1) mod a" by (simp add: align_up_def minus_mod_eq_div_mult)
  moreover have "(n + a - 1) mod a < a" using a by simp
  ultimately show ?thesis by linarith
qed

lemma align_up_less: "0 < a \<Longrightarrow> align_up a n < n + a"
  by (metis add_gr_0 align_up_def diff_less div_times_less_eq_dividend le_less_trans less_one)

lemma align_up_dvd: "a dvd align_up a n"
  by (simp add: align_up_def)

lemma fields_end_ge: "\<forall>(x, s, a) \<in> set fs. 0 < a \<Longrightarrow> n \<le> fields_end n fs"
proof (induction fs arbitrary: n)
  case (Cons f fs)
  obtain x s a where f: "f = (x, s, a)" by (cases f)
  then have "n \<le> align_up a n + s" using Cons.prems align_up_ge [of a n] by simp
  also have "\<dots> \<le> fields_end (align_up a n + s) fs" using Cons by simp
  finally show ?case by (simp add: f)
qed simp

section \<open>Bytes of a struct\<close>

text \<open>The fields' bytes in order, each after its padding; \<open>pad i\<close> is the byte at offset \<open>i\<close>.\<close>

fun struct_bytes :: "(nat \<Rightarrow> u8) \<Rightarrow> nat \<Rightarrow> (string \<times> nat \<times> u8 list) list \<Rightarrow> u8 list" where
  "struct_bytes pad n [] = []"
| "struct_bytes pad n ((x, a, bs) # fs) = map pad [n..<align_up a n] @ bs @ struct_bytes pad (align_up a n + length bs) fs"

definition shape :: "(string \<times> nat \<times> u8 list) list \<Rightarrow> c_field list" where
  "shape fs = map (\<lambda>(x, a, bs). (x, length bs, a)) fs"

lemma shape_simps [simp]: "shape [] = []" "shape ((x, a, bs) # fs) = (x, length bs, a) # shape fs"
  by (simp_all add: shape_def)

lemma length_struct_bytes:
  "\<forall>(x, a, bs) \<in> set fs. 0 < a \<Longrightarrow> length (struct_bytes pad n fs) = fields_end n (shape fs) - n"
proof (induction fs arbitrary: n)
  case (Cons f fs)
  obtain x a bs where f: "f = (x, a, bs)" by (cases f)
  have a: "0 < a" and rest: "\<forall>(x, a, bs) \<in> set fs. 0 < a" using Cons.prems by (simp_all add: f)
  have "\<forall>(x, s, a) \<in> set (shape fs). 0 < a" using rest by (auto simp: shape_def)
  then have "align_up a n + length bs \<le> fields_end (align_up a n + length bs) (shape fs)" by (rule fields_end_ge)
  then show ?case using Cons.IH [OF rest, of "align_up a n + length bs"] align_up_ge [OF a, of n] by (simp add: f)
qed simp

definition field_bytes :: "c_field list \<Rightarrow> string \<Rightarrow> u8 list \<Rightarrow> u8 list" where
  "field_bytes fs x m = (case map_of fs x of None \<Rightarrow> [] | Some (s, a) \<Rightarrow> take s (drop (offset_of fs x) m))"

text \<open>Each field is found at its offset, whatever the padding holds and whatever follows the struct.\<close>

lemma struct_bytes_field:
  assumes "\<forall>(x, a, bs) \<in> set fs. 0 < a" and "distinct (map fst fs)" and "(x, a, bs) \<in> set fs"
  shows "\<exists>off. map_of (place_fields n (shape fs)) x = Some off \<and> n \<le> off
    \<and> take (length bs) (drop (off - n) (struct_bytes pad n fs @ rest)) = bs"
  using assms
proof (induction fs arbitrary: n)
  case (Cons f fs)
  obtain y b ys where f: "f = (y, b, ys)" by (cases f)
  have b: "0 < b" using Cons.prems(1) by (simp add: f)
  have n: "n \<le> align_up b n" by (rule align_up_ge [OF b])
  show ?case
  proof (cases "(x, a, bs) = f")
    case True
    then show ?thesis using n by (simp add: f)
  next
    case False
    then have i: "(x, a, bs) \<in> set fs" using Cons.prems(3) by simp
    then have xy: "x \<noteq> y" using Cons.prems(2) by (force simp: f)
    have fs: "\<forall>(x, a, bs) \<in> set fs. 0 < a" "distinct (map fst fs)" using Cons.prems(1,2) by (simp_all add: f)
    from Cons.IH [OF fs i, of "align_up b n + length ys"] obtain off where off:
      "map_of (place_fields (align_up b n + length ys) (shape fs)) x = Some off" "align_up b n + length ys \<le> off"
      "take (length bs) (drop (off - (align_up b n + length ys)) (struct_bytes pad (align_up b n + length ys) fs @ rest)) = bs"
      by blast
    have d: "off - n = align_up b n - n + length ys + (off - (align_up b n + length ys))" using off(2) n by linarith
    have "drop (off - n) (struct_bytes pad n (f # fs) @ rest)
        = drop (off - (align_up b n + length ys)) (struct_bytes pad (align_up b n + length ys) fs @ rest)"
      unfolding d by (simp add: f)
    then show ?thesis using off xy n by (intro exI [of _ off]) (simp add: f)
  qed
qed simp

lemma struct_bytes_field_bytes:
  assumes "\<forall>(x, a, bs) \<in> set fs. 0 < a" and "distinct (map fst fs)" and "(x, a, bs) \<in> set fs"
  shows "field_bytes (shape fs) x (struct_bytes pad 0 fs @ rest) = bs"
proof -
  obtain off where "map_of (place_fields 0 (shape fs)) x = Some off"
    "take (length bs) (drop off (struct_bytes pad 0 fs @ rest)) = bs"
    using struct_bytes_field [OF assms, of 0 pad rest] by auto
  moreover have "map_of (shape fs) x = Some (length bs, a)"
  proof -
    have "map fst (shape fs) = map fst fs" by (auto simp: shape_def)
    moreover have "(x, length bs, a) \<in> set (shape fs)" using assms(3) by (force simp: shape_def)
    ultimately show ?thesis using assms(2) by (metis map_of_eq_Some_iff)
  qed
  ultimately show ?thesis by (simp add: field_bytes_def offset_of_def)
qed

section \<open>Words\<close>

definition mem_bytes16 :: "u16 \<Rightarrow> u8 list" where
  "mem_bytes16 w = [ucast w, ucast (drop_bit 8 w)]"

definition mem_word16 :: "u8 list \<Rightarrow> u16" where
  "mem_word16 bs = (case bs of [a, b] \<Rightarrow> be16 b a | _ \<Rightarrow> 0)"

definition mem_word32 :: "u8 list \<Rightarrow> u32" where
  "mem_word32 bs = (case bs of [a, b, c, d] \<Rightarrow> be32 d c b a | _ \<Rightarrow> 0)"

lemma length_mem_bytes16 [simp]: "length (mem_bytes16 w) = 2"
  by (simp add: mem_bytes16_def)

lemma mem_word16_bytes [simp]: "mem_word16 (mem_bytes16 w) = w"
  unfolding mem_word16_def mem_bytes16_def be16_def list.case
  by (rule bit_word_eqI) (auto simp: bit_simps not_less)

lemma mem_word32_bytes [simp]: "mem_word32 (mem_bytes32 w) = w"
  unfolding mem_word32_def mem_bytes32_def be32_def list.case
proof (rule bit_word_eqI)
  fix n assume "n < LENGTH(32)"
  then consider "n < 8" | "8 \<le> n" "n < 16" | "16 \<le> n" "n < 24" | "24 \<le> n" "n < 32" by fastforce
  then show "bit (push_bit 24 (ucast (ucast (drop_bit 24 w) :: u8)) OR push_bit 16 (ucast (ucast (drop_bit 16 w) :: u8))
      OR push_bit 8 (ucast (ucast (drop_bit 8 w) :: u8)) OR ucast (ucast w :: u8) :: u32) n = bit w n"
    by cases (auto simp: bit_simps)
qed

end
