(* ===== verification/DhcpServer.thy ===== *)
theory DhcpServer
  imports CStruct
begin

text \<open>
  src/dhcpserver/dhcpserver.c: the access point's address server, a table of eight leases behind
  one packet handler. The message buffer is the 548-byte stack structure \<open>dhcp_msg_t\<close>, a list of
  bytes whose accesses are bounds-checked (\<open>None\<close> is an access outside it). The millisecond
  counter may advance while the handler runs: \<open>ticks i\<close> is its \<open>i\<close>-th reading.
\<close>

section \<open>The code\<close>

definition DHCPDISCOVER :: u8 where "DHCPDISCOVER = 1"
definition DHCPOFFER :: u8 where "DHCPOFFER = 2"
definition DHCPREQUEST :: u8 where "DHCPREQUEST = 3"
definition DHCPACK :: u8 where "DHCPACK = 5"

definition DHCP_OPT_PAD :: u8 where "DHCP_OPT_PAD = 0"
definition DHCP_OPT_SUBNET_MASK :: u8 where "DHCP_OPT_SUBNET_MASK = 1"
definition DHCP_OPT_ROUTER :: u8 where "DHCP_OPT_ROUTER = 3"
definition DHCP_OPT_DNS :: u8 where "DHCP_OPT_DNS = 6"
definition DHCP_OPT_REQUESTED_IP :: u8 where "DHCP_OPT_REQUESTED_IP = 50"
definition DHCP_OPT_IP_LEASE_TIME :: u8 where "DHCP_OPT_IP_LEASE_TIME = 51"
definition DHCP_OPT_MSG_TYPE :: u8 where "DHCP_OPT_MSG_TYPE = 53"
definition DHCP_OPT_SERVER_ID :: u8 where "DHCP_OPT_SERVER_ID = 54"
definition DHCP_OPT_END :: u8 where "DHCP_OPT_END = 255"

definition PORT_DHCP_SERVER :: u16 where "PORT_DHCP_SERVER = 67"
definition PORT_DHCP_CLIENT :: u16 where "PORT_DHCP_CLIENT = 68"
definition DEFAULT_LEASE_TIME_S :: u32 where "DEFAULT_LEASE_TIME_S = 24 * 60 * 60"
definition MAC_LEN :: nat where "MAC_LEN = 6"
definition DHCPS_BASE_IP :: u8 where "DHCPS_BASE_IP = 16"
definition DHCPS_MAX_IP :: nat where "DHCPS_MAX_IP = 8"
definition DHCP_MIN_SIZE :: nat where "DHCP_MIN_SIZE = 240 + 3"

lemmas dhcp_consts = DHCPDISCOVER_def DHCPOFFER_def DHCPREQUEST_def DHCPACK_def DHCP_OPT_PAD_def
  DHCP_OPT_SUBNET_MASK_def DHCP_OPT_ROUTER_def DHCP_OPT_DNS_def DHCP_OPT_REQUESTED_IP_def
  DHCP_OPT_IP_LEASE_TIME_def DHCP_OPT_MSG_TYPE_def DHCP_OPT_SERVER_ID_def DHCP_OPT_END_def
  PORT_DHCP_SERVER_def PORT_DHCP_CLIENT_def DEFAULT_LEASE_TIME_S_def MAC_LEN_def
  DHCPS_BASE_IP_def DHCPS_MAX_IP_def DHCP_MIN_SIZE_def

record dhcp_server_lease_t =
  mac :: "u8 list"
  expiry :: u16

record dhcp_server_t =
  dhcp_ip :: ip_addr_t
  dhcp_nm :: ip_addr_t
  lease :: "dhcp_server_lease_t list"
  dhcp_udp :: "udp_pcb option"

text \<open>The fields of \<open>dhcp_msg_t\<close>, the offsets the code uses and the size.\<close>

definition dhcp_msg_t :: "c_field list" where
  "dhcp_msg_t = [(''op'', 1, 1), (''htype'', 1, 1), (''hlen'', 1, 1), (''hops'', 1, 1), (''xid'', 4, 4), (''secs'', 2, 2),
     (''flags'', 2, 2), (''ciaddr'', 4, 1), (''yiaddr'', 4, 1), (''siaddr'', 4, 1), (''giaddr'', 4, 1), (''chaddr'', 16, 1),
     (''sname'', 64, 1), (''file'', 128, 1), (''options'', 312, 1)]"

definition off_yiaddr :: nat where "off_yiaddr = offset_of dhcp_msg_t ''yiaddr''"
definition off_chaddr :: nat where "off_chaddr = offset_of dhcp_msg_t ''chaddr''"
definition off_options :: nat where "off_options = offset_of dhcp_msg_t ''options''"
definition sizeof_dhcp_msg :: nat where "sizeof_dhcp_msg = sizeof dhcp_msg_t"

lemma dhcp_layout: "off_yiaddr = 16" "off_chaddr = 28" "off_options = 236" "sizeof_dhcp_msg = 548"
  by (simp_all add: off_yiaddr_def off_chaddr_def off_options_def sizeof_dhcp_msg_def offset_of_def sizeof_def
      dhcp_msg_t_def align_up_def)

text \<open>
  \<open>opt_find\<close> on the part of the buffer that starts at \<open>opt\<close>: \<open>Some None\<close> is the null
  pointer, \<open>Some (Some i)\<close> the pointer to \<open>opt[i]\<close>.
\<close>

function opt_find_from :: "u8 list \<Rightarrow> nat \<Rightarrow> nat \<Rightarrow> u8 \<Rightarrow> nat \<Rightarrow> nat option option" where
  "opt_find_from m opt opt_len cmd i =
     (if i < opt_len then
        (case buf_get m (opt + i) of
           None \<Rightarrow> None
         | Some tag \<Rightarrow>
             if tag = DHCP_OPT_END then Some None
             else if tag = DHCP_OPT_PAD then opt_find_from m opt opt_len cmd (i + 1)
             else if i + 1 \<ge> opt_len then Some None
             else
               (case buf_get m (opt + i + 1) of
                  None \<Rightarrow> None
                | Some field_len \<Rightarrow>
                    (let next_i = i + 2 + unat field_len
                     in if next_i > opt_len then Some None
                        else if tag = cmd then Some (Some i)
                        else opt_find_from m opt opt_len cmd next_i)))
      else Some None)"
  by pat_completeness auto
termination
  by (relation "measure (\<lambda>(m, opt, opt_len, cmd, i). opt_len - i)") auto

declare opt_find_from.simps [simp del]

definition opt_find :: "u8 list \<Rightarrow> nat \<Rightarrow> nat \<Rightarrow> u8 \<Rightarrow> nat option option" where
  "opt_find m opt opt_len cmd = opt_find_from m opt opt_len cmd 0"

definition opt_write_n :: "u8 list \<Rightarrow> nat \<Rightarrow> u8 \<Rightarrow> nat \<Rightarrow> u8 list \<Rightarrow> (u8 list \<times> nat) option" where
  "opt_write_n m opt cmd n data = do {
     m \<leftarrow> buf_put m opt [cmd, of_nat n];
     m \<leftarrow> buf_put m (opt + 2) (take n data);
     Some (m, opt + 2 + n) }"

definition opt_write_u8 :: "u8 list \<Rightarrow> nat \<Rightarrow> u8 \<Rightarrow> u8 \<Rightarrow> (u8 list \<times> nat) option" where
  "opt_write_u8 m opt cmd val = do {
     m \<leftarrow> buf_put m opt [cmd, 1, val];
     Some (m, opt + 3) }"

definition opt_write_u32 :: "u8 list \<Rightarrow> nat \<Rightarrow> u8 \<Rightarrow> u32 \<Rightarrow> (u8 list \<times> nat) option" where
  "opt_write_u32 m opt cmd val = do {
     m \<leftarrow> buf_put m opt [cmd, 4, ucast (drop_bit 24 val), ucast (drop_bit 16 val),
       ucast (drop_bit 8 val), ucast val];
     Some (m, opt + 6) }"

definition zero_mac :: "u8 list" where "zero_mac = replicate MAC_LEN 0"

text \<open>A lease expires at the end of the 65.536-second slot its 16-bit field names.\<close>

definition expiry_ms :: "u16 \<Rightarrow> u32" where
  "expiry_ms e = push_bit 16 (ucast e) OR 0xffff"

definition lease_expired :: "dhcp_server_lease_t \<Rightarrow> u32 \<Rightarrow> bool" where
  "lease_expired l now \<longleftrightarrow> sint (expiry_ms (expiry l) - now) < 0"

text \<open>The loop of the DISCOVER case over the lease table, from slot \<open>i\<close> on.\<close>

function discover_from ::
  "(nat \<Rightarrow> u32) \<Rightarrow> u8 list \<Rightarrow> dhcp_server_lease_t list \<Rightarrow> nat \<Rightarrow> nat \<Rightarrow> dhcp_server_lease_t list \<times> nat"
where
  "discover_from ticks chaddr ls i yi =
     (if i < DHCPS_MAX_IP then
        if mac (ls ! i) = take MAC_LEN chaddr then (ls, i)
        else if yi = DHCPS_MAX_IP then
          (let yi = (if mac (ls ! i) = zero_mac then i else yi);
               (ls, yi) = (if lease_expired (ls ! i) (ticks i)
                 then (ls[i := (ls ! i)\<lparr>mac := zero_mac\<rparr>], i) else (ls, yi))
           in discover_from ticks chaddr ls (i + 1) yi)
        else discover_from ticks chaddr ls (i + 1) yi
      else (ls, yi))"
  by pat_completeness auto
termination
  by (relation "measure (\<lambda>(ticks, chaddr, ls, i, yi). DHCPS_MAX_IP - i)") auto

declare discover_from.simps [simp del]

text \<open>
  The two message cases. \<open>None\<close> is an access outside the buffer; inside, \<open>None\<close> means that
  the request is ignored (the lease table may have changed all the same), and \<open>Some yi\<close> that
  address number \<open>yi\<close> is offered or acknowledged.
\<close>

definition dhcp_discover ::
  "(nat \<Rightarrow> u32) \<Rightarrow> u8 list \<Rightarrow> dhcp_server_t \<Rightarrow> dhcp_server_t \<times> nat option" where
  "dhcp_discover ticks chaddr d =
     (let (ls, yi) = discover_from ticks chaddr (lease d) 0 DHCPS_MAX_IP
      in (d\<lparr>lease := ls\<rparr>, if yi = DHCPS_MAX_IP then None else Some yi))"

definition dhcp_grant :: "u32 \<Rightarrow> dhcp_server_t \<Rightarrow> nat \<Rightarrow> u8 list \<Rightarrow> dhcp_server_t" where
  "dhcp_grant now d yi m = d\<lparr>lease := (lease d)[yi := (lease d ! yi)\<lparr>mac := m,
     expiry := ucast (drop_bit 16 (now + DEFAULT_LEASE_TIME_S * 1000))\<rparr>]\<rparr>"

definition dhcp_request ::
  "(nat \<Rightarrow> u32) \<Rightarrow> u8 list \<Rightarrow> nat \<Rightarrow> nat \<Rightarrow> u8 list \<Rightarrow> dhcp_server_t
    \<Rightarrow> (dhcp_server_t \<times> nat option) option" where
  "dhcp_request ticks m opt options_len chaddr d = do {
     found \<leftarrow> opt_find m opt options_len DHCP_OPT_REQUESTED_IP;
     case found of
       None \<Rightarrow> Some (d, None)
     | Some i \<Rightarrow> do {
         let o' = opt + i;
         o1 \<leftarrow> buf_get m (o' + 1);
         if o1 < 4 then Some (d, None)
         else do {
           o2 \<leftarrow> buf_get m (o' + 2); o3 \<leftarrow> buf_get m (o' + 3); o4 \<leftarrow> buf_get m (o' + 4);
           o5 \<leftarrow> buf_get m (o' + 5);
           if [o2, o3, o4] \<noteq> take 3 (mem_bytes32 (dhcp_ip d)) then Some (d, None)
           else if o5 < DHCPS_BASE_IP then Some (d, None)
           else do {
             let yi = unat (o5 - DHCPS_BASE_IP);
             if yi \<ge> DHCPS_MAX_IP then Some (d, None)
             else if mac (lease d ! yi) = take MAC_LEN chaddr
               then Some (dhcp_grant (ticks 0) d yi (mac (lease d ! yi)), Some yi)
             else if mac (lease d ! yi) = zero_mac
               then Some (dhcp_grant (ticks 0) d yi (take MAC_LEN chaddr), Some yi)
             else Some (d, None)
           }
         }
       }
   }"

definition dhcp_socket_sendto ::
  "bool \<Rightarrow> u8 list \<Rightarrow> u32 \<Rightarrow> u16 \<Rightarrow> udp_datagram list" where
  "dhcp_socket_sendto pbuf_alloc buf ip port =
     (let len = (if length buf > 0xffff then 0xffff else length buf)
      in if \<not> pbuf_alloc then []
         else [\<lparr>dg_addr = ip4_addr (drop_bit 24 ip AND 0xff) (drop_bit 16 ip AND 0xff)
                  (drop_bit 8 ip AND 0xff) (ip AND 0xff),
                dg_port = port, dg_payload = take len buf\<rparr>])"

text \<open>The options of every reply and the send, from where the message type option ends.\<close>

definition dhcp_finish :: "bool \<Rightarrow> dhcp_server_t \<Rightarrow> u8 list \<Rightarrow> nat \<Rightarrow> udp_datagram list option" where
  "dhcp_finish pbuf_alloc d m opt = do {
     (m, opt) \<leftarrow> opt_write_n m opt DHCP_OPT_SERVER_ID 4 (mem_bytes32 (dhcp_ip d));
     (m, opt) \<leftarrow> opt_write_n m opt DHCP_OPT_SUBNET_MASK 4 (mem_bytes32 (dhcp_nm d));
     (m, opt) \<leftarrow> opt_write_n m opt DHCP_OPT_ROUTER 4 (mem_bytes32 (dhcp_ip d));
     (m, opt) \<leftarrow> opt_write_n m opt DHCP_OPT_DNS 4 (mem_bytes32 (dhcp_ip d));
     (m, opt) \<leftarrow> opt_write_u32 m opt DHCP_OPT_IP_LEASE_TIME DEFAULT_LEASE_TIME_S;
     m \<leftarrow> buf_put m opt [DHCP_OPT_END];
     Some (dhcp_socket_sendto pbuf_alloc (take (opt + 1) m) 0xffffffff PORT_DHCP_CLIENT)
   }"

text \<open>The address number goes into the reply, the message type in front of its options.\<close>

definition dhcp_answer ::
  "bool \<Rightarrow> dhcp_server_t \<Rightarrow> u8 list \<Rightarrow> nat \<Rightarrow> nat \<Rightarrow> u8 \<Rightarrow> (dhcp_server_t \<times> udp_datagram list) option" where
  "dhcp_answer pbuf_alloc d m opt yi msg_type = do {
     m \<leftarrow> buf_put m (off_yiaddr + 3) [DHCPS_BASE_IP + of_nat yi];
     (m, opt) \<leftarrow> opt_write_u8 m opt DHCP_OPT_MSG_TYPE msg_type;
     out \<leftarrow> dhcp_finish pbuf_alloc d m opt;
     Some (d, out) }"

definition dhcp_switch ::
  "bool \<Rightarrow> (nat \<Rightarrow> u32) \<Rightarrow> dhcp_server_t \<Rightarrow> u8 list \<Rightarrow> nat \<Rightarrow> nat \<Rightarrow> u8
    \<Rightarrow> (dhcp_server_t \<times> udp_datagram list) option" where
  "dhcp_switch pbuf_alloc ticks d m opt options_len msgtype =
     (let chaddr = take 16 (drop off_chaddr m)
      in if msgtype = DHCPDISCOVER then
           (case dhcp_discover ticks chaddr d of
              (d, None) \<Rightarrow> Some (d, [])
            | (d, Some yi) \<Rightarrow> dhcp_answer pbuf_alloc d m opt yi DHCPOFFER)
         else if msgtype = DHCPREQUEST then do {
           r \<leftarrow> dhcp_request ticks m opt options_len chaddr d;
           (case r of
              (d, None) \<Rightarrow> Some (d, [])
            | (d, Some yi) \<Rightarrow> dhcp_answer pbuf_alloc d m opt yi DHCPACK) }
         else Some (d, []))"

text \<open>\<open>stack\<close> is the uninitialised \<open>dhcp_msg\<close>.\<close>

definition dhcp_server_process ::
  "u8 list \<Rightarrow> bool \<Rightarrow> (nat \<Rightarrow> u32) \<Rightarrow> dhcp_server_t \<Rightarrow> pbuf
    \<Rightarrow> (dhcp_server_t \<times> udp_datagram list) option" where
  "dhcp_server_process stack pbuf_alloc ticks d p =
     (if tot_len p < DHCP_MIN_SIZE then Some (d, [])
      else (let copied = pbuf_copy_partial p sizeof_dhcp_msg 0; len = length copied in do {
        m \<leftarrow> buf_put stack 0 copied;
        if len < DHCP_MIN_SIZE then Some (d, [])
        else if len < off_options + 4 then Some (d, [])
        else do {
          let options_len = len - off_options;
          m \<leftarrow> buf_put m 0 [DHCPOFFER];
          m \<leftarrow> buf_put m off_yiaddr (mem_bytes32 (dhcp_ip d));
          let opt = off_options + 4;
          let options_len = options_len - 4;
          found \<leftarrow> opt_find m opt options_len DHCP_OPT_MSG_TYPE;
          case found of
            None \<Rightarrow> Some (d, [])
          | Some i \<Rightarrow> do {
              t1 \<leftarrow> buf_get m (opt + i + 1);
              if t1 < 1 then Some (d, [])
              else do {
                t2 \<leftarrow> buf_get m (opt + i + 2);
                dhcp_switch pbuf_alloc ticks d m opt options_len t2
              }
            }
        }
      }))"

definition dhcp_socket_new_dgram :: "bool \<Rightarrow> dhcp_server_t \<Rightarrow> dhcp_server_t \<times> int" where
  "dhcp_socket_new_dgram udp_new_ok d =
     (if \<not> udp_new_ok then (d\<lparr>dhcp_udp := None\<rparr>, - ENOMEM)
      else (d\<lparr>dhcp_udp := Some (udp_pcb_new\<lparr>pcb_recv_registered := True\<rparr>)\<rparr>, 0))"

definition dhcp_socket_free :: "dhcp_server_t \<Rightarrow> dhcp_server_t" where
  "dhcp_socket_free d = (case dhcp_udp d of None \<Rightarrow> d | Some _ \<Rightarrow> d\<lparr>dhcp_udp := None\<rparr>)"

definition dhcp_socket_bind :: "int \<Rightarrow> dhcp_server_t \<Rightarrow> u16 \<Rightarrow> dhcp_server_t \<times> int" where
  "dhcp_socket_bind udp_bind_err d port =
     (if udp_bind_err \<noteq> ERR_OK then (d, udp_bind_err)
      else (d\<lparr>dhcp_udp := map_option (pcb_local_port_update (\<lambda>_. Some port)) (dhcp_udp d)\<rparr>, ERR_OK))"

definition empty_lease :: dhcp_server_lease_t where
  "empty_lease = \<lparr>mac = zero_mac, expiry = 0\<rparr>"

definition dhcp_server_init ::
  "bool \<Rightarrow> int \<Rightarrow> dhcp_server_t \<Rightarrow> ip_addr_t \<Rightarrow> ip_addr_t \<Rightarrow> dhcp_server_t" where
  "dhcp_server_init udp_new_ok udp_bind_err d ip nm =
     (let d = d\<lparr>dhcp_ip := ip, dhcp_nm := nm, lease := replicate DHCPS_MAX_IP empty_lease\<rparr>;
          (d, err) = dhcp_socket_new_dgram udp_new_ok d
      in if err \<noteq> 0 then d
         else fst (dhcp_socket_bind udp_bind_err d PORT_DHCP_SERVER))"

definition dhcp_server_deinit :: "dhcp_server_t \<Rightarrow> dhcp_server_t" where
  "dhcp_server_deinit d = dhcp_socket_free d"

section \<open>The search for an option\<close>

text \<open>Whatever the packet holds, the search stays inside it and what it finds lies inside.\<close>

lemma opt_find_from_safe:
  "opt + opt_len \<le> length m \<Longrightarrow> \<exists>r. opt_find_from m opt opt_len cmd i = Some r
     \<and> (\<forall>j. r = Some j \<longrightarrow> i \<le> j \<and> j + 2 + unat (m ! (opt + j + 1)) \<le> opt_len \<and> m ! (opt + j) = cmd)"
proof (induction m opt opt_len cmd i rule: opt_find_from.induct)
  case (1 m opt opt_len cmd i)
  show ?case
  proof (cases "i < opt_len")
    case False
    then show ?thesis by (simp add: opt_find_from.simps [of m opt opt_len cmd i])
  next
    case True
    let ?tag = "m ! (opt + i)" and ?next = "i + 2 + unat (m ! (opt + i + 1))"
    from True "1.prems" have get: "buf_get m (opt + i) = Some ?tag" by simp
    consider "?tag = DHCP_OPT_END" | "?tag = DHCP_OPT_PAD" "?tag \<noteq> DHCP_OPT_END"
      | "?tag \<noteq> DHCP_OPT_END" "?tag \<noteq> DHCP_OPT_PAD" "i + 1 \<ge> opt_len"
      | "?tag \<noteq> DHCP_OPT_END" "?tag \<noteq> DHCP_OPT_PAD" "i + 1 < opt_len" by linarith
    then show ?thesis
    proof cases
      case 2
      then obtain r where "opt_find_from m opt opt_len cmd (i + 1) = Some r"
          "\<forall>j. r = Some j \<longrightarrow> i + 1 \<le> j \<and> j + 2 + unat (m ! (opt + j + 1)) \<le> opt_len \<and> m ! (opt + j) = cmd"
        using "1.IH"(1) [OF True get] "1.prems" by blast
      then show ?thesis
        using True 2 get by (auto simp: opt_find_from.simps [of m opt opt_len cmd i])
    next
      case 4
      with "1.prems" have get': "buf_get m (opt + i + 1) = Some (m ! (opt + i + 1))" by simp
      show ?thesis
      proof (cases "?next > opt_len \<or> ?tag = cmd")
        case True
        then show ?thesis
          using \<open>i < opt_len\<close> 4 get get'
          by (auto simp: opt_find_from.simps [of m opt opt_len cmd i] Let_def)
      next
        case False
        then obtain r where "opt_find_from m opt opt_len cmd ?next = Some r"
            "\<forall>j. r = Some j \<longrightarrow> ?next \<le> j \<and> j + 2 + unat (m ! (opt + j + 1)) \<le> opt_len \<and> m ! (opt + j) = cmd"
          using "1.IH"(2) [OF True get _ _ _ get' refl] 4 "1.prems" by fastforce
        then show ?thesis
          using True 4 False get get'
          by (auto simp: opt_find_from.simps [of m opt opt_len cmd i] Let_def)
      qed
    qed (use True get in \<open>simp_all add: opt_find_from.simps [of m opt opt_len cmd i]\<close>)
  qed
qed

lemma opt_find_safe:
  assumes "opt + opt_len \<le> length m"
  obtains "opt_find m opt opt_len cmd = Some None"
  | i where "opt_find m opt opt_len cmd = Some (Some i)"
      "i + 2 + unat (m ! (opt + i + 1)) \<le> opt_len" "m ! (opt + i) = cmd"
  using opt_find_from_safe [OF assms, of cmd 0] unfolding opt_find_def by (metis not_None_eq)

text \<open>Options on the wire: a tag, a length and a value each.\<close>

definition encode_option :: "u8 \<times> u8 list \<Rightarrow> u8 list" where
  "encode_option o' = fst o' # of_nat (length (snd o')) # snd o'"

definition encode_options :: "(u8 \<times> u8 list) list \<Rightarrow> u8 list" where
  "encode_options os = concat (map encode_option os)"

definition valid_option :: "u8 \<times> u8 list \<Rightarrow> bool" where
  "valid_option o' \<longleftrightarrow> fst o' \<noteq> DHCP_OPT_PAD \<and> fst o' \<noteq> DHCP_OPT_END \<and> length (snd o') \<le> 255"

lemma encode_options_simps [simp]:
  "encode_options [] = []" "encode_options (o' # os) = encode_option o' @ encode_options os"
  by (simp_all add: encode_options_def)

text \<open>
  The reference for the search: the option field split into its entries, up to the end marker or
  the first entry that is cut short.
\<close>

fun parse_options :: "u8 list \<Rightarrow> (u8 \<times> u8 list) list" where
  "parse_options [] = []"
| "parse_options (t # r) =
     (if t = DHCP_OPT_END then []
      else if t = DHCP_OPT_PAD then parse_options r
      else (case r of
              [] \<Rightarrow> []
            | n # v \<Rightarrow> if unat n > length v then []
                else (t, take (unat n) v) # parse_options (drop (unat n) v)))"

lemma parse_encoded_options:
  "\<forall>o' \<in> set os. valid_option o' \<Longrightarrow> parse_options (encode_options os @ DHCP_OPT_END # tail) = os"
proof (induction os)
  case Nil
  then show ?case by simp
next
  case (Cons a os)
  then have "unat (of_nat (length (snd a)) :: u8) = length (snd a)"
    by (auto simp: valid_option_def unat_of_nat)
  then show ?case using Cons by (simp add: encode_option_def valid_option_def)
qed

definition opt_slice :: "u8 list \<Rightarrow> nat \<Rightarrow> nat \<Rightarrow> nat \<Rightarrow> u8 list" where
  "opt_slice m opt opt_len i = take (opt_len - i) (drop (opt + i) m)"

definition opt_value_at :: "u8 list \<Rightarrow> nat \<Rightarrow> nat \<Rightarrow> u8 list" where
  "opt_value_at m opt j = take (unat (m ! (opt + j + 1))) (drop (opt + j + 2) m)"

lemma opt_slice_Cons:
  "i < opt_len \<Longrightarrow> opt + opt_len \<le> length m \<Longrightarrow>
     opt_slice m opt opt_len i = m ! (opt + i) # opt_slice m opt opt_len (i + 1)"
  by (simp add: opt_slice_def Cons_nth_drop_Suc [symmetric] flip: Suc_diff_Suc)

lemma opt_slice_entry:
  assumes "i + 1 < opt_len" "opt + opt_len \<le> length m" "m ! (opt + i) \<noteq> DHCP_OPT_END"
    "m ! (opt + i) \<noteq> DHCP_OPT_PAD"
  shows "parse_options (opt_slice m opt opt_len i) =
    (if i + 2 + unat (m ! (opt + i + 1)) > opt_len then []
     else (m ! (opt + i), opt_value_at m opt i)
       # parse_options (opt_slice m opt opt_len (i + 2 + unat (m ! (opt + i + 1)))))"
proof -
  have c: "opt_slice m opt opt_len i = m ! (opt + i) # m ! (opt + i + 1) # opt_slice m opt opt_len (i + 2)"
    using assms opt_slice_Cons [of i] opt_slice_Cons [of "i + 1"] by simp
  have "length (opt_slice m opt opt_len (i + 2)) = opt_len - (i + 2)"
    using assms(2) by (simp add: opt_slice_def)
  moreover have "drop n (opt_slice m opt opt_len (i + 2)) = opt_slice m opt opt_len (i + 2 + n)"
    and "i + 2 + n \<le> opt_len \<Longrightarrow> take n (opt_slice m opt opt_len (i + 2)) = take n (drop (opt + i + 2) m)" for n
    by (simp_all add: opt_slice_def drop_take min_absorb1 ac_simps)
  ultimately show ?thesis using assms by (auto simp: c opt_value_at_def)
qed

lemma opt_find_from_parse:
  assumes "opt + opt_len \<le> length m" "cmd \<noteq> DHCP_OPT_END" "cmd \<noteq> DHCP_OPT_PAD"
  shows "map_of (parse_options (opt_slice m opt opt_len i)) cmd =
    map_option (opt_value_at m opt) (the (opt_find_from m opt opt_len cmd i))"
  using assms
proof (induction m opt opt_len cmd i rule: opt_find_from.induct)
  case (1 m opt opt_len cmd i)
  note unfold = opt_find_from.simps [of m opt opt_len cmd i]
  show ?case
  proof (cases "i < opt_len")
    case False
    then show ?thesis by (simp add: unfold opt_slice_def)
  next
    case i: True
    let ?tag = "m ! (opt + i)" and ?n = "m ! (opt + i + 1)"
    from i "1.prems"(1) have get: "buf_get m (opt + i) = Some ?tag" by simp
    note c = opt_slice_Cons [OF i "1.prems"(1)]
    consider (pad) "?tag = DHCP_OPT_PAD" "?tag \<noteq> DHCP_OPT_END"
      | (last) "?tag = DHCP_OPT_END \<or> ?tag \<noteq> DHCP_OPT_PAD \<and> i + 1 \<ge> opt_len"
      | (entry) "?tag \<noteq> DHCP_OPT_PAD" "?tag \<noteq> DHCP_OPT_END" "i + 1 < opt_len" by linarith
    then show ?thesis
    proof cases
      case pad
      then have "opt_find_from m opt opt_len cmd i = opt_find_from m opt opt_len cmd (i + 1)"
        using get i by (subst unfold) simp
      then show ?thesis using "1.IH"(1) [OF i get _ pad(1)] pad "1.prems" by (simp add: c)
    next
      case last
      then have "opt_find_from m opt opt_len cmd i = Some None" "parse_options (opt_slice m opt opt_len i) = []"
        using get i by (auto simp: unfold c) (simp add: opt_slice_def)
      then show ?thesis by simp
    next
      case entry
      have get': "buf_get m (opt + i + 1) = Some ?n" using entry(3) "1.prems"(1) by simp
      note p = opt_slice_entry [OF entry(3) "1.prems"(1) entry(2,1)]
      have "opt_find_from m opt opt_len cmd i = (if i + 2 + unat ?n > opt_len then Some None
          else if ?tag = cmd then Some (Some i)
          else opt_find_from m opt opt_len cmd (i + 2 + unat ?n))"
        using entry i get get' by (subst unfold) (simp add: Let_def)
      moreover note "1.IH"(2) [OF i get entry(2,1) _ get' refl]
      ultimately show ?thesis using entry "1.prems" by (simp add: p)
    qed
  qed
qed

section \<open>The lease table\<close>

definition wf_leases :: "dhcp_server_lease_t list \<Rightarrow> bool" where
  "wf_leases ls \<longleftrightarrow> length ls = DHCPS_MAX_IP \<and> (\<forall>l \<in> set ls. length (mac l) = MAC_LEN)"

lemma length_zero_mac [simp]: "length zero_mac = 6"
  by (simp add: zero_mac_def MAC_LEN_def)

lemma wf_leases_update:
  "wf_leases ls \<Longrightarrow> length (mac l) = 6 \<Longrightarrow> wf_leases (ls[i := l])"
  by (auto simp: wf_leases_def MAC_LEN_def dest!: set_update_subset_insert [THEN subsetD])

text \<open>
  What a DISCOVER leaves in the table: slots keep their contents except that one expired lease
  may lose its hardware address; the slot chosen belongs to the client or to nobody.
\<close>

lemma discover_from_step:
  assumes "i < 8" "mac (ls ! i) \<noteq> take MAC_LEN chaddr"
  shows "discover_from ticks chaddr ls i yi =
    (if yi = 8 \<and> lease_expired (ls ! i) (ticks i)
     then discover_from ticks chaddr (ls[i := (ls ! i)\<lparr>mac := zero_mac\<rparr>]) (i + 1) i
     else discover_from ticks chaddr ls (i + 1) (if yi = 8 \<and> mac (ls ! i) = zero_mac then i else yi))"
  using assms by (subst discover_from.simps) (simp add: DHCPS_MAX_IP_def)

lemma discover_from_result:
  assumes "discover_from ticks chaddr ls i yi = (ls', yi')" "length ls = 8" "i + k = 8" "yi \<le> 8"
    and "yi < 8 \<Longrightarrow> mac (ls ! yi) = zero_mac"
  shows "length ls' = 8 \<and> yi' \<le> 8
    \<and> (yi' < 8 \<longrightarrow> mac (ls' ! yi') = take MAC_LEN chaddr \<or> mac (ls' ! yi') = zero_mac)
    \<and> (\<forall>j < 8. ls' ! j = ls ! j
         \<or> i \<le> j \<and> lease_expired (ls ! j) (ticks j) \<and> ls' ! j = (ls ! j)\<lparr>mac := zero_mac\<rparr>)"
  using assms
proof (induction k arbitrary: ls i yi)
  case 0
  then show ?case
    by (subst (asm) discover_from.simps) (auto simp: DHCPS_MAX_IP_def)
next
  case (Suc k)
  then have i: "i < 8" by simp
  show ?case
  proof (cases "mac (ls ! i) = take MAC_LEN chaddr")
    case True
    then show ?thesis
      using Suc.prems i by (subst (asm) discover_from.simps) (auto simp: DHCPS_MAX_IP_def)
  next
    case False
    note step = discover_from_step [OF i False, of ticks yi]
    show ?thesis
    proof (cases "yi = 8 \<and> lease_expired (ls ! i) (ticks i)")
      case True
      let ?ls = "ls[i := (ls ! i)\<lparr>mac := zero_mac\<rparr>]"
      have "discover_from ticks chaddr ?ls (i + 1) i = (ls', yi')"
        using Suc.prems(1) step True by simp
      from Suc.IH [OF this] show ?thesis
        using Suc.prems(2,3) i True by (auto simp: nth_list_update split: if_splits)
    next
      case False
      define yi1 where "yi1 = (if yi = 8 \<and> mac (ls ! i) = zero_mac then i else yi)"
      have "discover_from ticks chaddr ls (i + 1) yi1 = (ls', yi')"
        using Suc.prems(1) by (simp only: step False if_False yi1_def)
      moreover have "yi1 \<le> 8" "yi1 < 8 \<Longrightarrow> mac (ls ! yi1) = zero_mac"
        using Suc.prems(4,5) i by (auto simp: yi1_def split: if_splits)
      ultimately show ?thesis
        using Suc.IH [of ls "i + 1" yi1] Suc.prems(2,3) by auto
    qed
  qed
qed

lemma dhcp_discover_result:
  assumes "dhcp_discover ticks chaddr d = (d', r)" "wf_leases (lease d)"
  shows "wf_leases (lease d')" "dhcp_ip d' = dhcp_ip d" "dhcp_nm d' = dhcp_nm d" "dhcp_udp d' = dhcp_udp d"
    "r = Some yi \<Longrightarrow> yi < 8 \<and>
       (mac (lease d' ! yi) = take MAC_LEN chaddr \<or> mac (lease d' ! yi) = zero_mac)"
    "j < 8 \<Longrightarrow> lease d' ! j = lease d ! j
       \<or> lease_expired (lease d ! j) (ticks j) \<and> lease d' ! j = (lease d ! j)\<lparr>mac := zero_mac\<rparr>"
proof -
  obtain ls' yi' where e: "discover_from ticks chaddr (lease d) 0 8 = (ls', yi')" by fastforce
  have len: "length (lease d) = 8" using assms(2) by (simp add: wf_leases_def DHCPS_MAX_IP_def)
  note r = discover_from_result [OF e len, of 8, simplified]
  have d': "d' = d\<lparr>lease := ls'\<rparr>" "r = (if yi' = 8 then None else Some yi')"
    using assms(1) e by (auto simp: dhcp_discover_def DHCPS_MAX_IP_def)
  show "dhcp_ip d' = dhcp_ip d" "dhcp_nm d' = dhcp_nm d" "dhcp_udp d' = dhcp_udp d"
    by (simp_all add: d')
  show "r = Some yi \<Longrightarrow> yi < 8 \<and>
      (mac (lease d' ! yi) = take MAC_LEN chaddr \<or> mac (lease d' ! yi) = zero_mac)"
    using r by (auto simp: d' split: if_splits)
  show "j < 8 \<Longrightarrow> lease d' ! j = lease d ! j
      \<or> lease_expired (lease d ! j) (ticks j) \<and> lease d' ! j = (lease d ! j)\<lparr>mac := zero_mac\<rparr>"
    using r by (auto simp: d')
  have "length (mac (ls' ! j)) = 6" if "j < 8" for j
    using r that assms(2) len by (auto simp: wf_leases_def MAC_LEN_def)
  then show "wf_leases (lease d')"
    using r by (auto simp: d' wf_leases_def DHCPS_MAX_IP_def MAC_LEN_def in_set_conv_nth)
qed

section \<open>The handler as a function of the message\<close>

definition dhcp_option :: "u8 list \<Rightarrow> u8 \<Rightarrow> u8 list option" where
  "dhcp_option os cmd = map_of (parse_options os) cmd"

text \<open>The address number that a REQUEST's option 50 names, if this client may have it.\<close>

definition dhcp_grantable :: "dhcp_server_t \<Rightarrow> u8 list \<Rightarrow> u8 list \<Rightarrow> nat option" where
  "dhcp_grantable d chaddr v = (case v of
     a # b # c # e # _ \<Rightarrow>
       if [a, b, c] = take 3 (mem_bytes32 (dhcp_ip d)) \<and> \<not> e < DHCPS_BASE_IP
          \<and> unat (e - DHCPS_BASE_IP) < DHCPS_MAX_IP
          \<and> mac (lease d ! unat (e - DHCPS_BASE_IP)) \<in> {take MAC_LEN chaddr, zero_mac}
       then Some (unat (e - DHCPS_BASE_IP)) else None
   | _ \<Rightarrow> None)"

definition dhcp_request_spec ::
  "u32 \<Rightarrow> u8 list \<Rightarrow> u8 list \<Rightarrow> dhcp_server_t \<Rightarrow> dhcp_server_t \<times> nat option" where
  "dhcp_request_spec now os chaddr d =
     (case Option.bind (dhcp_option os DHCP_OPT_REQUESTED_IP) (dhcp_grantable d chaddr) of
        None \<Rightarrow> (d, None)
      | Some yi \<Rightarrow> (dhcp_grant now d yi (take MAC_LEN chaddr), Some yi))"

lemma opt_find_option:
  assumes "opt + n \<le> length m" "cmd \<noteq> DHCP_OPT_END" "cmd \<noteq> DHCP_OPT_PAD"
  obtains (none) "opt_find m opt n cmd = Some None" "dhcp_option (take n (drop opt m)) cmd = None"
  | (found) i v where "opt_find m opt n cmd = Some (Some i)"
      "dhcp_option (take n (drop opt m)) cmd = Some v" "length v = unat (m ! (opt + i + 1))"
      "i + 2 + length v \<le> n" "\<And>k. k < length v \<Longrightarrow> m ! (opt + i + 2 + k) = v ! k"
proof -
  note parse = opt_find_from_parse [OF assms, of 0, unfolded opt_slice_def diff_zero add_0_right,
      folded dhcp_option_def opt_find_def]
  from assms(1) show thesis
  proof (rule opt_find_safe [where cmd = cmd])
    assume "opt_find m opt n cmd = Some None"
    with parse show thesis by (intro none) simp_all
  next
    fix i
    assume "opt_find m opt n cmd = Some (Some i)" "i + 2 + unat (m ! (opt + i + 1)) \<le> n"
    with parse assms(1) show thesis
      by (intro found [of i "opt_value_at m opt i"]) (simp_all add: opt_value_at_def ac_simps)
  qed
qed

text \<open>The REQUEST case of the code is this function of the option field.\<close>

lemma dhcp_request_refines:
  assumes "opt + n \<le> length m"
  shows "dhcp_request ticks m opt n chaddr d
    = Some (dhcp_request_spec (ticks 0) (take n (drop opt m)) chaddr d)"
proof (rule opt_find_option [OF assms, of DHCP_OPT_REQUESTED_IP])
  fix i v
  assume f: "opt_find m opt n DHCP_OPT_REQUESTED_IP = Some (Some i)"
    and v: "dhcp_option (take n (drop opt m)) DHCP_OPT_REQUESTED_IP = Some v"
      "length v = unat (m ! (opt + i + 1))" "i + 2 + length v \<le> n"
      "\<And>k. k < length v \<Longrightarrow> m ! (opt + i + 2 + k) = v ! k"
  have get1: "buf_get m (opt + i + 1) = Some (m ! (opt + i + 1))" using v(3) assms by simp
  show ?thesis
  proof (cases "m ! (opt + i + 1) < 4")
    case True
    then have "length v < 4" using v(2) by (simp add: word_less_nat_alt)
    then show ?thesis
      using True f get1 v(1)
      by (auto simp: dhcp_request_def dhcp_request_spec_def dhcp_grantable_def Let_def split: list.splits)
  next
    case False
    then have "4 \<le> length v" using v(2) by (simp add: word_less_nat_alt)
    then obtain a b c e v' where vs: "v = a # b # c # e # v'"
      by (auto simp: Suc_le_length_iff eval_nat_numeral)
    have get: "buf_get m (opt + i + 2 + k) = Some (v ! k)" if "k < 4" for k
      using that v(3,4) assms \<open>4 \<le> length v\<close> by simp
    have gets: "buf_get m (opt + i + 2) = Some a" "buf_get m (opt + i + 3) = Some b"
      "buf_get m (opt + i + 4) = Some c" "buf_get m (opt + i + 5) = Some e"
      using get [of 0] get [of 1] get [of 2] get [of 3]
      by (simp_all add: vs add.commute eval_nat_numeral del: buf_get_in)
    show ?thesis
      using False f get1 v(1) gets(1) unfolding dhcp_request_def dhcp_request_spec_def
      by (auto simp: vs dhcp_grantable_def Let_def gets simp del: buf_get_in)
  qed
qed (simp_all add: dhcp_request_def dhcp_request_spec_def dhcp_consts)

lemma dhcp_grantable_result:
  "dhcp_grantable d chaddr v = Some yi \<Longrightarrow>
     yi < 8 \<and> (mac (lease d ! yi) = take MAC_LEN chaddr \<or> mac (lease d ! yi) = zero_mac)"
  by (auto simp: dhcp_grantable_def DHCPS_MAX_IP_def split: list.splits if_splits)

lemma dhcp_grant_fields [simp]:
  "dhcp_ip (dhcp_grant now d yi m) = dhcp_ip d" "dhcp_nm (dhcp_grant now d yi m) = dhcp_nm d"
  "dhcp_udp (dhcp_grant now d yi m) = dhcp_udp d"
  "length (lease (dhcp_grant now d yi m)) = length (lease d)"
  by (simp_all add: dhcp_grant_def)

lemma dhcp_request_spec_result:
  assumes "dhcp_request_spec now os chaddr d = (d', r)" "wf_leases (lease d)" "6 \<le> length chaddr"
  shows "wf_leases (lease d')" "dhcp_ip d' = dhcp_ip d" "dhcp_nm d' = dhcp_nm d" "dhcp_udp d' = dhcp_udp d"
    "r = None \<Longrightarrow> d' = d"
    "r = Some yi \<Longrightarrow> yi < 8 \<and> d' = dhcp_grant now d yi (take MAC_LEN chaddr)
      \<and> (mac (lease d ! yi) = take MAC_LEN chaddr \<or> mac (lease d ! yi) = zero_mac)"
  using assms
  by (auto simp: dhcp_request_spec_def MAC_LEN_def dhcp_grant_def bind_eq_Some_conv dest!: dhcp_grantable_result
      intro!: wf_leases_update split: option.splits)

definition dhcp_reply :: "dhcp_server_t \<Rightarrow> u8 \<Rightarrow> nat \<Rightarrow> u8 list \<Rightarrow> u8 list" where
  "dhcp_reply d msg_type yi msg =
     [2] @ take 15 (drop 1 msg) @ take 3 (mem_bytes32 (dhcp_ip d)) @ [DHCPS_BASE_IP + of_nat yi]
     @ take 220 (drop 20 msg) @ [53, 1, msg_type] @ [54, 4] @ mem_bytes32 (dhcp_ip d)
     @ [1, 4] @ mem_bytes32 (dhcp_nm d) @ [3, 4] @ mem_bytes32 (dhcp_ip d)
     @ [6, 4] @ mem_bytes32 (dhcp_ip d) @ [51, 4, 0, 1, 0x51, 0x80] @ [255]"

definition dhcp_case ::
  "bool \<Rightarrow> (nat \<Rightarrow> u32) \<Rightarrow> dhcp_server_t \<Rightarrow> u8 list \<Rightarrow> u8 \<Rightarrow> dhcp_server_t \<times> udp_datagram list" where
  "dhcp_case pbuf_alloc ticks d msg t =
     (let chaddr = take 16 (drop 28 msg);
          (d', r) = (if t = DHCPDISCOVER then dhcp_discover ticks chaddr d
            else if t = DHCPREQUEST then dhcp_request_spec (ticks 0) (drop 240 msg) chaddr d
            else (d, None))
      in (d', case r of
           None \<Rightarrow> []
         | Some yi \<Rightarrow> if pbuf_alloc then [\<lparr>dg_addr = 0xffffffff, dg_port = 68,
             dg_payload = dhcp_reply d (if t = DHCPDISCOVER then DHCPOFFER else DHCPACK) yi msg\<rparr>]
             else []))"

definition dhcp_handle ::
  "bool \<Rightarrow> (nat \<Rightarrow> u32) \<Rightarrow> dhcp_server_t \<Rightarrow> u8 list \<Rightarrow> dhcp_server_t \<times> udp_datagram list" where
  "dhcp_handle pbuf_alloc ticks d msg =
     (if length msg < 243 then (d, [])
      else (case dhcp_option (drop 240 msg) DHCP_OPT_MSG_TYPE of
        Some (t # _) \<Rightarrow> dhcp_case pbuf_alloc ticks d msg t
      | _ \<Rightarrow> (d, [])))"

text \<open>Appending to the part of the buffer already written.\<close>

lemma buf_put_append:
  "length xs \<le> length b \<Longrightarrow> buf_put (pre @ b) (length pre) xs = Some ((pre @ xs) @ drop (length xs) b)"
  by (simp add: buf_put_def)

lemma buf_put_middle:
  "length pre = n \<Longrightarrow> length xs = length ys \<Longrightarrow> buf_put (pre @ ys @ b) n xs = Some (pre @ xs @ b)"
  by (auto simp: buf_put_def)

lemma opt_write_n_append:
  assumes "length data = n" "n + 2 \<le> length b" "p = pre @ [cmd, of_nat n] @ data"
  shows "opt_write_n (pre @ b) (length pre) cmd n data = Some (p @ drop (n + 2) b, length p)"
proof -
  have "buf_put (pre @ b) (length pre) [cmd, of_nat n] = Some ((pre @ [cmd, of_nat n]) @ drop 2 b)"
    using assms(2) buf_put_append [of "[cmd, of_nat n]" b pre] by (simp add: eval_nat_numeral)
  moreover have "buf_put ((pre @ [cmd, of_nat n]) @ drop 2 b) (length pre + 2) data
      = Some (((pre @ [cmd, of_nat n]) @ data) @ drop n (drop 2 b))"
    using assms buf_put_append [of data "drop 2 b" "pre @ [cmd, of_nat n]"] by simp
  ultimately show ?thesis using assms(1,3) by (simp add: opt_write_n_def del: buf_put_in)
qed

lemma opt_write_u8_append:
  "3 \<le> length b \<Longrightarrow> opt_write_u8 (pre @ b) (length pre) cmd val =
    Some ((pre @ [cmd, 1, val]) @ drop 3 b, length pre + 3)"
  using buf_put_append [of "[cmd, 1, val]" b pre]
  by (simp add: opt_write_u8_def eval_nat_numeral del: buf_put_in)

lemma opt_write_u32_append:
  assumes "6 \<le> length b" "p = pre @ [cmd, 4, ucast (drop_bit 24 val), ucast (drop_bit 16 val),
    ucast (drop_bit 8 val), ucast val]"
  shows "opt_write_u32 (pre @ b) (length pre) cmd val = Some (p @ drop 6 b, length p)"
  using assms buf_put_append [of "[cmd, 4, ucast (drop_bit 24 val), ucast (drop_bit 16 val),
    ucast (drop_bit 8 val), ucast val]" b pre]
  by (simp add: opt_write_u32_def eval_nat_numeral del: buf_put_in)

definition dhcp_options :: "dhcp_server_t \<Rightarrow> u8 list" where
  "dhcp_options d = [54, 4] @ mem_bytes32 (dhcp_ip d)
     @ [1, 4] @ mem_bytes32 (dhcp_nm d) @ [3, 4] @ mem_bytes32 (dhcp_ip d)
     @ [6, 4] @ mem_bytes32 (dhcp_ip d) @ [51, 4, 0, 1, 0x51, 0x80] @ [255]"

lemma dhcp_finish_append:
  assumes "31 \<le> length b"
  shows "dhcp_finish alloc d (pre @ b) (length pre)
    = Some (dhcp_socket_sendto alloc (pre @ dhcp_options d) 0xffffffff 68)"
proof -
  define p1 where "p1 = pre @ [54, of_nat 4] @ mem_bytes32 (dhcp_ip d)"
  define p2 where "p2 = p1 @ [1, of_nat 4] @ mem_bytes32 (dhcp_nm d)"
  define p3 where "p3 = p2 @ [3, of_nat 4] @ mem_bytes32 (dhcp_ip d)"
  define p4 where "p4 = p3 @ [6, of_nat 4] @ mem_bytes32 (dhcp_ip d)"
  define p5 where "p5 = p4 @ [51, 4, ucast (drop_bit 24 (86400 :: u32)), ucast (drop_bit 16 (86400 :: u32)),
    ucast (drop_bit 8 (86400 :: u32)), ucast (86400 :: u32)]"
  have w: "opt_write_n (pre @ b) (length pre) 54 4 (mem_bytes32 (dhcp_ip d)) = Some (p1 @ drop 6 b, length p1)"
    "opt_write_n (p1 @ drop 6 b) (length p1) 1 4 (mem_bytes32 (dhcp_nm d)) = Some (p2 @ drop 12 b, length p2)"
    "opt_write_n (p2 @ drop 12 b) (length p2) 3 4 (mem_bytes32 (dhcp_ip d)) = Some (p3 @ drop 18 b, length p3)"
    "opt_write_n (p3 @ drop 18 b) (length p3) 6 4 (mem_bytes32 (dhcp_ip d)) = Some (p4 @ drop 24 b, length p4)"
    "opt_write_u32 (p4 @ drop 24 b) (length p4) 51 86400 = Some (p5 @ drop 30 b, length p5)"
    using assms opt_write_n_append [OF _ _ p1_def, of b] opt_write_n_append [OF _ _ p2_def, of "drop 6 b"]
      opt_write_n_append [OF _ _ p3_def, of "drop 12 b"] opt_write_n_append [OF _ _ p4_def, of "drop 18 b"]
      opt_write_u32_append [OF _ p5_def, of "drop 24 b"]
    by simp_all
  have e: "buf_put (p5 @ drop 30 b) (length p5) [255] = Some ((p5 @ [255]) @ drop 31 b)"
    using assms buf_put_append [of "[255]" "drop 30 b" p5] by simp
  have "p5 @ [255] = pre @ dhcp_options d"
    by (simp add: p5_def p4_def p3_def p2_def p1_def dhcp_options_def)
  moreover have "dhcp_finish alloc d (pre @ b) (length pre)
      = Some (dhcp_socket_sendto alloc (p5 @ [255]) 0xffffffff 68)"
    by (simp add: dhcp_finish_def dhcp_consts w e del: buf_put_in)
  ultimately show ?thesis by simp
qed

text \<open>The message buffer after the copy and the two header writes.\<close>

lemma dhcp_split_message:
  assumes "243 \<le> length msg"
  obtains b0 A Y C os where "msg = b0 # A @ Y @ C @ os" "length A = 15" "length Y = 4" "length C = 220"
    "drop 240 msg = os" "take 15 (drop 1 msg) = A" "take 220 (drop 20 msg) = C"
    "take 16 (drop 28 msg) = take 16 (drop 8 C)"
proof (rule that)
  show "msg = hd msg # take 15 (drop 1 msg) @ take 4 (drop 16 msg) @ take 220 (drop 20 msg) @ drop 240 msg"
  proof -
    have "drop 1 msg = take 15 (drop 1 msg) @ drop 16 msg"
      using append_take_drop_id [of 15 "drop 1 msg"] by simp
    moreover have "drop 16 msg = take 4 (drop 16 msg) @ drop 20 msg"
      using append_take_drop_id [of 4 "drop 16 msg"] by simp
    moreover have "drop 20 msg = take 220 (drop 20 msg) @ drop 240 msg"
      using append_take_drop_id [of 220 "drop 20 msg"] by simp
    moreover have "msg = hd msg # drop 1 msg" using assms by (cases msg) simp_all
    ultimately show ?thesis by metis
  qed
qed (use assms in \<open>simp_all add: drop_take\<close>)

lemma dhcp_answer_append:
  assumes "pre = b0 # A @ Y @ C" "length A = 15" "length Y = 4" "length C = 220" "34 \<le> length b"
    "take 3 Y = take 3 (mem_bytes32 (dhcp_ip d))"
  shows "dhcp_answer alloc d (pre @ b) 240 yi t = Some (d, dhcp_socket_sendto alloc
    (b0 # A @ take 3 (mem_bytes32 (dhcp_ip d)) @ [DHCPS_BASE_IP + of_nat yi] @ C @ [53, 1, t] @ dhcp_options d)
    0xffffffff 68)"
proof -
  let ?pre = "b0 # A @ take 3 Y @ [DHCPS_BASE_IP + of_nat yi] @ C"
  have "Y = take 3 Y @ drop 3 Y" "length (drop 3 Y) = 1" using assms(3) by simp_all
  then obtain y where "Y = take 3 Y @ [y]" by (metis length_0_conv length_Suc_conv One_nat_def)
  then have "pre @ b = (b0 # A @ take 3 Y) @ [y] @ C @ b"
    using assms(1) by (metis append.assoc append_Cons)
  moreover have "buf_put ((b0 # A @ take 3 Y) @ [y] @ C @ b) 19 [DHCPS_BASE_IP + of_nat yi]
      = Some ((b0 # A @ take 3 Y) @ [DHCPS_BASE_IP + of_nat yi] @ C @ b)"
    using assms(2,3) by (intro buf_put_middle) simp_all
  ultimately have 1: "buf_put (pre @ b) (off_yiaddr + 3) [DHCPS_BASE_IP + of_nat yi] = Some (?pre @ b)"
    by (simp add: dhcp_layout)
  have len: "length ?pre = 240" using assms(2-4) by simp
  have 2: "opt_write_u8 (?pre @ b) 240 DHCP_OPT_MSG_TYPE t = Some ((?pre @ [53, 1, t]) @ drop 3 b, 243)"
    using opt_write_u8_append [of b ?pre 53 t] assms(5) unfolding len by (simp add: DHCP_OPT_MSG_TYPE_def)
  have "length (?pre @ [53, 1, t]) = 243" using len by simp
  then have 3: "dhcp_finish alloc d ((?pre @ [53, 1, t]) @ drop 3 b) 243
      = Some (dhcp_socket_sendto alloc ((?pre @ [53, 1, t]) @ dhcp_options d) 0xffffffff 68)"
    using dhcp_finish_append [of "drop 3 b" alloc d "?pre @ [53, 1, t]"] assms(5) by simp
  show ?thesis
    by (simp only: dhcp_answer_def 1 2 3 Option.bind.simps prod.case) (simp add: assms(6))
qed

lemma broadcast_addr:
  "ip4_addr (drop_bit 24 0xffffffff AND 0xff) (drop_bit 16 0xffffffff AND 0xff)
     (drop_bit 8 0xffffffff AND 0xff) (0xffffffff AND 0xff) = 0xffffffff"
  by code_simp

lemma dhcp_socket_sendto_broadcast:
  "length buf \<le> 0xffff \<Longrightarrow> dhcp_socket_sendto alloc buf 0xffffffff 68 =
    (if alloc then [\<lparr>dg_addr = 0xffffffff, dg_port = 68, dg_payload = buf\<rparr>] else [])"
  unfolding dhcp_socket_sendto_def Let_def broadcast_addr by simp

text \<open>
  The buffer at the switch statement: the request, with the opcode and the server's address
  written over it, and whatever the stack held behind it.
\<close>

definition at_switch :: "dhcp_server_t \<Rightarrow> u8 list \<Rightarrow> u8 list \<Rightarrow> u8 list" where
  "at_switch d msg rest = [2] @ take 15 (drop 1 msg) @ mem_bytes32 (dhcp_ip d) @ take 220 (drop 20 msg)
     @ drop 240 msg @ rest"

lemma at_switch_writes:
  assumes "243 \<le> length msg" "length msg \<le> length stack"
  shows "do { m \<leftarrow> buf_put stack 0 msg; m \<leftarrow> buf_put m 0 [DHCPOFFER];
      m \<leftarrow> buf_put m off_yiaddr (mem_bytes32 (dhcp_ip d)); f m }
    = f (at_switch d msg (drop (length msg) stack))"
proof -
  from assms(1) obtain b0 A Y C os where msg: "msg = b0 # A @ Y @ C @ os" and len: "length A = 15"
      "length Y = 4" "length C = 220"
    by (rule dhcp_split_message)
  let ?rest = "drop (length msg) stack"
  have "buf_put stack 0 msg = Some (msg @ ?rest)" using assms(2) by simp
  moreover have "buf_put (msg @ ?rest) 0 [DHCPOFFER] = Some (2 # A @ Y @ C @ os @ ?rest)"
    using buf_put_middle [of "[]" 0 "[DHCPOFFER]" "[b0]" "A @ Y @ C @ os @ ?rest"]
    by (simp add: msg DHCPOFFER_def)
  moreover have "buf_put (2 # A @ Y @ C @ os @ ?rest) off_yiaddr (mem_bytes32 (dhcp_ip d))
      = Some (at_switch d msg ?rest)"
    using buf_put_middle [of "2 # A" 16 "mem_bytes32 (dhcp_ip d)" Y "C @ os @ ?rest"] len
    by (simp add: at_switch_def dhcp_layout msg)
  ultimately show ?thesis by (simp del: buf_put_in)
qed

lemma dhcp_switch_refines:
  assumes "243 \<le> length msg" "length msg + length rest = 548"
  shows "dhcp_switch alloc ticks d (at_switch d msg rest) 240 (length msg - 240) t
    = Some (dhcp_case alloc ticks d msg t)"
proof -
  from assms(1) obtain b0 A Y C os where msg: "msg = b0 # A @ Y @ C @ os" and len: "length A = 15"
      "length Y = 4" "length C = 220" and os: "drop 240 msg = os" and A: "take 15 (drop 1 msg) = A"
      and C: "take 220 (drop 20 msg) = C" and ch: "take 16 (drop 28 msg) = take 16 (drop 8 C)"
    by (rule dhcp_split_message)
  define pre where "pre = 2 # A @ mem_bytes32 (dhcp_ip d) @ C"
  have m: "at_switch d msg rest = pre @ os @ rest" by (simp add: at_switch_def pre_def A [simplified] C os)
  have b: "34 \<le> length (os @ rest)" using assms(2) len by (simp add: msg)
  have chaddr: "take 16 (drop off_chaddr (pre @ os @ rest)) = take 16 (drop 28 msg)"
    using len by (simp add: ch dhcp_layout pre_def)
  have req: "dhcp_request ticks (pre @ os @ rest) 240 (length msg - 240) ch d
      = Some (dhcp_request_spec (ticks 0) os ch d)" for ch
    using dhcp_request_refines [of 240 "length os" "pre @ os @ rest" ticks ch d] len
    by (simp add: pre_def msg)
  have send: "dhcp_answer alloc d' (pre @ os @ rest) 240 yi t = Some (d', if alloc then
      [\<lparr>dg_addr = 0xffffffff, dg_port = 68, dg_payload = dhcp_reply d t yi msg\<rparr>] else [])"
    if "dhcp_ip d' = dhcp_ip d" "dhcp_nm d' = dhcp_nm d" for d' yi t
    using that len dhcp_answer_append [OF pre_def len(1) _ len(3) b, of d' alloc yi t]
    by (simp add: dhcp_socket_sendto_broadcast dhcp_reply_def dhcp_options_def A [simplified] C)
  have same: "dhcp_ip d' = dhcp_ip d" "dhcp_nm d' = dhcp_nm d"
    if "dhcp_discover ticks ch d = (d', r) \<or> dhcp_request_spec t0 os ch d = (d', r)" for d' r ch t0
    using that by (auto simp: dhcp_discover_def dhcp_request_spec_def split: prod.splits option.splits)
  obtain d1 r1 where disc: "dhcp_discover ticks (take 16 (drop 28 msg)) d = (d1, r1)" by fastforce
  obtain d2 r2 where reqs: "dhcp_request_spec (ticks 0) os (take 16 (drop 28 msg)) d = (d2, r2)" by fastforce
  note same1 = same [OF disjI1 [OF disc]] and same2 = same [OF disjI2 [OF reqs]]
  have "DHCPREQUEST \<noteq> DHCPDISCOVER" by (simp add: DHCPREQUEST_def DHCPDISCOVER_def)
  then show ?thesis
    unfolding dhcp_switch_def dhcp_case_def m chaddr Let_def os req disc reqs
    using send [OF same1] send [OF same2]
    by (cases r1; cases r2; simp)
qed

text \<open>Refinement: the byte-level handler is the function of the message, and never leaves its buffer.\<close>

lemma dhcp_server_process_refines:
  assumes "pbuf_sane p" "length stack = sizeof_dhcp_msg"
  defines "msg \<equiv> pbuf_copy_partial p sizeof_dhcp_msg 0"
  shows "dhcp_server_process stack alloc ticks d p = Some (dhcp_handle alloc ticks d msg)"
proof (cases "length msg < 243")
  case True
  have "length msg \<le> length stack" using assms(1,2) by (simp add: msg_def pbuf_sane_def)
  then show ?thesis
    using True unfolding dhcp_server_process_def msg_def [symmetric]
    by (simp add: dhcp_handle_def DHCP_MIN_SIZE_def Let_def)
next
  case False
  then have ge: "243 \<le> length msg" by simp
  have total: "length msg \<le> 548" "length msg \<le> tot_len p" "length msg \<le> length stack"
    using assms by (simp_all add: pbuf_sane_def dhcp_layout)
  define rest where "rest = drop (length msg) stack"
  let ?m = "at_switch d msg rest" and ?n = "length msg - 240"
  have rest: "length msg + length rest = 548"
    using total assms(2) by (simp add: rest_def dhcp_layout)
  define pre where "pre = [2] @ take 15 (drop 1 msg) @ mem_bytes32 (dhcp_ip d) @ take 220 (drop 20 msg)"
  have "?m = pre @ drop 240 msg @ rest" by (simp add: at_switch_def pre_def)
  moreover have "length pre = 240" using ge by (simp add: pre_def)
  ultimately have reg: "240 + ?n \<le> length ?m" "take ?n (drop 240 ?m) = drop 240 msg"
    using ge by simp_all
  have body: "dhcp_server_process stack alloc ticks d p = do {
      found \<leftarrow> opt_find ?m 240 ?n DHCP_OPT_MSG_TYPE;
      case found of None \<Rightarrow> Some (d, []) | Some i \<Rightarrow> do {
        t1 \<leftarrow> buf_get ?m (240 + i + 1);
        if t1 < 1 then Some (d, []) else do {
          t2 \<leftarrow> buf_get ?m (240 + i + 2);
          dhcp_switch alloc ticks d ?m 240 ?n t2 } } }"
  proof -
    have "\<not> tot_len p < DHCP_MIN_SIZE" "\<not> length msg < DHCP_MIN_SIZE" "\<not> length msg < off_options + 4"
      "off_options + 4 = 240" "length msg - off_options - 4 = ?n"
      using ge total by (simp_all add: DHCP_MIN_SIZE_def dhcp_layout)
    then show ?thesis
      unfolding dhcp_server_process_def msg_def [symmetric]
      by (simp only: Let_def if_False at_switch_writes [OF ge total(3), folded rest_def])
  qed
  from reg(1) show ?thesis
  proof (rule opt_find_option [of _ _ _ DHCP_OPT_MSG_TYPE])
    assume "opt_find ?m 240 ?n DHCP_OPT_MSG_TYPE = Some None"
      and "dhcp_option (take ?n (drop 240 ?m)) DHCP_OPT_MSG_TYPE = None"
    then show ?thesis using ge reg(2) unfolding body by (simp add: dhcp_handle_def)
  next
    fix i v
    assume f: "opt_find ?m 240 ?n DHCP_OPT_MSG_TYPE = Some (Some i)"
      and opt: "dhcp_option (take ?n (drop 240 ?m)) DHCP_OPT_MSG_TYPE = Some v"
      and v: "length v = unat (?m ! (240 + i + 1))" "i + 2 + length v \<le> ?n"
        "\<And>k. k < length v \<Longrightarrow> ?m ! (240 + i + 2 + k) = v ! k"
    have t1: "buf_get ?m (240 + i + 1) = Some (?m ! (240 + i + 1))" using v(2) reg(1) by simp
    show ?thesis
    proof (cases v)
      case Nil
      then have "?m ! (240 + i + 1) < 1" using v(1) by (simp add: word_less_nat_alt)
      then show ?thesis
        using ge opt reg(2) Nil unfolding body f Option.bind.simps option.case t1 by (simp add: dhcp_handle_def)
    next
      case (Cons t v')
      then have lt: "\<not> ?m ! (240 + i + 1) < 1" using v(1) by (simp add: word_less_nat_alt)
      have "buf_get ?m (240 + i + 2) = Some t"
        using v(3) [of 0] v(2) reg(1) Cons by simp
      then show ?thesis
        using ge opt reg(2) Cons lt unfolding body f Option.bind.simps option.case t1
        by (simp add: dhcp_handle_def dhcp_switch_refines [OF ge rest] del: buf_get_in)
    qed
  qed (simp_all add: dhcp_consts)
qed

section \<open>Lease times\<close>

text \<open>The 16-bit field rounds a deadline up to the end of its 65.536-second slot.\<close>

lemma expiry_ms_rounds_up:
  "\<exists>k \<le> 65535. expiry_ms (ucast (drop_bit 16 x)) = x + of_nat k"
proof -
  define q where "q = uint x div 65536"
  define r where "r = uint x mod 65536"
  have r: "0 \<le> r" "r \<le> 65535" by (simp_all add: r_def)
  have x: "uint x = q * 65536 + r" by (simp add: q_def r_def)
  have "expiry_ms (ucast (drop_bit 16 x)) = push_bit 16 (drop_bit 16 x) OR 0xffff"
    unfolding expiry_ms_def by (rule bit_word_eqI) (auto simp: bit_simps dest: bit_imp_le_length)
  moreover have "uint (push_bit 16 (drop_bit 16 x) OR 0xffff) = q * 65536 + 65535"
  proof -
    have q: "uint (drop_bit 16 x) = q"
      using uint_lt2p [of x] unfolding unsigned_drop_bit_eq q_def
      by (simp add: drop_bit_eq_div take_bit_int_eq_self)
    have "0 \<le> q" using uint_ge_0 [of x] unfolding q_def by (simp add: div_int_pos_iff)
    moreover have "q * 65536 < 2 ^ 32" using x r uint_lt2p [of x] by simp
    ultimately have "uint (push_bit 16 (drop_bit 16 x)) = push_bit 16 q"
      unfolding unsigned_push_bit_eq q by (simp add: push_bit_eq_mult take_bit_int_eq_self)
    then show ?thesis
      using or_shift_eq_add [of 65535 16 q] by (simp add: unsigned_or_eq)
  qed
  moreover have "uint (x + of_nat (nat (65535 - r))) = q * 65536 + 65535"
  proof -
    have "q * 65536 < 2 ^ 32" using x r uint_lt2p [of x] by simp
    then have "q < 65536" by simp
    then have "q * 65536 + 65535 < 2 ^ 32" by simp
    moreover have "uint (of_nat k :: u32) = int k" if "k \<le> 65535" for k
      using that by (simp add: unsigned_of_nat take_bit_nat_eq_self)
    from this [of "nat (65535 - r)"] have "uint (of_nat (nat (65535 - r)) :: u32) = 65535 - r"
      using r by linarith
    moreover have "0 \<le> q" using uint_ge_0 [of x] unfolding q_def by (simp add: div_int_pos_iff)
    ultimately show ?thesis
      unfolding uint_word_ariths x by (simp add: mod_pos_pos_trivial)
  qed
  ultimately have "expiry_ms (ucast (drop_bit 16 x)) = x + of_nat (nat (65535 - r))"
    by (metis word_of_int_uint)
  moreover have "nat (65535 - r) \<le> 65535" using r by simp
  ultimately show ?thesis by blast
qed

lemma sint_of_nat_nonneg: "k < 2 ^ 31 \<Longrightarrow> 0 \<le> sint (of_nat k :: u32)"
  by (simp add: sint_uint unsigned_of_nat take_bit_nat_eq_self signed_take_bit_int_eq_self)

lemma lease_alive:
  assumes "expiry l = ucast (drop_bit 16 (t + of_nat r + DEFAULT_LEASE_TIME_S * 1000))"
    and "r \<le> 86400000" "n \<le> 86400000"
  shows "\<not> lease_expired l (t + of_nat n)"
proof -
  obtain k where k: "k \<le> 65535"
      "expiry_ms (expiry l) = t + of_nat r + DEFAULT_LEASE_TIME_S * 1000 + of_nat k"
    using expiry_ms_rounds_up unfolding assms(1) by blast
  have "(86400000 :: u32) = of_nat 86400000" by simp
  then have "expiry_ms (expiry l) - (t + of_nat n) = of_nat (r + (86400000 - n) + k)"
    using assms(3) unfolding k(2) DEFAULT_LEASE_TIME_S_def by (simp add: of_nat_diff)
  moreover have "r + (86400000 - n) + k < 2 ^ 31" using assms(2) k(1) by simp
  ultimately show ?thesis using sint_of_nat_nonneg unfolding lease_expired_def by fastforce
qed

section \<open>The server over a stream of messages\<close>

record dhcp_event =
  de_stack :: "u8 list"
  de_alloc :: bool
  de_ticks :: "nat \<Rightarrow> u32"
  de_pbuf :: pbuf

definition dhcp_event_ok :: "dhcp_event \<Rightarrow> bool" where
  "dhcp_event_ok e \<longleftrightarrow> pbuf_sane (de_pbuf e) \<and> length (de_stack e) = sizeof_dhcp_msg"

type_synonym dhcp_log = "dhcp_server_t \<times> udp_datagram list"

definition dhcp_step :: "dhcp_log \<Rightarrow> dhcp_event \<Rightarrow> dhcp_log option" where
  "dhcp_step s e = map_option (\<lambda>(d, out). (d, snd s @ out))
     (dhcp_server_process (de_stack e) (de_alloc e) (de_ticks e) (fst s) (de_pbuf e))"

definition dhcp_log_ok :: "dhcp_log \<Rightarrow> bool" where
  "dhcp_log_ok s \<longleftrightarrow> wf_leases (lease (fst s)) \<and>
     (\<forall>dg \<in> set (snd s). dg_addr dg = 0xffffffff \<and> dg_port dg = 68 \<and> length (dg_payload dg) = 274)"

text \<open>What one message does to the table, slot by slot.\<close>

lemma dhcp_handle_slots:
  assumes "dhcp_handle alloc ticks d msg = (d', out)" "wf_leases (lease d)"
  shows "wf_leases (lease d')" "dhcp_ip d' = dhcp_ip d" "dhcp_nm d' = dhcp_nm d" "dhcp_udp d' = dhcp_udp d"
    and "j < 8 \<Longrightarrow> lease d' ! j = lease d ! j
      \<or> lease_expired (lease d ! j) (ticks j) \<and> lease d' ! j = (lease d ! j)\<lparr>mac := zero_mac\<rparr>
      \<or> mac (lease d ! j) \<in> {take 6 (drop 28 msg), zero_mac}
        \<and> lease d' ! j = \<lparr>mac = take 6 (drop 28 msg),
            expiry = ucast (drop_bit 16 (ticks 0 + DEFAULT_LEASE_TIME_S * 1000))\<rparr>"
proof -
  define ch where "ch = take 16 (drop 28 msg)"
  consider "d' = d" | "243 \<le> length msg" "\<exists>r. dhcp_discover ticks ch d = (d', r)"
    | "243 \<le> length msg" "\<exists>r. dhcp_request_spec (ticks 0) (drop 240 msg) ch d = (d', r)"
    using assms(1)
    by (auto simp: dhcp_handle_def dhcp_case_def Let_def ch_def [symmetric]
        split: if_splits option.splits list.splits prod.splits)
  note cases = this
  have mac: "take MAC_LEN ch = take 6 (drop 28 msg)" by (simp add: ch_def MAC_LEN_def min_def)
  have ch: "243 \<le> length msg \<Longrightarrow> 6 \<le> length ch" by (simp add: ch_def)
  show "wf_leases (lease d')" "dhcp_ip d' = dhcp_ip d" "dhcp_nm d' = dhcp_nm d" "dhcp_udp d' = dhcp_udp d"
    using cases assms(2) dhcp_discover_result(1-4) [where d = d]
      dhcp_request_spec_result(1-4) [where d = d] ch by (metis)+
  have len: "length (lease d) = 8" using assms(2) by (simp add: wf_leases_def DHCPS_MAX_IP_def)
  show "lease d' ! j = lease d ! j
      \<or> lease_expired (lease d ! j) (ticks j) \<and> lease d' ! j = (lease d ! j)\<lparr>mac := zero_mac\<rparr>
      \<or> mac (lease d ! j) \<in> {take 6 (drop 28 msg), zero_mac}
        \<and> lease d' ! j = \<lparr>mac = take 6 (drop 28 msg),
            expiry = ucast (drop_bit 16 (ticks 0 + DEFAULT_LEASE_TIME_S * 1000))\<rparr>" if "j < 8"
    using cases
  proof cases
    case 2
    then show ?thesis using dhcp_discover_result(6) [OF _ assms(2) that] by blast
  next
    case 3
    then obtain r where r: "dhcp_request_spec (ticks 0) (drop 240 msg) ch d = (d', r)" by blast
    show ?thesis
    proof (cases r)
      case None
      then show ?thesis using dhcp_request_spec_result(5) [OF r assms(2) ch [OF 3(1)]] by simp
    next
      case (Some yi)
      then show ?thesis
        using dhcp_request_spec_result(6) [OF r assms(2) ch [OF 3(1)], of yi] len that
        by (cases "j = yi") (auto simp: dhcp_grant_def mac)
    qed
  qed simp
qed

lemma length_dhcp_reply: "243 \<le> length msg \<Longrightarrow> length (dhcp_reply d t yi msg) = 274"
  by (simp add: dhcp_reply_def)

lemma dhcp_handle_out:
  "dhcp_handle alloc ticks d msg = (d', out) \<Longrightarrow> dg \<in> set out \<Longrightarrow>
     dg_addr dg = 0xffffffff \<and> dg_port dg = 68 \<and> length (dg_payload dg) = 274"
  by (auto simp: dhcp_handle_def dhcp_case_def Let_def length_dhcp_reply
      split: if_splits option.splits list.splits prod.splits)

interpretation dhcp_machine: safe_machine dhcp_step dhcp_log_ok dhcp_event_ok
proof
  fix s e
  assume s: "dhcp_log_ok s" and e: "dhcp_event_ok e"
  define msg where "msg = pbuf_copy_partial (de_pbuf e) sizeof_dhcp_msg 0"
  obtain d' out where h: "dhcp_handle (de_alloc e) (de_ticks e) (fst s) msg = (d', out)" by fastforce
  have "dhcp_step s e = Some (d', snd s @ out)"
    using e dhcp_server_process_refines [of "de_pbuf e" "de_stack e" "de_alloc e" "de_ticks e" "fst s"] h
    by (simp add: dhcp_step_def dhcp_event_ok_def msg_def)
  moreover have "dhcp_log_ok (d', snd s @ out)"
    using s dhcp_handle_slots(1) [OF h] dhcp_handle_out [OF h] by (auto simp: dhcp_log_ok_def)
  ultimately show "\<exists>s'. dhcp_step s e = Some s' \<and> dhcp_log_ok s'" by blast
qed

text \<open>A lease given at time \<open>t\<close> or renewed in the day after it, in slot \<open>yi\<close> to client \<open>c\<close>.\<close>

definition lease_held :: "nat \<Rightarrow> u8 list \<Rightarrow> u32 \<Rightarrow> dhcp_log \<Rightarrow> bool" where
  "lease_held yi c t s \<longleftrightarrow> dhcp_log_ok s \<and> yi < 8 \<and> c \<noteq> zero_mac \<and> mac (lease (fst s) ! yi) = c
     \<and> (\<exists>r \<le> 86400000. expiry (lease (fst s) ! yi)
          = ucast (drop_bit 16 (t + of_nat r + DEFAULT_LEASE_TIME_S * 1000)))"

definition within_day :: "u32 \<Rightarrow> dhcp_event \<Rightarrow> bool" where
  "within_day t e \<longleftrightarrow> dhcp_event_ok e \<and> (\<forall>i. \<exists>n \<le> 86400000. de_ticks e i = t + of_nat n)"

interpretation lease_machine: safe_machine dhcp_step "lease_held yi c t" "within_day t" for yi c t
proof
  fix s e
  assume s: "lease_held yi c t s" and e: "within_day t e"
  have ok: "dhcp_log_ok s" "dhcp_event_ok e" using s e by (simp_all add: lease_held_def within_day_def)
  then obtain s' where s': "dhcp_step s e = Some s'" "dhcp_log_ok s'"
    using dhcp_machine.handle_safe by blast
  define msg where "msg = pbuf_copy_partial (de_pbuf e) sizeof_dhcp_msg 0"
  obtain d' out where h: "dhcp_handle (de_alloc e) (de_ticks e) (fst s) msg = (d', out)" by fastforce
  have d': "fst s' = d'"
    using s'(1) ok(2) dhcp_server_process_refines [of "de_pbuf e" "de_stack e" "de_alloc e" "de_ticks e" "fst s"] h
    by (auto simp: dhcp_step_def dhcp_event_ok_def msg_def)
  from s have l: "yi < 8" "c \<noteq> zero_mac" "mac (lease (fst s) ! yi) = c"
    by (simp_all add: lease_held_def)
  obtain r where r: "r \<le> 86400000" "expiry (lease (fst s) ! yi)
      = ucast (drop_bit 16 (t + of_nat r + DEFAULT_LEASE_TIME_S * 1000))"
    using s by (auto simp: lease_held_def)
  have "\<exists>n \<le> 86400000. de_ticks e i = t + of_nat n" for i using e by (simp add: within_day_def)
  then obtain n0 ny where n: "n0 \<le> 86400000" "de_ticks e 0 = t + of_nat n0"
      "ny \<le> 86400000" "de_ticks e yi = t + of_nat ny" by meson
  have "\<not> lease_expired (lease (fst s) ! yi) (de_ticks e yi)"
    using lease_alive [OF r(2,1) n(3)] n(4) by simp
  moreover have "wf_leases (lease (fst s))" using ok(1) by (simp add: dhcp_log_ok_def)
  ultimately have "lease d' ! yi = lease (fst s) ! yi
      \<or> c = take 6 (drop 28 msg) \<and> lease d' ! yi = \<lparr>mac = take 6 (drop 28 msg),
          expiry = ucast (drop_bit 16 (de_ticks e 0 + DEFAULT_LEASE_TIME_S * 1000))\<rparr>"
    using dhcp_handle_slots(5) [OF h _ l(1)] l by auto
  then have "lease_held yi c t s'"
    using s'(2) l r n(1,2) d' unfolding lease_held_def by (elim disjE) auto
  with s'(1) show "\<exists>s'. dhcp_step s e = Some s' \<and> lease_held yi c t s'" by blast
qed

section \<open>Messages\<close>

text \<open>A client's message: the fixed header around its hardware address, the cookie, the options.\<close>

definition dhcp_message :: "u8 list \<Rightarrow> u8 list \<Rightarrow> u8 list \<Rightarrow> (u8 \<times> u8 list) list \<Rightarrow> u8 list \<Rightarrow> u8 list" where
  "dhcp_message hdr chaddr names opts tail =
     hdr @ chaddr @ names @ encode_options opts @ DHCP_OPT_END # tail"

definition dhcp_message_ok :: "u8 list \<Rightarrow> u8 list \<Rightarrow> u8 list \<Rightarrow> (u8 \<times> u8 list) list \<Rightarrow> bool" where
  "dhcp_message_ok hdr chaddr names opts \<longleftrightarrow> length hdr = 28 \<and> length chaddr = 16 \<and> length names = 196
     \<and> (\<forall>o' \<in> set opts. valid_option o') \<and> length (encode_options opts) \<le> 300"

lemma dhcp_handle_message:
  assumes "dhcp_message_ok hdr ch names opts" "map_of opts DHCP_OPT_MSG_TYPE = Some [t]"
  shows "dhcp_handle alloc ticks d (take 548 (dhcp_message hdr ch names opts tail))
    = dhcp_case alloc ticks d (take 548 (dhcp_message hdr ch names opts tail)) t"
    and "dhcp_option (drop 240 (take 548 (dhcp_message hdr ch names opts tail))) = map_of opts"
    and "take 16 (drop 28 (take 548 (dhcp_message hdr ch names opts tail))) = ch"
    and "243 \<le> length (take 548 (dhcp_message hdr ch names opts tail))"
proof -
  let ?msg = "take 548 (dhcp_message hdr ch names opts tail)"
  have "opts \<noteq> []" using assms(2) by auto
  then have enc: "2 \<le> length (encode_options opts)"
    by (cases opts) (simp_all add: encode_option_def)
  have len: "length hdr = 28" "length ch = 16" "length names = 196" "length (encode_options opts) \<le> 300"
    using assms(1) by (simp_all add: dhcp_message_ok_def)
  have "drop 240 ?msg = take 308 (encode_options opts @ DHCP_OPT_END # tail)"
    using len by (simp add: dhcp_message_def drop_take)
  also have "\<dots> = encode_options opts @ DHCP_OPT_END # take (307 - length (encode_options opts)) tail"
    using len by (simp add: take_Cons')
  finally have "parse_options (drop 240 ?msg) = opts"
    using assms(1) parse_encoded_options by (simp add: dhcp_message_ok_def)
  then show opt: "dhcp_option (drop 240 ?msg) = map_of opts" by (simp add: dhcp_option_def fun_eq_iff)
  show "take 16 (drop 28 ?msg) = ch" using len by (simp add: dhcp_message_def drop_take)
  show ge: "243 \<le> length ?msg" using len enc by (simp add: dhcp_message_def)
  show "dhcp_handle alloc ticks d ?msg = dhcp_case alloc ticks d ?msg t"
    using ge assms(2) unfolding dhcp_handle_def opt by (auto simp del: length_take)
qed

section \<open>Properties\<close>

text \<open>
  C9: Memory safety and refinement of the address server: for every packet, whatever its length and
  bytes, the handler stays inside its 548-byte message structure, and it computes the function
  \<open>dhcp_handle\<close> of the packet's first 548 bytes: options read as a list of entries, the lease
  table updated accordingly, and a reply laid out field by field. Nothing of the uninitialised
  stack reaches the reply.
\<close>

theorem dhcp_server_process_correct:
  assumes "pbuf_holds p bs" and "length stack = sizeof_dhcp_msg"
  shows "dhcp_server_process stack alloc ticks d p = Some (dhcp_handle alloc ticks d (take 548 bs))"
  using dhcp_server_process_refines [OF pbuf_holds_sane [OF assms(1)] assms(2)] assms(1)
  by (simp add: pbuf_holds_def dhcp_layout)

lemma zero_mac_eq: "zero_mac = [0, 0, 0, 0, 0, 0]"
  by code_simp

definition sample_message :: "u8 list \<Rightarrow> (u8 \<times> u8 list) list \<Rightarrow> u8 list" where
  "sample_message m opts = dhcp_message (replicate 28 1) (m @ replicate 10 0) (replicate 196 0) opts []"

definition sample_server :: dhcp_server_t where
  "sample_server = dhcp_server_init True 0
     \<lparr>dhcp_ip = 0, dhcp_nm = 0, lease = [], dhcp_udp = None\<rparr> 0x0104a8c0 0x00ffffff"

theorem dhcp_server_process_correct_witness:
  "dhcp_server_process (replicate 548 0xaa) True (\<lambda>_. 5) sample_server
      (pbuf_of_bytes (sample_message [2, 0, 0, 0, 0, 9] [(53, [1])]))
    = Some (dhcp_handle True (\<lambda>_. 5) sample_server
        (take 548 (sample_message [2, 0, 0, 0, 0, 9] [(53, [1])])))"
  by (rule dhcp_server_process_correct [OF pbuf_holds_of_bytes]) (simp add: dhcp_layout)

text \<open>
  Any stream of packets is handled, and the table keeps its shape: eight slots with six-byte
  hardware addresses. All the server ever sends is a 274-byte broadcast to the client port.
\<close>

lemma dhcp_safe_on_any_stream:
  assumes "\<forall>e \<in> set es. dhcp_event_ok e"
  shows "\<exists>d' log. dhcp_machine.run (dhcp_server_init udp_new_ok bind_err d ip nm, []) es = Some (d', log)
    \<and> length (lease d') = 8 \<and> (\<forall>l \<in> set (lease d'). length (mac l) = 6)
    \<and> (\<forall>dg \<in> set log. dg_addr dg = 0xffffffff \<and> dg_port dg = 68 \<and> length (dg_payload dg) = 274)"
proof -
  have "lease (dhcp_server_init udp_new_ok bind_err d ip nm) = replicate 8 empty_lease"
    by (simp add: dhcp_server_init_def dhcp_socket_new_dgram_def dhcp_socket_bind_def Let_def DHCPS_MAX_IP_def)
  then have "dhcp_log_ok (dhcp_server_init udp_new_ok bind_err d ip nm, [])"
    by (simp add: dhcp_log_ok_def wf_leases_def DHCPS_MAX_IP_def empty_lease_def MAC_LEN_def)
  then obtain s' where "dhcp_machine.run (dhcp_server_init udp_new_ok bind_err d ip nm, []) es = Some s'"
      "dhcp_log_ok s'"
    using dhcp_machine.run_safe assms by blast
  then show ?thesis
    by (cases s') (auto simp: dhcp_log_ok_def wf_leases_def DHCPS_MAX_IP_def MAC_LEN_def)
qed

definition sample_event :: "u32 \<Rightarrow> u8 list \<Rightarrow> (u8 \<times> u8 list) list \<Rightarrow> dhcp_event" where
  "sample_event now m opts = \<lparr>de_stack = replicate 548 0xaa, de_alloc = True, de_ticks = (\<lambda>_. now),
     de_pbuf = pbuf_of_bytes (sample_message m opts)\<rparr>"

lemma sample_event_ok: "dhcp_event_ok (sample_event now m opts)"
  using pbuf_holds_sane [OF pbuf_holds_of_bytes [of "sample_message m opts"]]
  by (simp add: dhcp_event_ok_def sample_event_def dhcp_layout)

text \<open>
  C10: A lease is kept for its 24 hours. If slot \<open>yi\<close> was given to client \<open>c\<close> at time
  \<open>t\<close>, then after any messages from any clients that are handled within 86,400 seconds of
  \<open>t\<close> (the 32-bit millisecond counter may wrap in between) the slot still belongs to
  \<open>c\<close>: no DISCOVER reclaims it and no REQUEST takes it.
\<close>

theorem dhcp_lease_kept_for_a_day:
  assumes "length (lease d) = 8" and "\<forall>l \<in> set (lease d). length (mac l) = 6"
    and "yi < 8" and "mac (lease d ! yi) = c" and "c \<noteq> zero_mac"
    and "expiry (lease d ! yi) = ucast (drop_bit 16 (t + DEFAULT_LEASE_TIME_S * 1000))"
    and "\<forall>e \<in> set es. within_day t e"
  shows "\<exists>d' log. dhcp_machine.run (d, []) es = Some (d', log) \<and> mac (lease d' ! yi) = c"
proof -
  have "lease_held yi c t (d, [])"
    using assms(1-6) unfolding lease_held_def
    by (auto simp: dhcp_log_ok_def wf_leases_def DHCPS_MAX_IP_def MAC_LEN_def intro!: exI [of _ 0])
  then obtain s' where "dhcp_machine.run (d, []) es = Some s'" "lease_held yi c t s'"
    using lease_machine.run_safe assms(7) by blast
  then show ?thesis by (cases s') (auto simp: lease_held_def)
qed

theorem dhcp_lease_kept_for_a_day_witness:
  "\<exists>d' log. dhcp_machine.run (dhcp_grant 0xffffff00 sample_server 3 [2, 0, 0, 0, 0, 9], [])
      [sample_event 100 [4, 4, 4, 4, 4, 4] [(53, [1])]] = Some (d', log)
    \<and> mac (lease d' ! 3) = [2, 0, 0, 0, 0, 9]"
proof -
  have l: "lease (dhcp_grant 0xffffff00 sample_server 3 [2, 0, 0, 0, 0, 9]) = (replicate 8 empty_lease)
      [3 := \<lparr>mac = [2, 0, 0, 0, 0, 9], expiry = ucast (drop_bit 16 (0xffffff00 + DEFAULT_LEASE_TIME_S * 1000))\<rparr>]"
    by (simp add: dhcp_grant_def sample_server_def dhcp_server_init_def dhcp_socket_new_dgram_def
        dhcp_socket_bind_def DHCPS_MAX_IP_def ERR_OK_def empty_lease_def)
  have "(100 :: u32) = 0xffffff00 + of_nat 356" by simp
  then have w: "within_day 0xffffff00 (sample_event 100 [4, 4, 4, 4, 4, 4] [(53, [1])])"
    unfolding within_day_def using sample_event_ok
    by (auto simp: sample_event_def intro!: exI [of _ 356])
  show ?thesis
    by (rule dhcp_lease_kept_for_a_day [where t = "0xffffff00"])
      (use w in \<open>auto simp: l empty_lease_def zero_mac_eq simp del: dhcp_grant_fields
        dest!: set_update_subset_insert [THEN subsetD]\<close>)
qed

lemma dhcp_case_discover:
  assumes "dhcp_discover ticks (take 16 (drop 28 msg)) d = (d', r)"
  shows "dhcp_case alloc ticks d msg DHCPDISCOVER = (d', case r of None \<Rightarrow> []
    | Some yi \<Rightarrow> if alloc then [\<lparr>dg_addr = 0xffffffff, dg_port = 68,
        dg_payload = dhcp_reply d DHCPOFFER yi msg\<rparr>] else [])"
  using assms by (simp add: dhcp_case_def)

lemma dhcp_case_request:
  assumes "dhcp_request_spec (ticks 0) (drop 240 msg) (take 16 (drop 28 msg)) d = (d', r)"
  shows "dhcp_case alloc ticks d msg DHCPREQUEST = (d', case r of None \<Rightarrow> []
    | Some yi \<Rightarrow> if alloc then [\<lparr>dg_addr = 0xffffffff, dg_port = 68,
        dg_payload = dhcp_reply d DHCPACK yi msg\<rparr>] else [])"
  using assms by (simp add: dhcp_case_def DHCPDISCOVER_def DHCPREQUEST_def)

lemma dhcp_base_plus:
  "yi < 8 \<Longrightarrow> unat (DHCPS_BASE_IP + of_nat yi - DHCPS_BASE_IP :: u8) = yi
     \<and> \<not> (DHCPS_BASE_IP + of_nat yi :: u8) < DHCPS_BASE_IP"
  by (auto simp: DHCPS_BASE_IP_def word_less_nat_alt unat_word_ariths unat_of_nat)

lemma dhcp_base_inj:
  assumes "(DHCPS_BASE_IP + of_nat yi :: u8) = DHCPS_BASE_IP + of_nat yi'" "yi < 8" "yi' < 8"
  shows "yi = yi'"
  using dhcp_base_plus [OF assms(2)] dhcp_base_plus [OF assms(3)] unfolding assms(1) by simp

text \<open>The offer's last address byte names the slot that the table holds for the client.\<close>

lemma dhcp_offered_slot:
  assumes "dhcp_case True ticks d msg DHCPDISCOVER = (d', [offer])" "243 \<le> length msg"
    "wf_leases (lease d)" "dg_payload offer ! 19 = 16 + of_nat yi" "yi < 8"
  shows "dhcp_discover ticks (take 16 (drop 28 msg)) d = (d', Some yi)"
proof -
  obtain d1 r where r: "dhcp_discover ticks (take 16 (drop 28 msg)) d = (d1, r)" by fastforce
  with assms(1) have d1: "d1 = d'" and "\<exists>yi'. r = Some yi' \<and> dg_payload offer = dhcp_reply d DHCPOFFER yi' msg"
    using dhcp_case_discover [OF r, of True] by (auto split: option.splits)
  then obtain yi' where r': "r = Some yi'" "dg_payload offer = dhcp_reply d DHCPOFFER yi' msg" by blast
  have "dhcp_reply d DHCPOFFER yi' msg ! 19 = DHCPS_BASE_IP + of_nat yi'"
    using assms(2) by (simp add: dhcp_reply_def nth_append)
  then have "(DHCPS_BASE_IP + of_nat yi' :: u8) = DHCPS_BASE_IP + of_nat yi"
    using assms(4) r'(2) by (simp add: DHCPS_BASE_IP_def)
  moreover have "yi' < 8" using dhcp_discover_result(5) [OF r assms(3) r'(1)] by simp
  ultimately have "yi' = yi" using assms(5) by (rule dhcp_base_inj)
  with r r'(1) d1 show ?thesis by simp
qed

text \<open>A client that asks for the slot that is its own or nobody's gets it.\<close>

lemma dhcp_grantable_own:
  assumes "yi < 8" "mac (lease d ! yi) = take MAC_LEN ch \<or> mac (lease d ! yi) = zero_mac"
  shows "dhcp_grantable d ch (take 3 (mem_bytes32 (dhcp_ip d)) @ [DHCPS_BASE_IP + of_nat yi]) = Some yi"
  using assms dhcp_base_plus [OF assms(1)]
  by (auto simp: dhcp_grantable_def mem_bytes32_def DHCPS_MAX_IP_def)

text \<open>
  C35: An offer is kept. When a DISCOVER is answered with an offer of address number \<open>yi\<close>, a
  REQUEST of the same client for that address, handled next, is acknowledged: the reply is the ACK
  for the offered address, and the slot is then the client's, for a day from that moment.
\<close>

theorem dhcp_offer_then_ack:
  assumes "dhcp_message_ok hdr1 ch names1 opts1" and "map_of opts1 DHCP_OPT_MSG_TYPE = Some [DHCPDISCOVER]"
    and "dhcp_message_ok hdr2 ch names2 opts2" and "map_of opts2 DHCP_OPT_MSG_TYPE = Some [DHCPREQUEST]"
    and "map_of opts2 DHCP_OPT_REQUESTED_IP = Some (take 3 (mem_bytes32 (dhcp_ip d)) @ [16 + of_nat yi])"
    and "pbuf_holds p1 (dhcp_message hdr1 ch names1 opts1 tail1)"
    and "pbuf_holds p2 (dhcp_message hdr2 ch names2 opts2 tail2)"
    and "length stack1 = sizeof_dhcp_msg" and "length stack2 = sizeof_dhcp_msg"
    and "length (lease d) = 8" and "\<forall>l \<in> set (lease d). length (mac l) = 6"
    and "dhcp_server_process stack1 True ticks1 d p1 = Some (d1, [offer])"
    and "dg_payload offer ! 19 = 16 + of_nat yi" and "yi < 8"
  shows "\<exists>d2. dhcp_server_process stack2 True ticks2 d1 p2 = Some (d2,
      [\<lparr>dg_addr = 0xffffffff, dg_port = 68, dg_payload =
        dhcp_reply d DHCPACK yi (take 548 (dhcp_message hdr2 ch names2 opts2 tail2))\<rparr>])
    \<and> lease d2 ! yi = \<lparr>mac = take 6 ch,
        expiry = ucast (drop_bit 16 (ticks2 0 + DEFAULT_LEASE_TIME_S * 1000))\<rparr>"
proof -
  define m1 where "m1 = take 548 (dhcp_message hdr1 ch names1 opts1 tail1)"
  define m2 where "m2 = take 548 (dhcp_message hdr2 ch names2 opts2 tail2)"
  note msg1 = dhcp_handle_message [OF assms(1,2), where tail = tail1, folded m1_def]
  note msg2 = dhcp_handle_message [OF assms(3,4), where tail = tail2, folded m2_def]
  have wf: "wf_leases (lease d)" using assms(10,11) by (simp add: wf_leases_def DHCPS_MAX_IP_def MAC_LEN_def)
  have "dhcp_handle True ticks1 d m1 = (d1, [offer])"
    using dhcp_server_process_refines [OF pbuf_holds_sane [OF assms(6)] assms(8)] assms(6,12)
    by (simp add: pbuf_holds_def dhcp_layout m1_def)
  then have disc: "dhcp_discover ticks1 ch d = (d1, Some yi)"
    using dhcp_offered_slot [OF _ msg1(4) wf assms(13,14)] msg1(1,3) by simp
  note d1 = dhcp_discover_result [OF disc wf]
  have "dhcp_grantable d1 ch (take 3 (mem_bytes32 (dhcp_ip d)) @ [16 + of_nat yi]) = Some yi"
    using dhcp_grantable_own [OF assms(14), of d1 ch] d1(5) [OF refl] d1(2) by (simp add: DHCPS_BASE_IP_def)
  then have req: "dhcp_request_spec (ticks2 0) (drop 240 m2) ch d1
      = (dhcp_grant (ticks2 0) d1 yi (take MAC_LEN ch), Some yi)"
    using msg2(2) assms(5) by (simp add: dhcp_request_spec_def)
  have "dhcp_reply d1 DHCPACK yi m2 = dhcp_reply d DHCPACK yi m2" using d1(2,3) by (simp add: dhcp_reply_def)
  then have "dhcp_server_process stack2 True ticks2 d1 p2 = Some (dhcp_grant (ticks2 0) d1 yi (take MAC_LEN ch),
      [\<lparr>dg_addr = 0xffffffff, dg_port = 68, dg_payload = dhcp_reply d DHCPACK yi m2\<rparr>])"
    using dhcp_server_process_refines [OF pbuf_holds_sane [OF assms(7)] assms(9)] assms(7)
      dhcp_case_request [of ticks2 m2 d1 _ _ True] req msg2(1,3)
    by (simp add: pbuf_holds_def dhcp_layout m2_def [symmetric])
  moreover have "length (lease d1) = 8" using d1(1) by (simp add: wf_leases_def DHCPS_MAX_IP_def)
  ultimately show ?thesis using assms(14) by (simp add: m2_def dhcp_grant_def MAC_LEN_def)
qed

lemma sample_message_ok:
  "list_all valid_option opts \<Longrightarrow> length m = 6 \<Longrightarrow> length (encode_options opts) \<le> 300
    \<Longrightarrow> dhcp_message_ok (replicate 28 1) (m @ replicate 10 0) (replicate 196 0) opts"
  by (simp add: dhcp_message_ok_def list_all_iff)

lemma sample_discover: "dhcp_discover (\<lambda>_. 5) ([2, 0, 0, 0, 0, 9] @ replicate 10 0) sample_server
    = (sample_server, Some 0)"
  by code_simp

definition sample_request_options :: "(u8 \<times> u8 list) list" where
  "sample_request_options = [(53, [3]), (50, [192, 168, 4, 16])]"

theorem dhcp_offer_then_ack_witness:
  "\<exists>d2 ack. dhcp_server_process (replicate 548 0) True (\<lambda>_. 9) sample_server
      (pbuf_of_bytes (sample_message [2, 0, 0, 0, 0, 9] sample_request_options)) = Some (d2, [ack])
    \<and> mac (lease d2 ! 0) = [2, 0, 0, 0, 0, 9]"
proof -
  let ?ch = "[2, 0, 0, 0, 0, 9] @ replicate 10 0 :: u8 list"
  let ?m = "take 548 (sample_message [2, 0, 0, 0, 0, 9] [(53, [1])])"
  have ok1: "dhcp_message_ok (replicate 28 1) ?ch (replicate 196 0) [(53, [1])]"
    by (rule sample_message_ok) (simp_all add: valid_option_def dhcp_consts encode_option_def)
  have ok2: "dhcp_message_ok (replicate 28 1) ?ch (replicate 196 0) sample_request_options"
    by (rule sample_message_ok)
      (simp_all add: sample_request_options_def valid_option_def dhcp_consts encode_option_def)
  have t: "map_of [(53, [1])] DHCP_OPT_MSG_TYPE = Some [DHCPDISCOVER]" by (simp add: dhcp_consts)
  note msg = dhcp_handle_message [OF ok1 t, where tail = "[]", folded sample_message_def]
  have disc: "dhcp_discover (\<lambda>_. 5) (take 16 (drop 28 ?m)) sample_server = (sample_server, Some 0)"
    using sample_discover by (simp only: msg(3))
  define offer where "offer = \<lparr>dg_addr = 0xffffffff, dg_port = 68 :: u16,
    dg_payload = dhcp_reply sample_server DHCPOFFER 0 ?m\<rparr>"
  have o19: "dg_payload offer ! 19 = 16 + of_nat 0"
    using msg(4) by (simp add: offer_def dhcp_reply_def nth_append DHCPS_BASE_IP_def)
  have "pbuf_copy_partial (pbuf_of_bytes (sample_message [2, 0, 0, 0, 0, 9] [(53, [1])])) 548 0 = ?m"
    by (simp add: pbuf_of_bytes_def)
  then have p: "dhcp_server_process (replicate 548 0xaa) True (\<lambda>_. 5) sample_server
      (pbuf_of_bytes (sample_message [2, 0, 0, 0, 0, 9] [(53, [1])])) = Some (sample_server, [offer])"
    using dhcp_server_process_refines [OF pbuf_holds_sane [OF pbuf_holds_of_bytes], of "replicate 548 0xaa"]
      dhcp_case_discover [OF disc, of True] msg(1) by (simp add: dhcp_layout offer_def)
  have req: "map_of sample_request_options DHCP_OPT_MSG_TYPE = Some [DHCPREQUEST]"
    "map_of sample_request_options DHCP_OPT_REQUESTED_IP
      = Some (take 3 (mem_bytes32 (dhcp_ip sample_server)) @ [16 + of_nat 0])"
    by code_simp+
  have l: "lease sample_server = replicate 8 empty_lease" by code_simp
  have wf: "length (lease sample_server) = 8" "\<forall>l \<in> set (lease sample_server). length (mac l) = 6"
    by (simp_all add: l empty_lease_def)
  from dhcp_offer_then_ack [OF ok1 t ok2 req pbuf_holds_of_bytes pbuf_holds_of_bytes _ _ wf
      p [unfolded sample_message_def] o19, of "replicate 548 0" "\<lambda>_. 9" "[]"]
  show ?thesis
    by (auto simp: dhcp_layout sample_message_def)
qed

text \<open>The search fails exactly when every slot is held by another client.\<close>

lemma discover_from_none:
  assumes "length ls = 8" "i + k = 8" "yi \<le> 8"
  shows "snd (discover_from ticks chaddr ls i yi) = 8 \<longleftrightarrow> yi = 8 \<and>
    (\<forall>j. i \<le> j \<and> j < 8 \<longrightarrow> mac (ls ! j) \<noteq> take MAC_LEN chaddr \<and> mac (ls ! j) \<noteq> zero_mac
       \<and> \<not> lease_expired (ls ! j) (ticks j))"
  using assms
proof (induction k arbitrary: ls i yi)
  case 0
  then show ?case by (subst discover_from.simps) (auto simp: DHCPS_MAX_IP_def)
next
  case (Suc k)
  then have i: "i < 8" by simp
  have split: "(\<forall>j. i \<le> j \<and> j < 8 \<longrightarrow> P j) \<longleftrightarrow> P i \<and> (\<forall>j. i + 1 \<le> j \<and> j < 8 \<longrightarrow> P j)" for P
    using i by (metis Suc_eq_plus1 Suc_leD le_antisym not_less_eq_eq order_refl)
  show ?case
  proof (cases "mac (ls ! i) = take MAC_LEN chaddr")
    case True
    then show ?thesis
      using i by (subst discover_from.simps) (auto simp: DHCPS_MAX_IP_def)
  next
    case False
    note step = discover_from_step [OF i False, of ticks yi]
    show ?thesis
    proof (cases "yi = 8 \<and> lease_expired (ls ! i) (ticks i)")
      case True
      then show ?thesis
        using Suc.IH [of "ls[i := (ls ! i)\<lparr>mac := zero_mac\<rparr>]" "i + 1" i] Suc.prems i
        unfolding step split [where P = "\<lambda>j. mac (ls ! j) \<noteq> take MAC_LEN chaddr \<and> mac (ls ! j) \<noteq> zero_mac
          \<and> \<not> lease_expired (ls ! j) (ticks j)"] by auto
    next
      case neg: False
      then show ?thesis
        using Suc.IH [of ls "i + 1" "if yi = 8 \<and> mac (ls ! i) = zero_mac then i else yi"] Suc.prems i False
        unfolding step if_not_P [OF neg] split [where P = "\<lambda>j. mac (ls ! j) \<noteq> take MAC_LEN chaddr
          \<and> mac (ls ! j) \<noteq> zero_mac \<and> \<not> lease_expired (ls ! j) (ticks j)"] by auto
    qed
  qed
qed

text \<open>
  A DISCOVER is answered exactly when the server has an address for the client: a slot that is
  already the client's, or one that nobody holds or whose lease has expired. Otherwise it is ignored
  and the table is unchanged.
\<close>

lemma dhcp_discover_answered_iff:
  assumes "dhcp_message_ok hdr ch names opts" and "map_of opts DHCP_OPT_MSG_TYPE = Some [DHCPDISCOVER]"
    and "pbuf_holds p (dhcp_message hdr ch names opts tail)" and "length stack = sizeof_dhcp_msg"
    and "length (lease d) = 8" and "\<forall>l \<in> set (lease d). length (mac l) = 6"
  shows "\<exists>d' out. dhcp_server_process stack True ticks d p = Some (d', out)
    \<and> (out \<noteq> [] \<longleftrightarrow> (\<exists>j < 8. mac (lease d ! j) = take 6 ch \<or> mac (lease d ! j) = replicate 6 0
          \<or> lease_expired (lease d ! j) (ticks j)))
    \<and> (out = [] \<longrightarrow> d' = d)"
proof -
  define m where "m = take 548 (dhcp_message hdr ch names opts tail)"
  note msg = dhcp_handle_message [OF assms(1,2), where tail = tail, folded m_def]
  obtain ls yi where disc: "discover_from ticks ch (lease d) 0 8 = (ls, yi)" by fastforce
  have none: "yi = 8 \<longleftrightarrow> (\<forall>j < 8. mac (lease d ! j) \<noteq> take 6 ch \<and> mac (lease d ! j) \<noteq> replicate 6 0
      \<and> \<not> lease_expired (lease d ! j) (ticks j))"
    using discover_from_none [of "lease d" 0 8 8 ticks ch] assms(5) disc
    by (simp add: zero_mac_def MAC_LEN_def)
  have len: "length ls = 8"
    and "\<forall>j < 8. ls ! j = lease d ! j \<or> lease_expired (lease d ! j) (ticks j)"
    using discover_from_result [OF disc assms(5), of 8] by auto
  then have same: "yi = 8 \<Longrightarrow> ls = lease d"
    using none assms(5) by (metis nth_equalityI)
  have "dhcp_discover ticks (take 16 (drop 28 m)) d = (d\<lparr>lease := ls\<rparr>, if yi = 8 then None else Some yi)"
    using disc msg(3) by (simp add: dhcp_discover_def DHCPS_MAX_IP_def)
  from dhcp_case_discover [OF this, of True]
  have "dhcp_server_process stack True ticks d p = Some (d\<lparr>lease := ls\<rparr>, if yi = 8 then []
      else [\<lparr>dg_addr = 0xffffffff, dg_port = 68, dg_payload = dhcp_reply d DHCPOFFER yi m\<rparr>])"
    using dhcp_server_process_refines [OF pbuf_holds_sane [OF assms(3)] assms(4)] assms(3) msg(1)
    by (auto simp: pbuf_holds_def dhcp_layout m_def)
  then show ?thesis using none same by auto
qed

text \<open>What every reply says, whatever the message it answers.\<close>

lemma dhcp_reply_options:
  assumes "240 \<le> length msg"
  shows "take 4 (drop 16 (dhcp_reply d ty yi msg)) = take 3 (mem_bytes32 (dhcp_ip d)) @ [16 + of_nat yi]"
    and "parse_options (drop 240 (dhcp_reply d ty yi msg)) =
        [(53, [ty]), (54, mem_bytes32 (dhcp_ip d)), (1, mem_bytes32 (dhcp_nm d)),
         (3, mem_bytes32 (dhcp_ip d)), (6, mem_bytes32 (dhcp_ip d)), (51, [0, 1, 0x51, 0x80])]"
      (is "_ = ?opts")
proof -
  have "[53, 1, ty] @ dhcp_options d = encode_options ?opts @ DHCP_OPT_END # []"
    by (simp add: dhcp_options_def encode_option_def DHCP_OPT_END_def)
  moreover have "parse_options (encode_options ?opts @ DHCP_OPT_END # []) = ?opts"
    by (rule parse_encoded_options) (simp add: valid_option_def dhcp_consts)
  ultimately have opts: "parse_options ([53, 1, ty] @ dhcp_options d) = ?opts" by simp
  have r: "dhcp_reply d ty yi msg = [2] @ take 15 (drop 1 msg) @ take 3 (mem_bytes32 (dhcp_ip d))
      @ [16 + of_nat yi] @ take 220 (drop 20 msg) @ ([53, 1, ty] @ dhcp_options d)"
    by (simp add: dhcp_reply_def dhcp_options_def DHCPS_BASE_IP_def)
  show "take 4 (drop 16 (dhcp_reply d ty yi msg)) = take 3 (mem_bytes32 (dhcp_ip d)) @ [16 + of_nat yi]"
    "parse_options (drop 240 (dhcp_reply d ty yi msg)) = ?opts"
    using assms opts by (simp_all add: r)
qed

lemma dhcp_handle_reply:
  assumes "dhcp_handle alloc ticks d msg = (d', out)" "dg \<in> set out" "wf_leases (lease d)"
  obtains yi ty where "yi < 8" "ty = 2 \<or> ty = 5" "243 \<le> length msg"
    "dg = \<lparr>dg_addr = 0xffffffff, dg_port = 68, dg_payload = dhcp_reply d ty yi msg\<rparr>"
proof -
  have len: "243 \<le> length msg" using assms(1,2) by (auto simp: dhcp_handle_def split: if_split_asm)
  obtain t where "dhcp_case alloc ticks d msg t = (d', out)"
    using assms(1,2) by (auto simp: dhcp_handle_def split: if_split_asm option.split_asm list.split_asm)
  then obtain yi where yi: "t = DHCPDISCOVER \<and> dhcp_discover ticks (take 16 (drop 28 msg)) d = (d', Some yi)
        \<or> t = DHCPREQUEST \<and> dhcp_request_spec (ticks 0) (drop 240 msg) (take 16 (drop 28 msg)) d = (d', Some yi)"
      "dg = \<lparr>dg_addr = 0xffffffff, dg_port = 68,
        dg_payload = dhcp_reply d (if t = DHCPDISCOVER then DHCPOFFER else DHCPACK) yi msg\<rparr>"
    using assms(2)
    by (auto simp: dhcp_case_def DHCPDISCOVER_def DHCPREQUEST_def split: if_splits option.splits prod.splits)
  have "yi < 8"
    using yi(1) dhcp_discover_result(5) [OF _ assms(3)] dhcp_request_spec_result(6) [OF _ assms(3)] len by fastforce
  then show thesis using that [OF _ _ len yi(2)] by (simp add: DHCPOFFER_def DHCPACK_def)
qed

lemma dhcp_reply_message:
  assumes "dhcp_message_ok hdr ch names opts"
  defines "r d ty yi tail \<equiv> dhcp_reply d ty yi (take 548 (dhcp_message hdr ch names opts tail))"
  shows "take 4 (drop 4 (r d ty yi tail)) = take 4 (drop 4 hdr)" "take 16 (drop 28 (r d ty yi tail)) = ch"
    "r d ty yi tail ! 0 = 2"
    "take 4 (drop 16 (r d ty yi tail)) = take 3 (mem_bytes32 (dhcp_ip d)) @ [16 + of_nat yi]"
    "parse_options (drop 240 (r d ty yi tail)) =
        [(53, [ty]), (54, mem_bytes32 (dhcp_ip d)), (1, mem_bytes32 (dhcp_nm d)),
         (3, mem_bytes32 (dhcp_ip d)), (6, mem_bytes32 (dhcp_ip d)), (51, [0, 1, 0x51, 0x80])]"
      (is "_ = ?opts")
proof -
  have len: "length hdr = 28" "length ch = 16" "length names = 196"
    using assms(1) by (simp_all add: dhcp_message_ok_def)
  have msg: "240 \<le> length (take 548 (dhcp_message hdr ch names opts tail))" for tail
    using len by (simp add: dhcp_message_def)
  have r: "r d ty yi tail = [2] @ take 15 (drop 1 hdr) @ take 3 (mem_bytes32 (dhcp_ip d))
      @ [16 + of_nat yi] @ drop 20 hdr @ ch @ names @ ([53, 1, ty] @ dhcp_options d)"
    using len by (simp add: r_def dhcp_reply_def dhcp_message_def dhcp_options_def drop_take DHCPS_BASE_IP_def)
  show "take 4 (drop 4 (r d ty yi tail)) = take 4 (drop 4 hdr)" "take 16 (drop 28 (r d ty yi tail)) = ch"
    "r d ty yi tail ! 0 = 2"
    using len by (simp_all add: r drop_take)
  show "take 4 (drop 16 (r d ty yi tail)) = take 3 (mem_bytes32 (dhcp_ip d)) @ [16 + of_nat yi]"
    "parse_options (drop 240 (r d ty yi tail)) = ?opts"
    unfolding r_def by (rule dhcp_reply_options [OF msg])+
qed



end
