(* ===== verification/DnsServer.thy ===== *)
theory DnsServer
  imports Lwip
begin

text \<open>
  src/dnsserver/dnsserver.c: the captive portal's name server, which answers every standard query
  with the access point's own address. The message lives in a 300-byte stack buffer; every access
  to it is bounds-checked in the model, \<open>None\<close> standing for an access outside, and a request
  that the code ignores is answered with no datagram.
\<close>

section \<open>The code\<close>

definition MAX_DNS_MSG_SIZE :: nat where "MAX_DNS_MSG_SIZE = 300"

text \<open>\<open>sizeof(dns_header_t)\<close>: six 16-bit fields.\<close>

definition dns_header_size :: nat where "dns_header_size = 12"

datatype qname_result = QnameEnd nat | QnameUnterminated | QnameInvalid

text \<open>The loop over the labels of the question's name, from position \<open>question_ptr\<close>.\<close>

function qname_loop :: "u8 list \<Rightarrow> nat \<Rightarrow> nat \<Rightarrow> qname_result option" where
  "qname_loop dns_msg question_ptr_end question_ptr =
     (if question_ptr < question_ptr_end then
        (case buf_get dns_msg question_ptr of
           None \<Rightarrow> None
         | Some b \<Rightarrow>
             if b = 0 then Some (QnameEnd (question_ptr + 1))
             else
               (let label_len = unat b; next_ptr = question_ptr + 1
                in if label_len > 63 then Some QnameInvalid
                   else if next_ptr + label_len > question_ptr_end then Some QnameInvalid
                   else qname_loop dns_msg question_ptr_end (next_ptr + label_len)))
      else Some QnameUnterminated)"
  by pat_completeness auto
termination
  by (relation "measure (\<lambda>(buf, stop, pos). stop - pos)") auto

declare qname_loop.simps [simp del]

definition dns_answer :: "ip_addr_t \<Rightarrow> u8 list" where
  "dns_answer ip = [0xc0, of_nat dns_header_size, 0, 1, 0, 1, 0, 0, 0, 60, 0, 4] @ mem_bytes32 ip"

definition dns_socket_sendto ::
  "bool \<Rightarrow> u8 list \<Rightarrow> ip_addr_t \<Rightarrow> u16 \<Rightarrow> udp_datagram list" where
  "dns_socket_sendto pbuf_alloc buf dest port =
     (let len = (if length buf > 0xffff then 0xffff else length buf)
      in if \<not> pbuf_alloc then []
         else [\<lparr>dg_addr = dest, dg_port = port, dg_payload = take len buf\<rparr>])"

text \<open>
  \<open>stack\<close> is the uninitialised array \<open>dns_msg\<close>. The steps after the guards are: the 16
  answer bytes behind the question, then the header fields (flags 0x8480, one question, one
  answer, no other records), then the send of everything up to the end of the answer.
\<close>

definition dns_server_process ::
  "u8 list \<Rightarrow> bool \<Rightarrow> ip_addr_t \<Rightarrow> pbuf \<Rightarrow> ip_addr_t \<Rightarrow> u16 \<Rightarrow> udp_datagram list option" where
  "dns_server_process stack pbuf_alloc d_ip p src_addr src_port =
     (let copied = pbuf_copy_partial p MAX_DNS_MSG_SIZE 0; msg_len = length copied in
      do {
        dns_msg \<leftarrow> buf_put stack 0 copied;
        if msg_len < dns_header_size then Some []
        else do {
          f0 \<leftarrow> buf_get dns_msg 2; f1 \<leftarrow> buf_get dns_msg 3;
          c0 \<leftarrow> buf_get dns_msg 4; c1 \<leftarrow> buf_get dns_msg 5;
          let flags = be16 f0 f1;
          let question_count = be16 c0 c1;
          if drop_bit 15 flags AND 0x1 \<noteq> 0 then Some []
          else if drop_bit 11 flags AND 0xf \<noteq> 0 then Some []
          else if question_count < 1 then Some []
          else do {
            let question_ptr_start = dns_header_size;
            let question_ptr_end = msg_len;
            r \<leftarrow> qname_loop dns_msg question_ptr_end question_ptr_start;
            case r of
              QnameInvalid \<Rightarrow> Some []
            | QnameUnterminated \<Rightarrow> Some []
            | QnameEnd question_ptr \<Rightarrow>
                if question_ptr - question_ptr_start > 255 then Some []
                else if question_ptr + 4 > question_ptr_end then Some []
                else do {
                  let answer_ptr = question_ptr + 4;
                  if answer_ptr + 16 > MAX_DNS_MSG_SIZE then Some []
                  else do {
                    dns_msg \<leftarrow> buf_put dns_msg answer_ptr (dns_answer d_ip);
                    dns_msg \<leftarrow> buf_put dns_msg 2 [0x84, 0x80];
                    dns_msg \<leftarrow> buf_put dns_msg 4 [0, 1];
                    dns_msg \<leftarrow> buf_put dns_msg 6 [0, 1];
                    dns_msg \<leftarrow> buf_put dns_msg 8 [0, 0];
                    dns_msg \<leftarrow> buf_put dns_msg 10 [0, 0];
                    Some (dns_socket_sendto pbuf_alloc (take (answer_ptr + 16) dns_msg) src_addr src_port)
                  }
                }
          }
        }
      })"

section \<open>Names on the wire\<close>

text \<open>RFC 1035's encoding of a name: each label after its length, and a zero byte.\<close>

definition encode_label :: "u8 list \<Rightarrow> u8 list" where
  "encode_label l = of_nat (length l) # l"

definition encode_qname :: "u8 list list \<Rightarrow> u8 list" where
  "encode_qname ls = concat (map encode_label ls) @ [0]"

definition valid_label :: "u8 list \<Rightarrow> bool" where
  "valid_label l \<longleftrightarrow> 1 \<le> length l \<and> length l \<le> 63"

lemma encode_qname_simps [simp]:
  "encode_qname [] = [0]" "encode_qname (l # ls) = encode_label l @ encode_qname ls"
  by (simp_all add: encode_qname_def)

lemma label_length_byte:
  assumes "valid_label l"
  shows "unat (of_nat (length l) :: u8) = length l"
  using assms by (simp add: valid_label_def unat_of_nat)

text \<open>Every well-formed name is accepted, up to its end.\<close>

lemma qname_loop_encoded:
  assumes "\<forall>l \<in> set ls. valid_label l" "length pre + length (encode_qname ls) \<le> stop"
  shows "qname_loop (pre @ encode_qname ls @ rest) stop (length pre)
    = Some (QnameEnd (length pre + length (encode_qname ls)))"
  using assms
proof (induction ls arbitrary: pre)
  case Nil
  then show ?case by (subst qname_loop.simps) (simp add: buf_get_def nth_append)
next
  case (Cons l ls)
  have v: "valid_label l" using Cons.prems by simp
  then have n: "unat (of_nat (length l) :: u8) = length l" by (rule label_length_byte)
  moreover have "(of_nat (length l) :: u8) \<noteq> 0" using n v by (auto simp: valid_label_def)
  moreover have "qname_loop ((pre @ encode_label l) @ encode_qname ls @ rest) stop (length (pre @ encode_label l))
      = Some (QnameEnd (length (pre @ encode_label l) + length (encode_qname ls)))"
    using Cons.prems by (intro Cons.IH) auto
  ultimately show ?case
    using Cons.prems v
    by (subst qname_loop.simps)
      (simp add: buf_get_def nth_append encode_label_def Let_def valid_label_def)
qed

text \<open>And only well-formed names are.\<close>

lemma qname_loop_sound:
  assumes "qname_loop buf stop pos = Some (QnameEnd q)" "stop \<le> length buf" "pos \<le> stop"
  shows "\<exists>ls. (\<forall>l \<in> set ls. valid_label l) \<and> q = pos + length (encode_qname ls) \<and> q \<le> stop
    \<and> take (q - pos) (drop pos buf) = encode_qname ls"
  using assms
proof (induction buf stop pos rule: qname_loop.induct)
  case (1 buf stop pos)
  from "1.prems" have lt: "pos < stop" "pos < length buf"
    by (auto simp: qname_loop.simps [of buf stop pos] split: if_splits)
  let ?n = "unat (buf ! pos)"
  show ?case
  proof (cases "buf ! pos = 0")
    case True
    then have "q = pos + 1"
      using "1.prems" lt by (simp add: qname_loop.simps [of buf stop pos])
    moreover have "take 1 (drop pos buf) = [0]"
      using lt True by (simp add: take_Suc_conv_app_nth)
    ultimately show ?thesis using lt by (intro exI [of _ "[]"]) simp
  next
    case False
    then have step: "?n \<le> 63" "pos + 1 + ?n \<le> stop" "qname_loop buf stop (pos + 1 + ?n) = Some (QnameEnd q)"
      using "1.prems" lt by (auto simp: qname_loop.simps [of buf stop pos] Let_def split: if_splits)
    then obtain ls where ls: "\<forall>l \<in> set ls. valid_label l" "q = pos + 1 + ?n + length (encode_qname ls)"
        "q \<le> stop" "take (q - (pos + 1 + ?n)) (drop (pos + 1 + ?n) buf) = encode_qname ls"
      using "1.IH" [of "buf ! pos" ?n "pos + 1"] lt False "1.prems" by auto
    define l where "l = take ?n (drop (pos + 1) buf)"
    have len: "length l = ?n" using step(2) "1.prems"(2) by (simp add: l_def)
    moreover have "?n \<noteq> 0" using False by (simp add: unat_eq_zero)
    ultimately have vl: "valid_label l" using step(1) by (simp add: valid_label_def)
    have "drop (pos + 1) buf = l @ drop (pos + 1 + ?n) buf"
      unfolding l_def by (metis append_take_drop_id drop_drop add.commute)
    then have "drop pos buf = buf ! pos # l @ drop (pos + 1 + ?n) buf"
      using lt Cons_nth_drop_Suc [of pos buf] by simp
    then have "take (q - pos) (drop pos buf) = encode_label l @ encode_qname ls"
      using ls(2,4) len by (simp add: encode_label_def)
    then show ?thesis
      using ls vl len by (intro exI [of _ "l # ls"]) (simp add: encode_label_def)
  qed
qed

text \<open>The scan stays inside the message, whatever its bytes are.\<close>

lemma qname_loop_safe: "stop \<le> length buf \<Longrightarrow> \<exists>r. qname_loop buf stop pos = Some r"
proof (induction buf stop pos rule: qname_loop.induct)
  case (1 buf stop pos)
  then show ?case by (subst qname_loop.simps) (auto simp: Let_def)
qed

section \<open>The request as the handler reads it\<close>

text \<open>
  The guards of the handler up to the answer, as one predicate: where the answer starts. It is the
  handler's own chain of tests, on the copied message.
\<close>

definition dns_question_end :: "u8 list \<Rightarrow> nat \<Rightarrow> bool" where
  "dns_question_end msg q \<longleftrightarrow> dns_header_size \<le> length msg
     \<and> drop_bit 15 (be16 (msg ! 2) (msg ! 3)) AND 0x1 = 0
     \<and> drop_bit 11 (be16 (msg ! 2) (msg ! 3)) AND 0xf = 0
     \<and> \<not> be16 (msg ! 4) (msg ! 5) < 1
     \<and> qname_loop msg (length msg) dns_header_size = Some (QnameEnd q)
     \<and> q - dns_header_size \<le> 255 \<and> q + 4 \<le> length msg"

text \<open>The scan reads the message only, not what the stack holds behind it.\<close>

lemma qname_loop_append:
  "stop \<le> length a \<Longrightarrow> qname_loop (a @ b) stop pos = qname_loop a stop pos"
proof (induction a stop pos rule: qname_loop.induct)
  case (1 a stop pos)
  show ?case
  proof (cases "pos < stop")
    case True
    with "1.prems" have r: "buf_get (a @ b) pos = Some (a ! pos)" "buf_get a pos = Some (a ! pos)"
      by (auto simp: buf_get_def nth_append)
    show ?thesis
      using True "1.prems" "1.IH" [OF True r(2) _ refl refl]
      by (subst (1 2) qname_loop.simps) (auto simp: r Let_def)
  next
    case False
    then show ?thesis by (subst (1 2) qname_loop.simps) simp
  qed
qed

definition dns_reply :: "ip_addr_t \<Rightarrow> u8 list \<Rightarrow> nat \<Rightarrow> u8 list" where
  "dns_reply ip msg q = take 2 msg @ [0x84, 0x80, 0, 1, 0, 1, 0, 0, 0, 0]
     @ take (q + 4 - dns_header_size) (drop dns_header_size msg) @ dns_answer ip"

lemma length_dns_answer [simp]: "length (dns_answer ip) = 16"
  by (simp add: dns_answer_def)

lemma length_dns_reply:
  assumes "dns_question_end msg q" "dns_header_size \<le> q"
  shows "length (dns_reply ip msg q) = q + 20"
  using assms by (auto simp: dns_reply_def dns_question_end_def dns_header_size_def)

lemma split_at_12:
  assumes "12 \<le> length xs"
  obtains a b c d e f g h i j k l ys where "xs = [a, b, c, d, e, f, g, h, i, j, k, l] @ ys"
proof -
  have "length (take 12 xs) = 12" using assms by simp
  then obtain a b c d e f g h i j k l where "take 12 xs = [a, b, c, d, e, f, g, h, i, j, k, l]"
    by (auto simp: eval_nat_numeral length_Suc_conv simp del: length_take)
  then have "xs = [a, b, c, d, e, f, g, h, i, j, k, l] @ drop 12 xs"
    by (metis append_take_drop_id)
  then show ?thesis by (rule that)
qed

text \<open>The writes of the answer and the header, one after the other.\<close>

lemma dns_writes:
  assumes "12 \<le> q" "q + 4 \<le> length msg" "q + 20 \<le> length (msg @ rest)"
  shows "do {
      m \<leftarrow> buf_put (msg @ rest) (q + 4) (dns_answer ip);
      m \<leftarrow> buf_put m 2 [0x84, 0x80];
      m \<leftarrow> buf_put m 4 [0, 1];
      m \<leftarrow> buf_put m 6 [0, 1];
      m \<leftarrow> buf_put m 8 [0, 0];
      m \<leftarrow> buf_put m 10 [0, 0];
      Some (f (take (q + 20) m)) } = Some (f (dns_reply ip msg q))"
proof -
  have "12 \<le> length msg" using assms by simp
  then obtain a b c d e f g h i j k l ys
    where msg: "msg = [a, b, c, d, e, f, g, h, i, j, k, l] @ ys" by (rule split_at_12)
  obtain n where q: "q = 12 + n" using assms(1) le_Suc_ex by blast
  have n: "n + 4 \<le> length ys" using assms(2) by (simp add: msg q)
  show ?thesis
    using assms(3) n
    by (simp add: buf_put_def msg q dns_reply_def dns_header_size_def eval_nat_numeral)
qed

section \<open>What the server sends\<close>

lemma qname_loop_QnameEnd_gt:
  "qname_loop buf stop pos = Some (QnameEnd q) \<Longrightarrow> stop \<le> length buf \<Longrightarrow> pos \<le> stop
    \<Longrightarrow> pos < q \<and> q \<le> stop"
  using qname_loop_sound [of buf stop pos q] by (auto simp: encode_qname_def)

lemma dns_question_end_bounds:
  assumes "dns_question_end msg q"
  shows "12 < q" "q \<le> 267" "q + 4 \<le> length msg" "12 \<le> length msg"
  using assms qname_loop_QnameEnd_gt [of msg "length msg" 12 q]
  by (auto simp: dns_question_end_def dns_header_size_def)

lemma dns_question_end_unique:
  "dns_question_end msg q \<Longrightarrow> dns_question_end msg q' \<Longrightarrow> q = q'"
  by (simp add: dns_question_end_def)

text \<open>
  The whole handler in two equations: a request that passes the guards is answered with
  \<open>dns_reply\<close>, any other one with nothing. No access leaves the 300-byte buffer.
\<close>

lemma dns_copy_in:
  assumes "pbuf_sane p" "length stack = MAX_DNS_MSG_SIZE"
  defines "msg \<equiv> pbuf_copy_partial p MAX_DNS_MSG_SIZE 0"
  obtains rest where "buf_put stack 0 msg = Some (msg @ rest)" "length (msg @ rest) = 300"
    "\<And>i. 12 \<le> length msg \<Longrightarrow> i < 12 \<Longrightarrow> buf_get (msg @ rest) i = Some (msg ! i)"
    "\<And>pos. qname_loop (msg @ rest) (length msg) pos = qname_loop msg (length msg) pos"
proof -
  have len: "length msg \<le> 300" "length stack = 300"
    using assms by (simp_all add: pbuf_sane_def MAX_DNS_MSG_SIZE_def)
  show ?thesis
    by (rule that [of "drop (length msg) stack"])
      (use len in \<open>simp_all add: nth_append qname_loop_append\<close>)
qed

lemma dns_server_process_answers:
  assumes "pbuf_sane p" "length stack = MAX_DNS_MSG_SIZE"
    and q: "dns_question_end (pbuf_copy_partial p MAX_DNS_MSG_SIZE 0) q"
  shows "dns_server_process stack alloc ip p src port =
    Some (dns_socket_sendto alloc (dns_reply ip (pbuf_copy_partial p MAX_DNS_MSG_SIZE 0) q) src port)"
proof -
  define msg where "msg = pbuf_copy_partial p MAX_DNS_MSG_SIZE 0"
  obtain rest where c: "buf_put stack 0 msg = Some (msg @ rest)" "length (msg @ rest) = 300"
    "\<And>i. 12 \<le> length msg \<Longrightarrow> i < 12 \<Longrightarrow> buf_get (msg @ rest) i = Some (msg ! i)"
    "\<And>pos. qname_loop (msg @ rest) (length msg) pos = qname_loop msg (length msg) pos"
    using dns_copy_in [OF assms(1,2)] unfolding msg_def by metis
  note b = dns_question_end_bounds [OF q [folded msg_def]]
  have "12 \<le> q" "q + 4 \<le> length msg" "q + 20 \<le> length (msg @ rest)" using b c(2) by auto
  note w = dns_writes [OF this, where f = "\<lambda>m. dns_socket_sendto alloc m src port" and ip = ip]
  show ?thesis
    using q [folded msg_def] b w
    unfolding dns_server_process_def msg_def [symmetric] Let_def c(1)
    by (simp add: c(3,4) dns_question_end_def dns_header_size_def MAX_DNS_MSG_SIZE_def
        add.assoc del: buf_put_in buf_get_in)
qed

lemma dns_server_process_ignores:
  assumes "pbuf_sane p" "length stack = MAX_DNS_MSG_SIZE"
    and q: "\<forall>q. \<not> dns_question_end (pbuf_copy_partial p MAX_DNS_MSG_SIZE 0) q"
  shows "dns_server_process stack alloc ip p src port = Some []"
proof -
  define msg where "msg = pbuf_copy_partial p MAX_DNS_MSG_SIZE 0"
  obtain rest where c: "buf_put stack 0 msg = Some (msg @ rest)" "length (msg @ rest) = 300"
    "\<And>i. 12 \<le> length msg \<Longrightarrow> i < 12 \<Longrightarrow> buf_get (msg @ rest) i = Some (msg ! i)"
    "\<And>pos. qname_loop (msg @ rest) (length msg) pos = qname_loop msg (length msg) pos"
    using dns_copy_in [OF assms(1,2)] unfolding msg_def by metis
  obtain r where r: "qname_loop msg (length msg) 12 = Some r"
    using qname_loop_safe [of "length msg" msg 12] by auto
  have "\<not> dns_question_end msg (case r of QnameEnd q \<Rightarrow> q | _ \<Rightarrow> 0)"
    using q by (simp add: msg_def)
  then show ?thesis
    using r
    unfolding dns_server_process_def msg_def [symmetric] Let_def c(1)
    by (auto simp: c(3,4) dns_question_end_def dns_header_size_def
        simp del: buf_put_in buf_get_in split: qname_result.splits)
qed

section \<open>Starting and stopping\<close>

record dns_server_t =
  dns_udp :: "udp_pcb option"
  dns_ip :: ip_addr_t

definition PORT_DNS_SERVER :: u16 where "PORT_DNS_SERVER = 53"

definition dns_socket_new_dgram :: "bool \<Rightarrow> dns_server_t \<Rightarrow> dns_server_t \<times> int" where
  "dns_socket_new_dgram udp_new_ok d =
     (if \<not> udp_new_ok then (d\<lparr>dns_udp := None\<rparr>, - ENOMEM)
      else (d\<lparr>dns_udp := Some (udp_pcb_new\<lparr>pcb_recv_registered := True\<rparr>)\<rparr>, ERR_OK))"

definition dns_socket_free :: "dns_server_t \<Rightarrow> dns_server_t" where
  "dns_socket_free d = (case dns_udp d of None \<Rightarrow> d | Some _ \<Rightarrow> d\<lparr>dns_udp := None\<rparr>)"

text \<open>\<open>None\<close> is the failed assertion after a failed bind; \<open>ndebug\<close> says it is compiled out.\<close>

definition dns_socket_bind ::
  "bool \<Rightarrow> int \<Rightarrow> dns_server_t \<Rightarrow> u16 \<Rightarrow> (dns_server_t \<times> int) option" where
  "dns_socket_bind ndebug udp_bind_err d port =
     (if udp_bind_err \<noteq> ERR_OK
      then (if ndebug then Some (d, udp_bind_err) else None)
      else Some (d\<lparr>dns_udp := map_option (pcb_local_port_update (\<lambda>_. Some port)) (dns_udp d)\<rparr>, ERR_OK))"

definition dns_server_init ::
  "bool \<Rightarrow> bool \<Rightarrow> int \<Rightarrow> dns_server_t \<Rightarrow> ip_addr_t \<Rightarrow> dns_server_t option" where
  "dns_server_init ndebug udp_new_ok udp_bind_err d ip =
     (let (d, err) = dns_socket_new_dgram udp_new_ok d
      in if err \<noteq> ERR_OK then Some d
         else do {
           (d, err) \<leftarrow> dns_socket_bind ndebug udp_bind_err d PORT_DNS_SERVER;
           if err \<noteq> ERR_OK then Some d
           else Some (d\<lparr>dns_ip := ip\<rparr>)
         })"

definition dns_server_deinit :: "dns_server_t \<Rightarrow> dns_server_t" where
  "dns_server_deinit d = dns_socket_free d"

lemma dns_server_init_ready:
  "dns_server_init ndebug True ERR_OK d ip = Some d' \<Longrightarrow>
     dns_ip d' = ip \<and> dns_udp d' = Some \<lparr>pcb_recv_registered = True, pcb_local_port = Some 53\<rparr>"
  by (auto simp: dns_server_init_def dns_socket_new_dgram_def dns_socket_bind_def udp_pcb_new_def
      PORT_DNS_SERVER_def)

section \<open>The server over a stream of packets\<close>

record dns_packet =
  dp_stack :: "u8 list"
  dp_alloc :: bool
  dp_pbuf :: pbuf
  dp_addr :: ip_addr_t
  dp_port :: u16

type_synonym dns_log = "dns_server_t \<times> udp_datagram list"

definition dns_step :: "dns_log \<Rightarrow> dns_packet \<Rightarrow> dns_log option" where
  "dns_step s e = map_option (\<lambda>out. (fst s, snd s @ out))
     (dns_server_process (dp_stack e) (dp_alloc e) (dns_ip (fst s)) (dp_pbuf e) (dp_addr e) (dp_port e))"

definition dns_packet_ok :: "dns_packet \<Rightarrow> bool" where
  "dns_packet_ok e \<longleftrightarrow> pbuf_sane (dp_pbuf e) \<and> length (dp_stack e) = MAX_DNS_MSG_SIZE"

text \<open>Everything sent is a response that claims one answer: this server's own address.\<close>

definition is_own_answer :: "ip_addr_t \<Rightarrow> u8 list \<Rightarrow> bool" where
  "is_own_answer ip m \<longleftrightarrow> 32 < length m \<and> length m \<le> 287
     \<and> take 10 (drop 2 m) = [0x84, 0x80, 0, 1, 0, 1, 0, 0, 0, 0]
     \<and> drop (length m - 16) m = dns_answer ip"

definition dns_log_ok :: "dns_log \<Rightarrow> bool" where
  "dns_log_ok s \<longleftrightarrow> (\<forall>dg \<in> set (snd s). is_own_answer (dns_ip (fst s)) (dg_payload dg))"

lemma dns_reply_own_answer:
  assumes "dns_question_end msg q"
  shows "is_own_answer ip (dns_reply ip msg q)"
proof -
  note b = dns_question_end_bounds [OF assms]
  have len: "length (dns_reply ip msg q) = q + 20"
    using length_dns_reply [OF assms] b by (simp add: dns_header_size_def)
  define pre where "pre = take 2 msg @ [0x84, 0x80, 0, 1, 0, 1, 0, 0, 0, 0]
    @ take (q + 4 - dns_header_size) (drop dns_header_size msg)"
  have "dns_reply ip msg q = pre @ dns_answer ip" by (simp add: pre_def dns_reply_def)
  then have "drop (length (dns_reply ip msg q) - 16) (dns_reply ip msg q) = dns_answer ip" by simp
  moreover have "take 10 (drop 2 (dns_reply ip msg q)) = [0x84, 0x80, 0, 1, 0, 1, 0, 0, 0, 0]"
    using b by (simp add: dns_reply_def)
  ultimately show ?thesis
    using b len by (simp add: is_own_answer_def)
qed

lemma dns_server_process_cases:
  assumes "pbuf_sane p" "length stack = MAX_DNS_MSG_SIZE"
  obtains "dns_server_process stack alloc ip p src port = Some []"
  | q where "alloc" "dns_question_end (pbuf_copy_partial p MAX_DNS_MSG_SIZE 0) q"
      "dns_server_process stack alloc ip p src port =
        Some [\<lparr>dg_addr = src, dg_port = port,
          dg_payload = dns_reply ip (pbuf_copy_partial p MAX_DNS_MSG_SIZE 0) q\<rparr>]"
proof (cases "\<exists>q. dns_question_end (pbuf_copy_partial p MAX_DNS_MSG_SIZE 0) q")
  case False
  then show ?thesis using dns_server_process_ignores [OF assms] that(1) by blast
next
  case True
  then obtain q where q: "dns_question_end (pbuf_copy_partial p MAX_DNS_MSG_SIZE 0) q" by blast
  have "length (dns_reply ip (pbuf_copy_partial p MAX_DNS_MSG_SIZE 0) q) \<le> 287"
    using dns_reply_own_answer [OF q] by (simp add: is_own_answer_def)
  with dns_server_process_answers [OF assms q] that q show ?thesis
    by (cases alloc) (simp_all add: dns_socket_sendto_def Let_def)
qed

interpretation dns_machine: safe_machine dns_step dns_log_ok dns_packet_ok
proof
  fix s e
  assume s: "dns_log_ok s" and e: "dns_packet_ok e"
  from e have "pbuf_sane (dp_pbuf e)" "length (dp_stack e) = MAX_DNS_MSG_SIZE"
    by (simp_all add: dns_packet_ok_def)
  then show "\<exists>s'. dns_step s e = Some s' \<and> dns_log_ok s'"
    by (rule dns_server_process_cases [where alloc = "dp_alloc e" and ip = "dns_ip (fst s)"
          and src = "dp_addr e" and port = "dp_port e"])
      (use s dns_reply_own_answer in \<open>auto simp: dns_step_def dns_log_ok_def\<close>)
qed

lemma dns_machine_ip: "dns_machine.run s es = Some s' \<Longrightarrow> fst s' = fst s"
  by (induction es arbitrary: s) (auto simp: dns_step_def split: option.splits)

section \<open>Properties\<close>

text \<open>A query on the wire: the header's ten octets after the identifier, the name, the rest.\<close>

definition dns_query :: "u8 \<Rightarrow> u8 \<Rightarrow> u8 list \<Rightarrow> u8 list list \<Rightarrow> u8 list \<Rightarrow> u8 list" where
  "dns_query id0 id1 hdr names tail = [id0, id1] @ hdr @ encode_qname names @ tail"

text \<open>RFC 1035's header: QR clear, opcode QUERY, at least one question.\<close>

definition asks_standard_query :: "u8 list \<Rightarrow> bool" where
  "asks_standard_query hdr \<longleftrightarrow> length hdr = 10 \<and> \<not> bit (hdr ! 0) 7
     \<and> take_bit 4 (drop_bit 3 (hdr ! 0)) = 0 \<and> (hdr ! 2 \<noteq> 0 \<or> hdr ! 3 \<noteq> 0)"

lemma byte_high_bit: "8 \<le> n \<Longrightarrow> \<not> bit g n" for g :: u8
  using bit_imp_le_length [of g n] by auto

lemma qr_bit: "drop_bit 15 (be16 f g) AND 1 = 0 \<longleftrightarrow> \<not> bit f 7"
proof -
  have "drop_bit 15 (be16 f g) AND 1 = 0 \<longleftrightarrow> even (drop_bit 15 (be16 f g))"
    by (simp add: and_one_eq even_iff_mod_2_eq_zero)
  also have "\<dots> \<longleftrightarrow> \<not> bit (be16 f g) 15" by (simp add: bit_iff_odd_drop_bit)
  finally show ?thesis by (simp add: be16_def bit_simps byte_high_bit)
qed

lemma ucast_eq_0: "(ucast x :: u16) = 0 \<longleftrightarrow> x = 0" for x :: u8
  by transfer simp

lemma opcode_bits: "drop_bit 11 (be16 f g) AND 15 = 0 \<longleftrightarrow> take_bit 4 (drop_bit 3 f) = 0"
proof -
  have "drop_bit 11 (be16 f g) AND 15 = take_bit 4 (drop_bit 11 (be16 f g))"
    by (simp add: take_bit_eq_mask mask_eq_exp_minus_1)
  also have "\<dots> = ucast (take_bit 4 (drop_bit 3 f))"
    by (rule bit_word_eqI) (auto simp: be16_def bit_simps byte_high_bit)
  finally show ?thesis by (simp add: ucast_eq_0)
qed

lemma question_count_bits: "be16 a b = 0 \<longleftrightarrow> a = 0 \<and> b = 0"
proof
  assume z: "be16 a b = 0"
  have "bit (be16 a b) (n + 8) = bit a n" if "n < 8" for n
    using that by (simp add: be16_def bit_simps byte_high_bit)
  moreover have "bit (be16 a b) n = bit b n" if "n < 8" for n
    using that by (simp add: be16_def bit_simps)
  ultimately show "a = 0 \<and> b = 0"
    by (auto intro!: bit_word_eqI simp: z)
qed (simp add: be16_def)

lemma dns_question_end_query:
  assumes "asks_standard_query hdr" "\<forall>l \<in> set names. valid_label l"
    "length (encode_qname names) \<le> 255" "4 \<le> length tail"
  shows "dns_question_end (take 300 (dns_query id0 id1 hdr names tail)) (12 + length (encode_qname names))"
proof -
  have "length hdr = 10" using assms(1) by (simp add: asks_standard_query_def)
  then obtain a b c d e f g h i j where hdr: "hdr = [a, b, c, d, e, f, g, h, i, j]"
    by (auto simp: length_Suc_conv eval_nat_numeral)
  let ?n = "length (encode_qname names)"
  let ?pre = "[id0, id1] @ hdr"
  define m where "m = take 300 (dns_query id0 id1 hdr names tail)"
  have m: "m = ?pre @ encode_qname names @ take (288 - ?n) tail"
    using assms(3) by (simp add: m_def dns_query_def hdr min_def)
  have pre: "length ?pre = 12" by (simp add: hdr)
  have len: "12 + ?n + 4 \<le> length m" using assms(3,4) by (simp add: m hdr)
  have "qname_loop m (length m) (length ?pre) = Some (QnameEnd (length ?pre + ?n))"
    using assms(2) len pre by (subst m, intro qname_loop_encoded) simp_all
  moreover have "m ! 2 = a" "m ! 3 = b" "m ! 4 = c" "m ! 5 = d" by (simp_all add: m hdr)
  ultimately show ?thesis
    using assms(1,3) len unfolding m_def [symmetric] pre
    by (simp add: dns_question_end_def asks_standard_query_def hdr qr_bit opcode_bits
        question_count_bits dns_header_size_def)
qed

lemma dns_answers_query:
  assumes "pbuf_holds p (dns_query id0 id1 hdr names ([t0, t1, c0, c1] @ rest))"
    and "length stack = MAX_DNS_MSG_SIZE"
    and "asks_standard_query hdr" and "\<forall>l \<in> set names. valid_label l"
    and "length (encode_qname names) \<le> 255"
  shows "dns_server_process stack True ip p src port = Some
    [\<lparr>dg_addr = src, dg_port = port, dg_payload =
       [id0, id1, 0x84, 0x80, 0, 1, 0, 1, 0, 0, 0, 0] @ encode_qname names @ [t0, t1, c0, c1]
       @ [0xc0, 12, 0, 1, 0, 1, 0, 0, 0, 60, 0, 4] @ mem_bytes32 ip\<rparr>]"
proof -
  let ?n = "length (encode_qname names)"
  define msg where "msg = take 300 (dns_query id0 id1 hdr names ([t0, t1, c0, c1] @ rest))"
  have copy: "pbuf_copy_partial p MAX_DNS_MSG_SIZE 0 = msg"
    using assms(1) by (simp add: pbuf_holds_def msg_def MAX_DNS_MSG_SIZE_def)
  have q: "dns_question_end msg (12 + ?n)"
    unfolding msg_def using assms(3-5) by (intro dns_question_end_query) simp_all
  have hdr: "length hdr = 10" using assms(3) by (simp add: asks_standard_query_def)
  have "dns_reply ip msg (12 + ?n) = [id0, id1, 0x84, 0x80, 0, 1, 0, 1, 0, 0, 0, 0]
      @ encode_qname names @ [t0, t1, c0, c1] @ dns_answer ip"
    using assms(5) hdr
    by (simp add: dns_reply_def msg_def dns_query_def dns_header_size_def min_def)
  moreover have "length (dns_reply ip msg (12 + ?n)) \<le> 0xffff"
    using dns_reply_own_answer [OF q, of ip] by (simp add: is_own_answer_def)
  ultimately show ?thesis
    using dns_server_process_answers [OF pbuf_holds_sane [OF assms(1)] assms(2) q [folded copy]]
    by (simp add: copy dns_socket_sendto_def dns_answer_def dns_header_size_def)
qed

text \<open>
  C34: Every standard query whose name is well formed (labels of 1 to 63 octets, at most 255 octets in
  all) with its type and class behind it is answered, to the port it came from, by exactly one
  datagram: the query's identifier, the response flags 0x8480, one question and one answer, the
  question as it was asked, and an A record with a pointer to the name, a TTL of 60 seconds and the
  access point's own address.
\<close>

theorem dns_answers_standard_query:
  assumes "pbuf_holds p (dns_query id0 id1 hdr names ([t0, t1, c0, c1] @ rest))"
    and "length stack = MAX_DNS_MSG_SIZE"
    and "asks_standard_query hdr" and "\<forall>l \<in> set names. valid_label l"
    and "length (encode_qname names) \<le> 255"
  shows "dns_server_process stack True ip p src port = Some
    [\<lparr>dg_addr = src, dg_port = port, dg_payload =
       [id0, id1, 0x84, 0x80, 0, 1, 0, 1, 0, 0, 0, 0] @ encode_qname names @ [t0, t1, c0, c1]
       @ [0xc0, 12, 0, 1, 0, 1, 0, 0, 0, 60, 0, 4] @ mem_bytes32 ip\<rparr>]"
  by (rule dns_answers_query [OF assms])

text \<open>The portal check of a phone: an A query for \<open>x.com\<close>.\<close>

definition sample_query_hdr :: "u8 list" where
  "sample_query_hdr = [1, 0, 0, 1, 0, 0, 0, 0, 0, 0]"

definition sample_query :: "u8 list" where
  "sample_query = dns_query 7 9 sample_query_hdr [[120], [99, 111, 109]] [0, 1, 0, 1]"

theorem dns_answers_standard_query_witness:
  "\<exists>dg. dns_server_process (replicate 300 0) True 0x0104a8c0 (pbuf_of_bytes sample_query) 5 1234
     = Some [dg] \<and> take 2 (dg_payload dg) = [7, 9] \<and> drop 35 (dg_payload dg) = [192, 168, 4, 1]"
proof -
  have "asks_standard_query sample_query_hdr" by code_simp
  moreover have "\<forall>l \<in> set [[120], [99, 111, 109]]. valid_label l" by (simp add: valid_label_def)
  ultimately have "dns_server_process (replicate 300 0) True 0x0104a8c0 (pbuf_of_bytes sample_query) 5 1234
     = Some [\<lparr>dg_addr = 5, dg_port = 1234, dg_payload =
       [7, 9, 0x84, 0x80, 0, 1, 0, 1, 0, 0, 0, 0] @ encode_qname [[120], [99, 111, 109]]
       @ [0, 1, 0, 1] @ [0xc0, 12, 0, 1, 0, 1, 0, 0, 0, 60, 0, 4] @ mem_bytes32 0x0104a8c0\<rparr>]"
    using dns_answers_standard_query [of "pbuf_of_bytes sample_query" 7 9 sample_query_hdr
        "[[120], [99, 111, 109]]" 0 1 0 1 "[]" "replicate 300 0" "0x0104a8c0" 5 1234]
      pbuf_holds_of_bytes [of sample_query]
    by (simp add: sample_query_def MAX_DNS_MSG_SIZE_def encode_label_def)
  moreover have "mem_bytes32 0x0104a8c0 = [192, 168, 4, 1]" by code_simp
  ultimately show ?thesis by (simp add: encode_label_def)
qed

text \<open>
  Whatever packets arrive, in any order and of any content, the server handles each of them
  without an access outside its 300-byte message buffer, and everything it ever sends is a response
  of at most 287 octets with one answer, which is its own address.
\<close>

lemma dns_server_safe_on_any_stream:
  assumes "\<forall>e \<in> set es. dns_packet_ok e"
  shows "\<exists>d' log. dns_machine.run (d, []) es = Some (d', log) \<and> d' = d
    \<and> (\<forall>dg \<in> set log. is_own_answer (dns_ip d) (dg_payload dg))"
proof -
  have "dns_log_ok (d, [])" by (simp add: dns_log_ok_def)
  then obtain s' where s': "dns_machine.run (d, []) es = Some s'" "dns_log_ok s'"
    using dns_machine.run_safe assms by blast
  moreover have "fst s' = d" using dns_machine_ip [OF s'(1)] by simp
  ultimately show ?thesis by (cases s') (auto simp: dns_log_ok_def)
qed

definition sample_dns_packet :: dns_packet where
  "sample_dns_packet = \<lparr>dp_stack = replicate 300 0xaa, dp_alloc = True,
     dp_pbuf = pbuf_of_bytes sample_query, dp_addr = 5, dp_port = 1234\<rparr>"

lemma dns_question_end_shape:
  assumes "dns_question_end msg q" "length msg \<le> length bs" "msg = take (length msg) bs"
  shows "\<exists>id0 id1 hdr names tail. bs = dns_query id0 id1 hdr names tail \<and> asks_standard_query hdr
    \<and> (\<forall>l \<in> set names. valid_label l) \<and> length (encode_qname names) \<le> 255 \<and> 4 \<le> length tail"
proof -
  note b = dns_question_end_bounds [OF assms(1)]
  have loop: "qname_loop msg (length msg) 12 = Some (QnameEnd q)"
    using assms(1) by (simp add: dns_question_end_def dns_header_size_def)
  then obtain names where n: "\<forall>l \<in> set names. valid_label l"
      "q = 12 + length (encode_qname names)" "take (q - 12) (drop 12 msg) = encode_qname names"
    using qname_loop_sound [of msg "length msg" 12 q] b by auto
  from b(4) obtain id0 id1 c d e f g h i j k l ys
    where msg: "msg = [id0, id1, c, d, e, f, g, h, i, j, k, l] @ ys" by (rule split_at_12)
  define hdr where "hdr = [c, d, e, f, g, h, i, j, k, l]"
  have "ys = encode_qname names @ drop (q - 12) ys"
    using n(3) by (simp add: msg) (metis append_take_drop_id)
  then have "msg = dns_query id0 id1 hdr names (drop (q - 12) ys)"
    by (simp add: msg dns_query_def hdr_def)
  moreover have "bs = msg @ drop (length msg) bs" using assms(3) by (metis append_take_drop_id)
  ultimately have "bs = dns_query id0 id1 hdr names (drop (q - 12) ys @ drop (length msg) bs)"
    by (metis dns_query_def append.assoc)
  moreover have "asks_standard_query hdr"
    using assms(1)
    by (auto simp: asks_standard_query_def hdr_def dns_question_end_def msg qr_bit opcode_bits
        question_count_bits)
  moreover have "length (encode_qname names) \<le> 255" using b n(2) by simp
  moreover have "4 \<le> length (drop (q - 12) ys @ drop (length msg) bs)"
    using b(1,3) by (simp add: msg)
  ultimately show ?thesis using n(1) by blast
qed

text \<open>
  The server is silent unless it should answer: when a packet makes it send anything, the
  packet is a standard query whose name is a sequence of labels of 1 to 63 octets, at most 255
  octets in all, with a type and a class behind it, and what is sent goes to the packet's sender.
\<close>

lemma dns_sends_only_to_standard_queries:
  assumes "pbuf_holds p bs" and "length stack = MAX_DNS_MSG_SIZE"
    and "dns_server_process stack alloc ip p src port = Some out" and "dg \<in> set out"
  shows "(\<exists>id0 id1 hdr names tail. bs = dns_query id0 id1 hdr names tail \<and> asks_standard_query hdr
      \<and> (\<forall>l \<in> set names. valid_label l) \<and> length (encode_qname names) \<le> 255 \<and> 4 \<le> length tail)
    \<and> dg_addr dg = src \<and> dg_port dg = port"
  using pbuf_holds_sane [OF assms(1)] assms(2)
proof (rule dns_server_process_cases [where alloc = alloc and ip = ip and src = src and port = port])
  assume "dns_server_process stack alloc ip p src port = Some []"
  then show ?thesis using assms by simp
next
  fix q
  assume q: "dns_question_end (pbuf_copy_partial p MAX_DNS_MSG_SIZE 0) q"
    and out: "dns_server_process stack alloc ip p src port = Some
      [\<lparr>dg_addr = src, dg_port = port,
        dg_payload = dns_reply ip (pbuf_copy_partial p MAX_DNS_MSG_SIZE 0) q\<rparr>]"
  have "pbuf_copy_partial p MAX_DNS_MSG_SIZE 0 = take 300 bs"
    using assms(1) by (simp add: pbuf_holds_def MAX_DNS_MSG_SIZE_def)
  with q have q: "dns_question_end (take 300 bs) q" by simp
  have "take 300 bs = take (length (take 300 bs)) bs" by (simp add: min_def)
  from dns_question_end_shape [OF q _ this] show ?thesis
    using out assms(3,4) by simp
qed

end
