(* ===== verification/AccessPoint.thy ===== *)
theory AccessPoint
  imports TcpServer DhcpServer DnsServer
begin

text \<open>
  The Wi-Fi side of src/src/wifi.c: the station's connection loop and the configuration access point,
  which runs the web, address and name servers until a configuration has been stored. The radio
  driver's answers are arguments.
\<close>

section \<open>Connecting as a station\<close>

definition PICO_ERROR_TIMEOUT :: int where "PICO_ERROR_TIMEOUT = - 1"
definition PICO_ERROR_BADAUTH :: int where "PICO_ERROR_BADAUTH = - 7"
definition PICO_ERROR_CONNECT_FAILED :: int where "PICO_ERROR_CONNECT_FAILED = - 8"

lemmas pico_errors = PICO_ERROR_TIMEOUT_def PICO_ERROR_BADAUTH_def PICO_ERROR_CONNECT_FAILED_def

text \<open>
  The loop from attempt \<open>k\<close> on: \<open>ret k\<close> is the driver's answer to it and
  \<open>elapsed_us k\<close> the time since the start when it is checked. The loop has no bound of its own;
  \<open>None\<close> is not returning. The number of attempts made is part of the result.
\<close>

partial_function (option) connect_loop ::
  "(nat \<Rightarrow> int) \<Rightarrow> (nat \<Rightarrow> int) \<Rightarrow> int \<Rightarrow> nat \<Rightarrow> (wifi_error_t \<times> nat) option" where
  "connect_loop ret elapsed_us bad_auth_count k =
     (if ret k = 0 then Some (WIFI_OK, k + 1)
      else if ret k = PICO_ERROR_TIMEOUT then
        (if elapsed_us k > WIFI_ABANDON_TIMEOUT_MS * 1000 then Some (WIFI_TIMEOUT_ERROR, k + 1)
         else connect_loop ret elapsed_us bad_auth_count (k + 1))
      else if ret k = PICO_ERROR_BADAUTH then
        (if bad_auth_count + 1 \<ge> WIFI_BAD_AUTH_RETRY_COUNT then Some (WIFI_AUTH_ERROR, k + 1)
         else connect_loop ret elapsed_us (bad_auth_count + 1) (k + 1))
      else if ret k = PICO_ERROR_CONNECT_FAILED then Some (WIFI_CONNECT_ERROR, k + 1)
      else Some (WIFI_UNKNOWN_ERROR, k + 1))"

text \<open>The result and the new value of \<open>*wifi_initialized\<close>.\<close>

definition connect_to_wifi ::
  "int \<Rightarrow> (nat \<Rightarrow> int) \<Rightarrow> (nat \<Rightarrow> int) \<Rightarrow> bool \<Rightarrow> (wifi_error_t \<times> bool \<times> nat) option" where
  "connect_to_wifi cyw43_arch_init ret elapsed_us wifi_initialized =
     (if \<not> wifi_initialized \<and> cyw43_arch_init \<noteq> 0 then Some (WIFI_INIT_ERROR, wifi_initialized, 0)
      else map_option (\<lambda>(e, n). (e, True, n)) (connect_loop ret elapsed_us 0 0))"

text \<open>
  What the driver promises: an attempt that times out has lasted its ten seconds
  (\<open>WIFI_CONNECT_TIMEOUT_MS\<close>).
\<close>

definition timeouts_take_time :: "(nat \<Rightarrow> int) \<Rightarrow> (nat \<Rightarrow> int) \<Rightarrow> bool" where
  "timeouts_take_time ret elapsed_us \<longleftrightarrow>
     (\<forall>k. ret k = PICO_ERROR_TIMEOUT \<longrightarrow>
        10000000 * int (length (filter (\<lambda>j. ret j = PICO_ERROR_TIMEOUT) [0..<k + 1])) \<le> elapsed_us k)"

definition count_ret :: "(nat \<Rightarrow> int) \<Rightarrow> int \<Rightarrow> nat \<Rightarrow> nat" where
  "count_ret ret v k = length (filter (\<lambda>j. ret j = v) [0..<k])"

lemma count_ret_Suc: "count_ret ret v (Suc k) = count_ret ret v k + (if ret k = v then 1 else 0)"
  by (simp add: count_ret_def)

text \<open>What an attempt's answer means for the result.\<close>

definition connect_result_ok :: "(nat \<Rightarrow> int) \<Rightarrow> wifi_error_t \<Rightarrow> nat \<Rightarrow> bool" where
  "connect_result_ok ret e n \<longleftrightarrow> 0 < n
     \<and> (\<forall>j < n - 1. ret j = PICO_ERROR_TIMEOUT \<or> ret j = PICO_ERROR_BADAUTH)
     \<and> (e = WIFI_OK \<longleftrightarrow> ret (n - 1) = 0)
     \<and> (e = WIFI_TIMEOUT_ERROR \<longleftrightarrow> ret (n - 1) = PICO_ERROR_TIMEOUT)
     \<and> (e = WIFI_AUTH_ERROR \<longleftrightarrow> ret (n - 1) = PICO_ERROR_BADAUTH)
     \<and> (e = WIFI_AUTH_ERROR \<longrightarrow> count_ret ret PICO_ERROR_BADAUTH n = 3) \<and> e \<noteq> WIFI_INIT_ERROR"

lemma connect_loop_ends:
  assumes "timeouts_take_time ret elapsed" "d + count_ret ret PICO_ERROR_TIMEOUT k = 3"
    and "b + count_ret ret PICO_ERROR_BADAUTH k = 2"
    and "\<forall>j < k. ret j = PICO_ERROR_TIMEOUT \<or> ret j = PICO_ERROR_BADAUTH"
  shows "\<exists>e n. connect_loop ret elapsed (int (count_ret ret PICO_ERROR_BADAUTH k)) k = Some (e, n)
    \<and> n \<le> k + d + b + 1 \<and> connect_result_ok ret e n"
  using assms(2-4)
proof (induction "d + b" arbitrary: d b k)
  case (0 d b k)
  have t: "ret k = PICO_ERROR_TIMEOUT \<Longrightarrow> 30000000 < elapsed k"
    using assms(1) 0 count_ret_Suc [of ret PICO_ERROR_TIMEOUT k]
    by (fastforce simp: timeouts_take_time_def count_ret_def)
  show ?case
    using 0 t count_ret_Suc [of ret PICO_ERROR_BADAUTH k]
    by (subst connect_loop.simps)
      (auto simp: config_defs pico_errors connect_result_ok_def)
next
  case (Suc m d b k)
  note prems = Suc(3-5)
  let ?t = "count_ret ret PICO_ERROR_TIMEOUT" and ?b = "count_ret ret PICO_ERROR_BADAUTH"
  consider "ret k = PICO_ERROR_TIMEOUT" "d = 0 \<or> elapsed k > 30000000"
    | "ret k = PICO_ERROR_TIMEOUT" "0 < d" "\<not> elapsed k > 30000000"
    | "ret k = PICO_ERROR_BADAUTH" "b = 0" | "ret k = PICO_ERROR_BADAUTH" "0 < b"
    | "ret k \<noteq> PICO_ERROR_TIMEOUT" "ret k \<noteq> PICO_ERROR_BADAUTH" by fastforce
  then show ?case
  proof cases
    case 1
    then have "30000000 < elapsed k"
      using assms(1) prems count_ret_Suc [of ret PICO_ERROR_TIMEOUT k]
      by (fastforce simp: timeouts_take_time_def count_ret_def)
    then show ?thesis using 1 prems
      by (subst connect_loop.simps) (auto simp: config_defs pico_errors connect_result_ok_def)
  next
    case 2
    have "?t (Suc k) = ?t k + 1" "?b (Suc k) = ?b k"
      using 2 by (simp_all add: count_ret_Suc pico_errors)
    then show ?thesis
      using Suc(1) [of "d - 1" b "Suc k"] Suc(2) prems 2
      by (subst connect_loop.simps) (auto simp: config_defs pico_errors less_Suc_eq)
  next
    case 3
    then show ?thesis using prems
      by (subst connect_loop.simps)
        (auto simp: config_defs pico_errors connect_result_ok_def count_ret_Suc)
  next
    case 4
    have "?t (Suc k) = ?t k" "?b (Suc k) = ?b k + 1"
      using 4 by (simp_all add: count_ret_Suc pico_errors)
    then show ?thesis
      using Suc(1) [of d "b - 1" "Suc k"] Suc(2) prems 4
      by (subst connect_loop.simps) (auto simp: config_defs pico_errors less_Suc_eq algebra_simps)
  next
    case 5
    then show ?thesis using prems
      by (subst connect_loop.simps) (auto simp: config_defs pico_errors connect_result_ok_def)
  qed
qed



section \<open>The configuration access point\<close>

definition WIFI_AP_SSID_PREFIX :: string where "WIFI_AP_SSID_PREFIX = ''Pico-Day-Clock-Setup''"

text \<open>\<open>%02X\<close> of one byte.\<close>

definition hex_byte :: "u8 \<Rightarrow> string" where
  "hex_byte b = [hex_digit (unat b div 16), hex_digit (unat b mod 16)]"

definition get_ssid :: "u8 list \<Rightarrow> string" where
  "get_ssid mac_addr = take 31 (WIFI_AP_SSID_PREFIX @ ''-''
     @ hex_byte (mac_addr ! 3) @ hex_byte (mac_addr ! 4) @ hex_byte (mac_addr ! 5))"

text \<open>The access point's name is never cut: it has 27 characters and its array 32.\<close>

lemma get_ssid_complete:
  "get_ssid mac_addr = WIFI_AP_SSID_PREFIX @ ''-''
     @ hex_byte (mac_addr ! 3) @ hex_byte (mac_addr ! 4) @ hex_byte (mac_addr ! 5)"
  by (simp add: get_ssid_def hex_byte_def WIFI_AP_SSID_PREFIX_def)

text \<open>What the SDK and the stack answer while the servers start, and the SDK's default addresses.\<close>

record ap_env =
  ap_arch_init :: int
  ap_mac :: "u8 list"
  ap_address :: ip_addr_t
  ap_netmask :: ip_addr_t
  ap_dhcp_new :: bool
  ap_dhcp_bind :: int
  ap_dns_new :: bool
  ap_dns_bind :: int
  ap_ndebug :: bool
  ap_tcp_new :: "nat option"
  ap_tcp_bind :: int
  ap_tcp_listen :: "nat option"

text \<open>
  The three servers with the datagrams they sent, the name the radio announces while the access point
  is enabled, and \<open>*wifi_initialized\<close>. The two UDP servers' structs are locals of the function and
  start with whatever the stack held.
\<close>

record ap_state =
  ap_tcp :: tcp_server_t
  ap_dhcp :: dhcp_log
  ap_dns :: dns_log
  ap_mode_ssid :: "string option"
  ap_wifi_initialized :: bool

text \<open>
  Everything before the loop. The second component is the error the function returns, if it does;
  \<open>None\<close> is a failed assertion in \<open>dns_server_init\<close> or an access out of bounds.
\<close>

definition ap_setup ::
  "ap_env \<Rightarrow> string \<Rightarrow> flash_config_t option \<Rightarrow> ap_state \<Rightarrow> (ap_state \<times> wifi_error_t option) option" where
  "ap_setup env html_form_template flash_config s =
     (let html = html_form_expanded (ap_tcp s);
          s = s\<lparr>ap_tcp := tcp_server_zero\<lparr>server_flash_config := flash_config, html_form_expanded := html\<rparr>\<rparr>
      in if \<not> ap_wifi_initialized s \<and> ap_arch_init env \<noteq> 0 then Some (s, Some WIFI_INIT_ERROR)
         else do {
           let s = s\<lparr>ap_wifi_initialized := True\<rparr>;
           (err, html) \<leftarrow> expand_html_template (length html) html_form_template html flash_config;
           let s = s\<lparr>ap_tcp := (ap_tcp s)\<lparr>html_form_expanded := html\<rparr>\<rparr>;
           if err \<noteq> ERR_OK then Some (s, Some WIFI_INIT_ERROR)
           else do {
             let s = s\<lparr>ap_mode_ssid := Some (get_ssid (ap_mac env)),
               ap_tcp := (ap_tcp s)\<lparr>gw := ap_address env\<rparr>,
               ap_dhcp := (dhcp_server_init (ap_dhcp_new env) (ap_dhcp_bind env) (fst (ap_dhcp s))
                 (ap_address env) (ap_netmask env), snd (ap_dhcp s))\<rparr>;
             dns \<leftarrow> dns_server_init (ap_ndebug env) (ap_dns_new env) (ap_dns_bind env) (fst (ap_dns s)) (ap_address env);
             let s = s\<lparr>ap_dns := (dns, snd (ap_dns s))\<rparr>;
             let (tcp, opened) = tcp_server_open (ap_tcp_new env) (ap_tcp_bind env) (ap_tcp_listen env) (ap_tcp s);
             let s = s\<lparr>ap_tcp := tcp\<rparr>;
             Some (s, if opened then None else Some WIFI_INIT_ERROR)
           }
         })"

text \<open>A callback of one of the three servers; a UDP packet needs a bound socket.\<close>

datatype ap_event = Web "tcp_env \<times> tcp_event" | Dhcp dhcp_event | Dns dns_packet

definition udp_live :: "udp_pcb option \<Rightarrow> bool" where
  "udp_live pcb = (case pcb of None \<Rightarrow> False | Some u \<Rightarrow> pcb_recv_registered u \<and> pcb_local_port u \<noteq> None)"

definition ap_step :: "ap_state \<Rightarrow> ap_event \<Rightarrow> ap_state option" where
  "ap_step s e = (case e of
     Web w \<Rightarrow> map_option (\<lambda>t. s\<lparr>ap_tcp := t\<rparr>) (tcp_dispatch (ap_tcp s) w)
   | Dhcp d \<Rightarrow> if udp_live (dhcp_udp (fst (ap_dhcp s)))
       then map_option (\<lambda>l. s\<lparr>ap_dhcp := l\<rparr>) (dhcp_step (ap_dhcp s) d) else Some s
   | Dns d \<Rightarrow> if udp_live (dns_udp (fst (ap_dns s)))
       then map_option (\<lambda>l. s\<lparr>ap_dns := l\<rparr>) (dns_step (ap_dns s) d) else Some s)"

fun ap_run :: "ap_state \<Rightarrow> ap_event list \<Rightarrow> ap_state option" where
  "ap_run s [] = Some s"
| "ap_run s (e # es) = Option.bind (ap_step s e) (\<lambda>s. ap_run s es)"

text \<open>
  The loop: the callbacks \<open>events k\<close> are made during the \<open>k\<close>-th sleep of a second. The outer
  \<open>None\<close> is not returning, the inner one an access out of bounds.
\<close>

partial_function (option) ap_loop :: "(nat \<Rightarrow> ap_event list) \<Rightarrow> nat \<Rightarrow> ap_state \<Rightarrow> ap_state option option" where
  "ap_loop events k s =
     (if complete (ap_tcp s) then Some (Some s)
      else (case ap_run s (events k) of
              None \<Rightarrow> Some None
            | Some s' \<Rightarrow> ap_loop events (k + 1) s'))"

definition ap_teardown :: "ap_state \<Rightarrow> ap_state" where
  "ap_teardown s = s\<lparr>ap_mode_ssid := None, ap_tcp := tcp_server_close (ap_tcp s),
     ap_dns := (dns_server_deinit (fst (ap_dns s)), snd (ap_dns s)),
     ap_dhcp := (dhcp_server_deinit (fst (ap_dhcp s)), snd (ap_dhcp s))\<rparr>"

definition start_wifi_access_point ::
  "ap_env \<Rightarrow> string \<Rightarrow> (nat \<Rightarrow> ap_event list) \<Rightarrow> flash_config_t option \<Rightarrow> ap_state
   \<Rightarrow> (ap_state \<times> wifi_error_t) option option" where
  "start_wifi_access_point env html_form_template events flash_config s =
     (case ap_setup env html_form_template flash_config s of
        None \<Rightarrow> Some None
      | Some (s, Some err) \<Rightarrow> Some (Some (s, err))
      | Some (s, None) \<Rightarrow>
          map_option (map_option (\<lambda>s. (ap_teardown s, WIFI_OK))) (ap_loop events 0 s))"

section \<open>The three servers together\<close>

definition ap_event_ok :: "ap_event \<Rightarrow> bool" where
  "ap_event_ok e = (case e of Web w \<Rightarrow> tcp_event_ok w | Dhcp d \<Rightarrow> dhcp_event_ok d | Dns d \<Rightarrow> dns_packet_ok d)"

definition complete_ok :: "tcp_server_t \<Rightarrow> bool" where
  "complete_ok t \<longleftrightarrow> (complete t \<longrightarrow> stored t \<noteq> [])"

definition ap_inv :: "ap_state \<Rightarrow> bool" where
  "ap_inv s \<longleftrightarrow> tcp_inv (ap_tcp s) \<and> complete_ok (ap_tcp s) \<and> dhcp_log_ok (ap_dhcp s) \<and> dns_log_ok (ap_dns s)"

lemma complete_ok_close:
  "complete_ok (fst (tcp_close_client_connection env con pcb e s)) = complete_ok s"
  by (simp add: tcp_close_client_connection_def close_slot_def zero_slot_def set_con_def complete_ok_def
      Let_def split: option.splits)

lemma complete_ok_set_con [simp]: "complete_ok (set_con i c s) = complete_ok s"
  and complete_ok_emit [simp]: "complete_ok (emit es s) = complete_ok s"
  by (simp_all add: complete_ok_def set_con_def)

lemma complete_ok_stored: "complete_ok s \<Longrightarrow> complete_ok (s\<lparr>stored := stored s @ [c]\<rparr>)"
  and complete_ok_complete: "stored s \<noteq> [] \<Longrightarrow> complete_ok (s\<lparr>complete := b\<rparr>)"
  by (simp_all add: complete_ok_def)

lemma close_complete_ok:
  "tcp_close_client_connection env con pcb e s = (s', e') \<Longrightarrow> complete_ok s \<Longrightarrow> complete_ok s'"
  using complete_ok_close [of env con pcb e s] by simp

lemmas complete_ok_intros = complete_ok_stored complete_ok_complete close_complete_ok

lemma complete_ok_post:
  assumes "handle_post env i pcb request s = Some (s', e)" "complete_ok s"
  shows "complete_ok s'"
proof -
  obtain cfg where cfg: "form_base (con_flash_config (connections s ! i)) = Some cfg"
    using assms(1) by (auto simp: handle_post_def bind_eq_Some_conv)
  show ?thesis
  proof (cases "strstr request (CRLF @ CRLF)")
    case None
    then show ?thesis
      using assms cfg by (auto simp: handle_post_def Let_def complete_ok_def split: if_splits)
  next
    case (Some b)
    then show ?thesis
    proof (cases "length (drop (b + 4) request) \<ge> TCP_IP_BUFFER_SIZE")
      case True
      then show ?thesis
        using assms cfg Some by (auto simp: handle_post_def Let_def dest: close_complete_ok)
    next
      case False
      then obtain c bad where "form_loop cfg (drop (b + 4) request) = Some (c, bad)"
        using assms(1) cfg Some by (auto simp: handle_post_def Let_def bind_eq_Some_conv)
      then show ?thesis
        using assms cfg Some False
        by (auto simp: handle_post_def Let_def complete_ok_def split: if_splits)
    qed
  qed
qed

lemma complete_ok_page:
  "handle_page env i pcb s = Some (s', e) \<Longrightarrow> complete_ok s \<Longrightarrow> complete_ok s'"
  by (auto simp: handle_page_def Let_def bind_eq_Some_conv dest: close_complete_ok split: if_splits)

lemma complete_ok_redirect:
  "handle_redirect env i pcb s = Some (s', e) \<Longrightarrow> complete_ok s \<Longrightarrow> complete_ok s'"
  by (auto simp: handle_redirect_def Let_def bind_eq_Some_conv dest: close_complete_ok split: if_splits)

lemma complete_ok_recv:
  "tcp_server_recv env i pcb p s = Some (s', e) \<Longrightarrow> complete_ok s \<Longrightarrow> complete_ok s'"
  by (cases p, simp add: tcp_server_recv_def close_complete_ok,
      auto simp: tcp_server_recv_def Let_def bind_eq_Some_conv
        dest: complete_ok_post complete_ok_page complete_ok_redirect close_complete_ok
        split: request_check.split_asm if_split_asm,
      (metis request_check.exhaust)+)

lemma complete_ok_dispatch:
  assumes "tcp_dispatch s (env, ev) = Some s'" "complete_ok s"
  shows "complete_ok s'"
proof (cases ev)
  case (Accept client err)
  have "complete_ok (fst (tcp_server_accept client err s))"
    using assms(2) by (auto simp: tcp_server_accept_def complete_ok_def set_con_def Let_def split: option.splits)
  then show ?thesis using assms Accept by (auto simp: tcp_dispatch_def split: option.splits if_splits)
next
  case (Recv p pb)
  then show ?thesis using assms by (auto simp: tcp_dispatch_def split: option.splits intro: complete_ok_recv)
next
  case (Sent p len)
  have "complete_ok (fst (tcp_server_sent env i p len s))" for i
    using assms(2) by (simp add: tcp_server_sent_def Let_def complete_ok_close)
  then show ?thesis using assms Sent by (auto simp: tcp_dispatch_def split: option.splits)
next
  case (Poll p)
  then show ?thesis
    using assms by (auto simp: tcp_dispatch_def tcp_server_poll_def complete_ok_close split: option.splits)
next
  case (Err p err)
  have "complete_ok (tcp_server_err env (Some i) err s)" for i
    using assms(2) by (simp add: tcp_server_err_def complete_ok_close)
  then have "complete_ok ((tcp_server_err env (Some i) err s)\<lparr>pcb_arg := x\<rparr>)" for i x
    by (simp add: complete_ok_def)
  then show ?thesis using assms Err by (auto simp: tcp_dispatch_def split: option.splits)
qed

interpretation ap_machine: safe_machine ap_step ap_inv ap_event_ok
proof
  fix s e
  assume s: "ap_inv s" and e: "ap_event_ok e"
  show "\<exists>s'. ap_step s e = Some s' \<and> ap_inv s'"
  proof (cases e)
    case (Web w)
    then obtain t where t: "tcp_dispatch (ap_tcp s) w = Some t" "tcp_inv t"
      using s e tcp_machine.handle_safe [of "ap_tcp s" w] by (auto simp: ap_inv_def ap_event_ok_def)
    moreover have "complete_ok t"
      using t(1) s complete_ok_dispatch [of "ap_tcp s" "fst w" "snd w" t] by (simp add: ap_inv_def)
    ultimately show ?thesis using s Web by (simp add: ap_step_def ap_inv_def)
  next
    case (Dhcp d)
    then show ?thesis
      using s e dhcp_machine.handle_safe [of "ap_dhcp s" d]
      by (auto simp: ap_step_def ap_inv_def ap_event_ok_def)
  next
    case (Dns d)
    then show ?thesis
      using s e dns_machine.handle_safe [of "ap_dns s" d]
      by (auto simp: ap_step_def ap_inv_def ap_event_ok_def)
  qed
qed

lemma ap_run_eq: "ap_run s es = ap_machine.run s es"
  by (induction es arbitrary: s) (auto split: option.splits)

text \<open>
  The loop returns exactly when configuration mode is complete after some number of batches; nothing
  else can end it, in particular no access out of bounds.
\<close>

definition ap_after :: "(nat \<Rightarrow> ap_event list) \<Rightarrow> nat \<Rightarrow> ap_state \<Rightarrow> ap_state option" where
  "ap_after events n s = ap_run s (concat (map events [0..<n]))"

lemma ap_run_append: "ap_run s (xs @ ys) = Option.bind (ap_run s xs) (\<lambda>s. ap_run s ys)"
proof (induction xs arbitrary: s)
  case (Cons x xs)
  then show ?case by (cases "ap_step s x") simp_all
qed simp

lemma ap_after_inv:
  assumes "ap_inv s" "\<forall>k. \<forall>e \<in> set (events k). ap_event_ok e"
  shows "\<exists>s'. ap_after events n s = Some s' \<and> ap_inv s'"
  using ap_machine.run_safe [OF assms(1), of "concat (map events [0..<n])"] assms(2)
  by (auto simp: ap_after_def ap_run_eq)

lemma ap_after_Suc: "ap_after events n s = Some s' \<Longrightarrow> ap_after events (Suc n) s = ap_run s' (events n)"
  by (simp add: ap_after_def ap_run_append)

text \<open>As long as the first \<open>n\<close> batches leave it incomplete, the loop is as if started after them.\<close>

lemma ap_loop_skip:
  assumes "\<forall>k < n. \<forall>t. ap_after events k s = Some t \<longrightarrow> \<not> complete (ap_tcp t)"
    and "ap_after events n s = Some s'"
  shows "ap_loop events 0 s = ap_loop events n s'"
  using assms
proof (induction n arbitrary: s')
  case 0
  then show ?case by (simp add: ap_after_def)
next
  case (Suc n)
  obtain t where t: "ap_after events n s = Some t"
    using Suc.prems(2) by (auto simp: ap_after_def ap_run_append bind_eq_Some_conv)
  then have "\<not> complete (ap_tcp t)" "ap_run t (events n) = Some s'"
    using Suc.prems ap_after_Suc [OF t] by auto
  then have "ap_loop events n t = ap_loop events (Suc n) s'" by (subst ap_loop.simps) simp
  moreover have "\<forall>k < n. \<forall>t. ap_after events k s = Some t \<longrightarrow> \<not> complete (ap_tcp t)"
    using Suc.prems(1) less_SucI by blast
  ultimately show ?case using Suc.IH [OF _ t] by simp
qed

lemma ap_loop_result:
  assumes "ap_loop events k s = Some r" "ap_inv s" "\<forall>k. \<forall>e \<in> set (events k). ap_event_ok e"
  shows "\<exists>s'. r = Some s' \<and> complete (ap_tcp s') \<and> ap_inv s'"
  using assms
proof (induction events k s r rule: ap_loop.raw_induct [rotated, consumes 1])
  case (1 loop events k s r)
  note IH = 1(1) and step = 1(2) and s = 1(3) and ev = 1(4)
  show ?case
  proof (cases "complete (ap_tcp s)")
    case True
    then show ?thesis using step s by auto
  next
    case False
    obtain t where "ap_run s (events k) = Some t" "ap_inv t"
      using ap_machine.run_safe [OF s, of "events k"] ev by (auto simp: ap_run_eq)
    then show ?thesis using False step IH [of events "k + 1" t r] ev by auto
  qed
qed

section \<open>Configuration mode from start to end\<close>

text \<open>The page template's array is what the generated header declares: longer than the template.\<close>

definition ap_start_ok :: "flash_config_t option \<Rightarrow> ap_state \<Rightarrow> bool" where
  "ap_start_ok cfg s \<longleftrightarrow> html_form_expanded (ap_tcp s) \<noteq> [] \<and> snd (ap_dhcp s) = [] \<and> snd (ap_dns s) = []
     \<and> (\<forall>c. cfg = Some c \<longrightarrow> valid_config c)"

lemma tcp_server_open_fields:
  "\<exists>es pcb. fst (tcp_server_open new_pcb bind_err listen_pcb s) = emit es (s\<lparr>server_pcb := pcb\<rparr>)"
proof -
  have e: "t = emit [] (t\<lparr>server_pcb := server_pcb t\<rparr>)" for t :: tcp_server_t by (simp add: emit_def)
  then have a: "\<exists>es pcb. s = emit es (s\<lparr>server_pcb := pcb\<rparr>)" by blast
  have b: "\<exists>es pcb. s\<lparr>server_pcb := x\<rparr> = emit es (s\<lparr>server_pcb := pcb\<rparr>)" for x
    by (rule exI [of _ "[]"], rule exI [of _ x]) (simp add: emit_def)
  show ?thesis
    using a b by (cases new_pcb; cases listen_pcb; cases "bind_err = ERR_OK")
      (auto simp: tcp_server_open_def Let_def)
qed

lemma dhcp_server_init_log: "dhcp_log_ok (dhcp_server_init new_ok bind_err d ip nm, [])"
proof -
  have "lease (dhcp_server_init new_ok bind_err d ip nm) = replicate 8 empty_lease"
    by (simp add: dhcp_server_init_def dhcp_socket_new_dgram_def dhcp_socket_bind_def Let_def DHCPS_MAX_IP_def)
  then show ?thesis by (simp add: dhcp_log_ok_def wf_leases_def DHCPS_MAX_IP_def empty_lease_def MAC_LEN_def)
qed

text \<open>The expanded page is a string.\<close>

lemma expand_loop_NUL:
  "expand_loop max_len cfg cursor out n = Some (ERR_OK, out') \<Longrightarrow> NUL \<in> set out'"
proof (induction max_len cfg cursor out n rule: expand_loop.induct)
  case (1 max_len cfg cursor out n)
  show ?case
  proof (cases "cursor = [] \<or> strstr cursor TEMPLATE_MARK = None")
    case True
    then show ?thesis
      using "1.prems" by (subst (asm) expand_loop.simps)
        (auto simp: buf_put_Some_iff bind_eq_Some_conv err_defs split: if_splits)
  next
    case False
    then obtain p where p: "cursor \<noteq> []" "strstr cursor TEMPLATE_MARK = Some p" by auto
    let ?key = "drop (p + length TEMPLATE_MARK) cursor"
    obtain b where b: "\<not> max_len \<le> n + p" "buf_put out n (take p cursor) = Some b"
      using "1.prems" p by (subst (asm) expand_loop.simps) (auto simp: err_defs split: if_splits option.splits)
    obtain k where k: "strchr ?key CHR ''}'' = Some k"
      using "1.prems" p b by (subst (asm) expand_loop.simps) (auto simp: err_defs Let_def split: if_splits option.splits)
    let ?r = "template_replacement cfg ?key k"
    obtain b2 where b2: "\<not> max_len \<le> n + p + length ?r" "buf_put b (n + p) ?r = Some b2"
      using "1.prems" p b k
      by (subst (asm) expand_loop.simps) (auto simp: err_defs Let_def split: if_splits option.splits)
    then have "expand_loop max_len cfg (drop (k + 1) ?key) b2 (n + p + length ?r) = Some (ERR_OK, out')"
      using "1.prems" p b k b2 by (subst (asm) expand_loop.simps) (simp add: Let_def)
    then show ?thesis using "1.IH" p b k b2 by auto
  qed
qed

lemma tcp_server_open_ok: "tcp_server_open a b c s = (t, True) \<Longrightarrow> t = s\<lparr>server_pcb := c\<rparr>"
  by (auto simp: tcp_server_open_def Let_def split: option.split_asm if_split_asm)

text \<open>The state that a set-up without an error ends in.\<close>

lemma ap_setup_done:
  assumes "ap_setup env template cfg s = Some (s', None)"
  obtains html dns where "expand_html_template (length (html_form_expanded (ap_tcp s))) template
      (html_form_expanded (ap_tcp s)) cfg = Some (ERR_OK, html)"
    and "dns_server_init (ap_ndebug env) (ap_dns_new env) (ap_dns_bind env) (fst (ap_dns s)) (ap_address env) = Some dns"
    and "s' = s\<lparr>ap_wifi_initialized := True, ap_mode_ssid := Some (get_ssid (ap_mac env)),
      ap_tcp := tcp_server_zero\<lparr>gw := ap_address env, server_flash_config := cfg, html_form_expanded := html,
        server_pcb := ap_tcp_listen env\<rparr>,
      ap_dhcp := (dhcp_server_init (ap_dhcp_new env) (ap_dhcp_bind env) (fst (ap_dhcp s)) (ap_address env)
        (ap_netmask env), snd (ap_dhcp s)), ap_dns := (dns, snd (ap_dns s))\<rparr>"
proof -
  obtain html where html: "expand_html_template (length (html_form_expanded (ap_tcp s))) template
      (html_form_expanded (ap_tcp s)) cfg = Some (ERR_OK, html)"
    using assms by (auto simp: ap_setup_def Let_def bind_eq_Some_conv split: if_splits)
  obtain dns where dns: "dns_server_init (ap_ndebug env) (ap_dns_new env) (ap_dns_bind env) (fst (ap_dns s))
      (ap_address env) = Some dns"
    using assms html by (auto simp: ap_setup_def Let_def bind_eq_Some_conv split: if_splits)
  show thesis
    by (rule that [OF html dns])
      (use assms html dns in \<open>auto simp: ap_setup_def Let_def split: if_splits prod.splits dest!: tcp_server_open_ok\<close>)
qed

lemma ap_setup_inv:
  assumes "ap_start_ok cfg s" "ap_setup env template cfg s = Some (s', None)"
  shows "ap_inv s' \<and> \<not> complete (ap_tcp s') \<and> stored (ap_tcp s') = [] \<and> ap_mode_ssid s' \<noteq> None"
proof -
  obtain html dns where html: "expand_html_template (length (html_form_expanded (ap_tcp s))) template
      (html_form_expanded (ap_tcp s)) cfg = Some (ERR_OK, html)"
    and s': "s' = s\<lparr>ap_wifi_initialized := True, ap_mode_ssid := Some (get_ssid (ap_mac env)),
      ap_tcp := tcp_server_zero\<lparr>gw := ap_address env, server_flash_config := cfg, html_form_expanded := html,
        server_pcb := ap_tcp_listen env\<rparr>,
      ap_dhcp := (dhcp_server_init (ap_dhcp_new env) (ap_dhcp_bind env) (fst (ap_dhcp s)) (ap_address env)
        (ap_netmask env), snd (ap_dhcp s)), ap_dns := (dns, snd (ap_dns s))\<rparr>"
    by (rule ap_setup_done [OF assms(2)])
  have "NUL \<in> set html" using html by (simp add: expand_html_template_def expand_loop_NUL)
  then have "tcp_inv (tcp_server_zero\<lparr>gw := ap_address env, server_flash_config := cfg, html_form_expanded := html,
      server_pcb := ap_tcp_listen env\<rparr>)"
    by (rule tcp_inv_start) (use assms(1) in \<open>simp add: ap_start_ok_def\<close>)
  then show ?thesis
    using assms(1) dhcp_server_init_log
    by (simp add: s' ap_inv_def ap_start_ok_def complete_ok_def dns_log_ok_def tcp_server_zero_def)
qed

lemma ap_setup_total:
  assumes "ap_start_ok cfg s" "ap_dns_bind env = ERR_OK \<or> ap_ndebug env"
  shows "\<exists>s' r. ap_setup env template cfg s = Some (s', r)"
proof -
  let ?html = "html_form_expanded (ap_tcp s)"
  have "\<exists>err out'. expand_html_template (length ?html) template ?html cfg = Some (err, out') \<and> length out' = length ?html"
    unfolding expand_html_template_def
    by (rule expand_loop_safe) (use assms(1) in \<open>simp_all add: ap_start_ok_def\<close>)
  then obtain err html where html: "expand_html_template (length ?html) template ?html cfg = Some (err, html)"
    by blast
  have "\<exists>dns. dns_server_init (ap_ndebug env) (ap_dns_new env) (ap_dns_bind env) (fst (ap_dns s))
      (ap_address env) = Some dns"
    using assms(2)
    by (auto simp: dns_server_init_def dns_socket_new_dgram_def dns_socket_bind_def ENOMEM_def err_defs)
  then show ?thesis
    using html by (cases "tcp_server_open (ap_tcp_new env) (ap_tcp_bind env) (ap_tcp_listen env)
        (tcp_server_zero\<lparr>server_flash_config := cfg, html_form_expanded := html, gw := ap_address env\<rparr>)")
      (auto simp: ap_setup_def Let_def)
qed

lemma ap_setup_error:
  assumes "ap_setup env template cfg s = Some (s', Some e)"
  shows "e = WIFI_INIT_ERROR \<and> stored (ap_tcp s') = []"
proof -
  have "stored (fst (tcp_server_open a b c t)) = stored t" for a b c t
    using tcp_server_open_fields [of a b c t] by auto
  then show ?thesis
    using assms
    by (auto simp: ap_setup_def Let_def bind_eq_Some_conv tcp_server_zero_def case_prod_unfold
        split: if_split_asm)
qed

lemma ap_loop_batches:
  assumes "ap_loop events k s = Some (Some s')"
  shows "\<exists>n. ap_run s (concat (map events [k..<k + n])) = Some s' \<and> complete (ap_tcp s')"
proof -
  have "\<forall>s'. r = Some s' \<longrightarrow> (\<exists>n. ap_run s (concat (map events [k..<k + n])) = Some s' \<and> complete (ap_tcp s'))"
    if "ap_loop events k s = Some r" for r
    using that
  proof (induction events k s r rule: ap_loop.raw_induct [rotated, consumes 1])
    case (1 loop events k s r)
    note IH = 1(1) and step = 1(2)
    show ?case
    proof (cases "complete (ap_tcp s)")
      case True
      then show ?thesis using step by (intro allI impI exI [of _ 0]) auto
    next
      case False
      show ?thesis
      proof (cases "ap_run s (events k)")
        case None
        then show ?thesis using step False by auto
      next
        case (Some t)
        then have l: "loop events (k + 1) t = Some r" using step False by simp
        show ?thesis
        proof (intro allI impI)
          fix s'
          assume "r = Some s'"
          then obtain n where "ap_run t (concat (map events [k + 1..<k + 1 + n])) = Some s'" "complete (ap_tcp s')"
            using IH [OF l] by blast
          moreover have "[k..<k + Suc n] = k # [k + 1..<k + 1 + n]" by (simp add: upt_rec)
          ultimately show "\<exists>n. ap_run s (concat (map events [k..<k + n])) = Some s' \<and> complete (ap_tcp s')"
            using Some by (intro exI [of _ "Suc n"]) (simp add: ap_run_append)
        qed
      qed
    qed
  qed
  then show ?thesis using assms by blast
qed

lemma access_point_result:
  assumes "ap_start_ok cfg s" and "\<forall>k. \<forall>e \<in> set (events k). ap_event_ok e"
    and "ap_dns_bind env = ERR_OK \<or> ap_ndebug env"
    and "start_wifi_access_point env template events cfg s = Some r"
  shows "\<exists>s' e. r = Some (s', e) \<and>
    (e = WIFI_INIT_ERROR \<and> stored (ap_tcp s') = []
     \<or> e = WIFI_OK \<and> stored (ap_tcp s') \<noteq> [] \<and> (\<forall>c \<in> set (stored (ap_tcp s')). valid_config c)
       \<and> ap_mode_ssid s' = None \<and> server_pcb (ap_tcp s') = None
       \<and> dhcp_udp (fst (ap_dhcp s')) = None \<and> dns_udp (fst (ap_dns s')) = None)"
proof -
  obtain s1 err where s1: "ap_setup env template cfg s = Some (s1, err)"
    using ap_setup_total [OF assms(1,3)] by blast
  show ?thesis
  proof (cases err)
    case (Some e)
    then show ?thesis using assms(4) s1 ap_setup_error [of env template cfg s s1 e]
      by (auto simp: start_wifi_access_point_def)
  next
    case None
    then obtain r1 where l: "ap_loop events 0 s1 = Some r1" "r = map_option (\<lambda>s. (ap_teardown s, WIFI_OK)) r1"
      using assms(4) s1 by (auto simp: start_wifi_access_point_def)
    have "ap_inv s1" using ap_setup_inv [OF assms(1)] s1 None by blast
    then obtain t where t: "r1 = Some t" "complete (ap_tcp t)" "ap_inv t"
      using ap_loop_result [OF l(1) _ assms(2)] by blast
    have "stored (tcp_server_close (ap_tcp t)) = stored (ap_tcp t)"
      "server_pcb (tcp_server_close (ap_tcp t)) = None"
      by (simp_all add: tcp_server_close_def split: option.splits)
    moreover have "stored (ap_tcp t) \<noteq> []" "\<forall>c \<in> set (stored (ap_tcp t)). valid_config c"
      using t(2,3) by (simp_all add: ap_inv_def complete_ok_def tcp_inv_def)
    ultimately show ?thesis
      using l(2) t(1)
      by (simp add: ap_teardown_def dhcp_server_deinit_def dhcp_socket_free_def dns_server_deinit_def
          dns_socket_free_def split: option.splits)
  qed
qed


definition sample_ap_env :: ap_env where
  "sample_ap_env = \<lparr>ap_arch_init = 0, ap_mac = [2, 0, 0, 0xab, 0xcd, 0xef], ap_address = ip4_addr 192 168 4 1,
     ap_netmask = ip4_addr 255 255 255 0, ap_dhcp_new = True, ap_dhcp_bind = ERR_OK, ap_dns_new = True,
     ap_dns_bind = ERR_OK, ap_ndebug = False, ap_tcp_new = Some 1, ap_tcp_bind = ERR_OK, ap_tcp_listen = Some 2\<rparr>"

definition sample_ap_start :: ap_state where
  "sample_ap_start = \<lparr>ap_tcp = tcp_server_zero\<lparr>html_form_expanded := [NUL, NUL]\<rparr>,
     ap_dhcp = (sample_server, []), ap_dns = (\<lparr>dns_udp = None, dns_ip = 0\<rparr>, []),
     ap_mode_ssid = None, ap_wifi_initialized = False\<rparr>"

lemma sample_ap_ok: "ap_start_ok None sample_ap_start"
  by (simp add: ap_start_ok_def sample_ap_start_def)


text \<open>
  C18: A form posted to the access point ends configuration mode: if, before the \<open>n\<close>-th second, the
  mode is not complete and a client is connected with nothing received yet, and in that second the
  client posts a form whose numbers are all in range (and the flash write succeeds), the function
  returns WIFI_OK with exactly the form's configuration stored last.
\<close>

theorem access_point_form_ends_mode:
  assumes "ap_start_ok cfg s" and "ap_setup env template cfg s = Some (s0, None)"
    and "\<forall>k. \<forall>e \<in> set (events k). ap_event_ok e"
    and "\<forall>k < n. \<forall>t. ap_after events k s0 = Some t \<longrightarrow> \<not> complete (ap_tcp t)"
    and "ap_after events n s0 = Some t" and "\<not> complete (ap_tcp t)"
    and "pcb_arg (ap_tcp t) pcb = Some i" and "c_str (headers (connections (ap_tcp t) ! i)) = []"
    and "events n = [Web (tenv, Recv pcb (Some p))]" and "pbuf_holds p b" and "0 \<notin> set b"
    and "chars_of_bytes b = post_request (form_body fs)" and "length b < TCP_IP_BUFFER_SIZE"
    and "form_base (server_flash_config (ap_tcp t)) = Some base"
    and "\<forall>f \<in> set fs. form_field_ok f" and "apply_fields base fs = Some (c, False)" and "env_store_ok tenv"
  shows "\<exists>s'. start_wifi_access_point env template events cfg s = Some (Some (s', WIFI_OK))
    \<and> stored (ap_tcp s') = stored (ap_tcp t) @ [c] \<and> ap_mode_ssid s' = None"
proof -
  have s0: "ap_inv s0" using ap_setup_inv [OF assms(1,2)] by blast
  have "tcp_inv (ap_tcp t)" using ap_after_inv [OF s0 assms(3), of n] assms(5) by (auto simp: ap_inv_def)
  from tcp_post_stores_form [OF this assms(7,8,10-17)]
  obtain u where u: "tcp_dispatch (ap_tcp t) (tenv, Recv pcb (Some p)) = Some u"
    "stored u = stored (ap_tcp t) @ [c]" "complete u" by blast
  have "ap_run t (events n) = Some (t\<lparr>ap_tcp := u\<rparr>)" using u(1) assms(9) by (simp add: ap_step_def)
  moreover have "ap_loop events (n + 1) (t\<lparr>ap_tcp := u\<rparr>) = Some (Some (t\<lparr>ap_tcp := u\<rparr>))"
    using u(3) by (subst ap_loop.simps) simp
  ultimately have "ap_loop events n t = Some (Some (t\<lparr>ap_tcp := u\<rparr>))"
    using assms(6) by (subst ap_loop.simps) simp
  then have "ap_loop events 0 s0 = Some (Some (t\<lparr>ap_tcp := u\<rparr>))"
    using ap_loop_skip [OF assms(4,5)] by simp
  then show ?thesis
    using assms(2) u(2)
    by (simp add: start_wifi_access_point_def ap_teardown_def tcp_server_close_def split: option.splits)
qed

definition sample_ap_tcp :: tcp_server_t where
  "sample_ap_tcp = tcp_server_zero\<lparr>html_form_expanded := ''x'' @ [NUL], gw := ip4_addr 192 168 4 1,
     server_pcb := Some 2\<rparr>"

lemma sample_ap_setup:
  "\<exists>s0. ap_setup sample_ap_env ''x'' None sample_ap_start = Some (s0, None) \<and> ap_tcp s0 = sample_ap_tcp"
proof -
  have html: "expand_html_template 2 ''x'' [NUL, NUL] None = Some (ERR_OK, ''x'' @ [NUL])"
    by (simp add: expand_html_template_def expand_loop.simps TEMPLATE_MARK_def buf_put_def prefixb_def)
  have dns: "\<exists>d. dns_server_init False True ERR_OK \<lparr>dns_udp = None, dns_ip = 0\<rparr> (ip4_addr 192 168 4 1) = Some d"
    by (simp add: dns_server_init_def dns_socket_new_dgram_def dns_socket_bind_def)
  then show ?thesis
    using html
    by (auto simp: ap_setup_def sample_ap_env_def sample_ap_start_def sample_ap_tcp_def tcp_server_open_def
        tcp_server_zero_def eval_nat_numeral)
qed

definition sample_ap_events :: "nat \<Rightarrow> ap_event list" where
  "sample_ap_events k = (if k = 0 then [Web (sample_env, Accept (Some 7) ERR_OK)]
     else if k = 1 then [Web (sample_env, Recv 7 (Some (pbuf_of_bytes sample_post)))] else [])"

lemma sample_ap_events_ok: "\<forall>k. \<forall>e \<in> set (sample_ap_events k). ap_event_ok e"
  using pbuf_holds_sane [OF pbuf_holds_of_bytes [of sample_post]]
  by (simp add: sample_ap_events_def ap_event_ok_def tcp_event_ok_def)

definition sample_ap_connected :: tcp_server_t where
  "sample_ap_connected = fst (tcp_server_accept (Some 7) ERR_OK sample_ap_tcp)"

lemma sample_ap_connected_fields:
  "pcb_arg sample_ap_connected 7 = Some 0" "c_str (headers (connections sample_ap_connected ! 0)) = []"
  "server_flash_config sample_ap_connected = None" "stored sample_ap_connected = []"
  "\<not> complete sample_ap_connected"
proof -
  have "headers (connections sample_ap_connected ! 0) = replicate TCP_IP_BUFFER_SIZE NUL"
    by (simp add: sample_ap_connected_def sample_ap_tcp_def tcp_server_accept_def tcp_server_zero_def Let_def
        TCP_IP_MAX_CONNECTIONS_def set_con_def con_zero_def eval_nat_numeral)
  then show "c_str (headers (connections sample_ap_connected ! 0)) = []"
    by (simp add: c_str_def TCP_IP_BUFFER_SIZE_def eval_nat_numeral)
qed (simp_all add: sample_ap_connected_def sample_ap_tcp_def tcp_server_accept_def tcp_server_zero_def Let_def
    TCP_IP_MAX_CONNECTIONS_def set_con_def con_zero_def eval_nat_numeral)

theorem access_point_form_ends_mode_witness:
  "\<exists>s'. start_wifi_access_point sample_ap_env ''x'' sample_ap_events None sample_ap_start
      = Some (Some (s', WIFI_OK)) \<and> map dst_rule (stored (ap_tcp s')) = [DST_RULE_EU]"
proof -
  obtain s0 where s0: "ap_setup sample_ap_env ''x'' None sample_ap_start = Some (s0, None)" "ap_tcp s0 = sample_ap_tcp"
    using sample_ap_setup by blast
  define t where "t = s0\<lparr>ap_tcp := sample_ap_connected\<rparr>"
  have z: "pcb_arg sample_ap_tcp 7 = None" "\<not> complete sample_ap_tcp"
    by (simp_all add: sample_ap_tcp_def tcp_server_zero_def)
  have t1: "ap_after sample_ap_events 1 s0 = Some t"
    using z s0(2)
    by (simp add: ap_after_def sample_ap_events_def ap_step_def tcp_dispatch_def sample_ap_connected_def t_def)
  have t0: "\<forall>k < 1. \<forall>t. ap_after sample_ap_events k s0 = Some t \<longrightarrow> \<not> complete (ap_tcp t)"
    using z s0(2) by (simp add: ap_after_def)
  obtain base where base: "form_base None = Some base" using form_base_valid [of None] by auto
  have "ap_tcp t = sample_ap_connected" by (simp add: t_def)
  note f = sample_ap_connected_fields [folded this]
  have "form_base (server_flash_config (ap_tcp t)) = Some base" using base f(3) by simp
  moreover have "sample_ap_events 1 = [Web (sample_env, Recv 7 (Some (pbuf_of_bytes sample_post)))]"
    by (simp add: sample_ap_events_def)
  moreover have "env_store_ok sample_env" by (simp add: sample_env_def)
  ultimately show ?thesis
    using access_point_form_ends_mode [OF sample_ap_ok s0(1) sample_ap_events_ok t0 t1 f(5,1,2) _
        pbuf_holds_of_bytes sample_post_bytes _ sample_post_form(2,3)] f(4)
    by fastforce
qed

end
