(* ===== verification/Clock.thy ===== *)
theory Clock
  imports Dst Ntp Lcd AccessPoint "HOL-Library.Sublist"
begin

text \<open>
  src/src/clock.c and src/src/pico_main.c: the clock's state, its timer callbacks, its start-up and the
  task that the main loop runs. The world holds what outlives a call and is not in the state: the
  display, the flash page, the memory that survives a reset, the system time and the two statics. What
  the SDK answers within a call is an argument.
\<close>

section \<open>State\<close>

record persistent_state_t =
  ps_magic_marker :: u32
  ps_boot_count :: u32
  ps_watchdog_error :: watchdog_error_t
  ps_ntp_error :: ntp_error_t
  ps_wifi_error :: wifi_error_t

record clock_state_t =
  ntp_time :: int
  clock_tick_updated :: bool
  ntp_time_updated :: bool
  ap_mode_triggered :: bool
  ntp_state :: ntp_state_t
  ntp_last_sync :: int
  ntp_interval :: u32
  lcd_states :: "lcd_state_t list"
  current_lcd_digits :: "char list"
  flash_config :: flash_config_t
  cold_boot :: bool
  last_watchdog_error_time :: int
  watchdog_reset_error :: watchdog_error_t
  ntp_reset_error :: ntp_error_t
  wifi_reset_error :: wifi_error_t
  first_clock_tick :: bool
  wifi_initialized :: bool

record clock_world =
  lcd :: lcd_globals
  flash :: flash_config_t
  persistent :: persistent_state_t
  tod :: int
  button_hold_seconds :: u8
  net_sent :: "udp_datagram list"
  green_led :: bool
  red_led :: bool

text \<open>
  A call returns, reboots the device (the calls that do not return end so), waits forever, or leaves an
  array. Only the world survives a reboot.
\<close>

datatype 'a outcome = Done 'a | Reboot clock_world | Hang | Fault

definition or_fault :: "'a option \<Rightarrow> ('a \<Rightarrow> 'b outcome) \<Rightarrow> 'b outcome" where
  "or_fault x f = (case x of None \<Rightarrow> Fault | Some a \<Rightarrow> f a)"

definition and_then :: "'a outcome \<Rightarrow> ('a \<Rightarrow> 'b outcome) \<Rightarrow> 'b outcome" where
  "and_then x f = (case x of Done a \<Rightarrow> f a | Reboot w \<Rightarrow> Reboot w | Hang \<Rightarrow> Hang | Fault \<Rightarrow> Fault)"

lemma or_fault_simps [simp]: "or_fault None f = Fault" "or_fault (Some a) f = f a"
  by (simp_all add: or_fault_def)

lemma and_then_simps [simp]: "and_then (Done a) f = f a" "and_then (Reboot w) f = Reboot w"
  "and_then Hang f = Hang" "and_then Fault f = Fault"
  by (simp_all add: and_then_def)

text \<open>\<open>memset(state, 0, sizeof(clock_state_t))\<close>.\<close>

definition lcd_state_zero :: lcd_state_t where
  "lcd_state_zero = \<lparr>RST_N_gpio = 0, DC_gpio = 0, BL_gpio = 0, CS_N_gpio = 0, CLK_gpio = 0, MOSI_gpio = 0,
     lcd_width_field = 0, lcd_height_field = 0, smoothed_adc = 0\<rparr>"

definition clock_state_zero :: clock_state_t where
  "clock_state_zero = \<lparr>ntp_time = 0, clock_tick_updated = False, ntp_time_updated = False,
     ap_mode_triggered = False, ntp_state = ntp_state_zero, ntp_last_sync = 0, ntp_interval = 0,
     lcd_states = replicate NUM_LCDS lcd_state_zero, current_lcd_digits = replicate (NUM_LCDS + 1) NUL,
     flash_config = flash_config_zero, cold_boot = False, last_watchdog_error_time = 0,
     watchdog_reset_error = WATCHDOG_OK, ntp_reset_error = NTP_OK, wifi_reset_error = WIFI_OK,
     first_clock_tick = False, wifi_initialized = False\<rparr>"

section \<open>Callbacks\<close>

definition get_atomic_time :: "clock_state_t \<Rightarrow> int" where
  "get_atomic_time state = ntp_time state"

definition system_reboot :: "clock_world \<Rightarrow> 'a outcome" where
  "system_reboot w = Reboot w"

definition ntp_timer_callback :: "clock_state_t \<Rightarrow> int \<Rightarrow> clock_state_t" where
  "ntp_timer_callback clock_state ntp_t = clock_state\<lparr>ntp_time := ntp_t, ntp_time_updated := True\<rparr>"

definition set_time_of_day :: "clock_state_t \<Rightarrow> clock_world \<Rightarrow> clock_world" where
  "set_time_of_day state w = w\<lparr>tod := get_atomic_time state\<rparr>"

text \<open>\<open>level\<close> is the level of the button's pin, low while it is pressed.\<close>

definition clock_timer_callback :: "bool \<Rightarrow> clock_state_t \<Rightarrow> clock_world \<Rightarrow> clock_state_t \<times> clock_world" where
  "clock_timer_callback level state w =
     (let (state, w) = (if \<not> level then
            (let w = w\<lparr>button_hold_seconds := button_hold_seconds w + 1\<rparr>
             in if unat (button_hold_seconds w) \<ge> FACTORY_RESET_HOLD_TIME_MS div 1000
                then (state\<lparr>ap_mode_triggered := True\<rparr>, w\<lparr>button_hold_seconds := 0\<rparr>)
                else (state, w))
          else (state, w\<lparr>button_hold_seconds := 0\<rparr>))
      in (state\<lparr>clock_tick_updated := True\<rparr>, w))"

definition config_store_handler :: "flash_config_t \<Rightarrow> bool \<Rightarrow> clock_world \<Rightarrow> (bool \<times> clock_world) outcome" where
  "config_store_handler config invalidate w =
     (let config = config\<lparr>magic_marker := (if invalidate then 0xffffffff else CONFIG_MAGIC)\<rparr>;
          w = w\<lparr>flash := config\<rparr>
      in if invalidate then system_reboot w else Done (True, w))"

text \<open>
  The square root of the interpolation, scaled to percent and truncated: the number of levels \<open>n\<close> up
  to 100 with \<open>n\<close> at most \<open>100 * sqrt (d / 320)\<close>. The values where the square is exact (\<open>d\<close> = 20,
  80, 180) are exact in single precision too, and all others are further from an integer than its
  rounding error, so this is what the \<open>float\<close> expression yields.
\<close>

definition perceived_percent :: "nat \<Rightarrow> u8" where
  "perceived_percent d = of_nat (length (filter (\<lambda>n. 4 * n * n \<le> 125 * d) [1..<101]))"

definition smooth_adc :: "u32 \<Rightarrow> u16 \<Rightarrow> u32" where
  "smooth_adc smoothed raw_adc =
     (if smoothed = 0 then ucast raw_adc else (smoothed * 7 + ucast raw_adc) div 8)"

definition backlight_percent :: "u32 \<Rightarrow> u8" where
  "backlight_percent smoothed =
     (if smoothed \<le> AMBIENT_LIGHT_DARK then 5
      else if smoothed \<ge> AMBIENT_LIGHT_BRIGHT then 100
      else perceived_percent (unat (smoothed - AMBIENT_LIGHT_DARK)))"

definition backlight_timer_callback ::
  "u16 \<Rightarrow> lcd_state_t \<Rightarrow> lcd_globals \<Rightarrow> lcd_state_t \<times> lcd_globals" where
  "backlight_timer_callback raw_adc lcd_state g =
     (let lcd_state = lcd_state\<lparr>smoothed_adc := smooth_adc (smoothed_adc lcd_state) raw_adc\<rparr>
      in (lcd_state, lcd_set_backlight lcd_state (backlight_percent (smoothed_adc lcd_state)) g))"

text \<open>
  \<open>fatal_reset\<close> of the firmware: the icons, the errors kept for the next boot, the reset.
\<close>

definition fatal_reset ::
  "lcd_assets \<Rightarrow> clock_state_t \<Rightarrow> ntp_error_t \<Rightarrow> wifi_error_t \<Rightarrow> clock_world \<Rightarrow> 'a outcome" where
  "fatal_reset a state ntp_err wifi_err w =
     or_fault (lcd_update_icons (icon_bits a) (lcd_states state ! 0) WATCHDOG_RESET ntp_err wifi_err (lcd w))
       (\<lambda>g. Reboot (w\<lparr>lcd := g,
          persistent := (persistent w)\<lparr>ps_ntp_error := ntp_err, ps_wifi_error := wifi_err\<rparr>\<rparr>))"

section \<open>Start-up\<close>

text \<open>What the SDK and the access point's clients do during start-up.\<close>

record boot_env =
  be_button :: "nat \<Rightarrow> bool"
  be_watchdog_caused_reboot :: bool
  be_ap_env :: ap_env
  be_ap_start :: ap_state
  be_template :: string
  be_ap_events :: "nat \<Rightarrow> ap_event list"

text \<open>The store handler called with each stored configuration in turn.\<close>

definition store_all :: "flash_config_t list \<Rightarrow> clock_world \<Rightarrow> clock_world" where
  "store_all cs w = fold (\<lambda>c w. w\<lparr>flash := c\<lparr>magic_marker := CONFIG_MAGIC\<rparr>\<rparr>) cs w"

text \<open>Configuration mode followed by \<open>system_reboot\<close>, as both callers do.\<close>

definition run_access_point ::
  "boot_env \<Rightarrow> flash_config_t option \<Rightarrow> bool \<Rightarrow> clock_world \<Rightarrow> 'a outcome" where
  "run_access_point e cfg wifi_init w =
     (case start_wifi_access_point (be_ap_env e) (be_template e) (be_ap_events e) cfg
             ((be_ap_start e)\<lparr>ap_wifi_initialized := wifi_init\<rparr>) of
        None \<Rightarrow> Hang
      | Some None \<Rightarrow> Fault
      | Some (Some (s, err)) \<Rightarrow> system_reboot (store_all (stored (ap_tcp s)) w))"

text \<open>The button sampled up to 30 times; released once is enough.\<close>

definition factory_reset_held :: "boot_env \<Rightarrow> bool" where
  "factory_reset_held e = list_all (\<lambda>i. \<not> be_button e i) [0..<FACTORY_RESET_HOLD_TIME_MS div 100]"

definition init_lcds :: "lcd_assets \<Rightarrow> clock_state_t \<Rightarrow> clock_world \<Rightarrow> (clock_state_t \<times> clock_world) option" where
  "init_lcds a state w = fold_opt (\<lambda>ii (state, w). do {
     (l, g) \<leftarrow> lcd_init (pwm_gpio_to_slice_num a) (lcd_states state ! ii) (of_nat ii) (ii = 0) (lcd w);
     g \<leftarrow> lcd_clear_screen l BLACK g;
     Some (state\<lparr>lcd_states := (lcd_states state)[ii := l]\<rparr>, w\<lparr>lcd := g\<rparr>) }) [0..<NUM_LCDS] (state, w)"

definition persistent_zero :: persistent_state_t where
  "persistent_zero = \<lparr>ps_magic_marker = 0, ps_boot_count = 0, ps_watchdog_error = WATCHDOG_OK,
     ps_ntp_error = NTP_OK, ps_wifi_error = WIFI_OK\<rparr>"

definition boot_watchdog_error :: "persistent_state_t \<Rightarrow> watchdog_error_t" where
  "boot_watchdog_error p =
     (if ps_ntp_error p \<noteq> NTP_OK then WATCHDOG_NTP
      else if ps_wifi_error p \<noteq> WIFI_OK then WATCHDOG_WIFI
      else WATCHDOG_RESET)"

text \<open>The three cases of a boot: factory reset, cold boot, reboot by the watchdog.\<close>

definition boot_case ::
  "lcd_assets \<Rightarrow> boot_env \<Rightarrow> clock_state_t \<Rightarrow> clock_world \<Rightarrow> (clock_state_t \<times> clock_world) outcome" where
  "boot_case a e state w =
     (if factory_reset_held e then
        and_then (config_store_handler flash_config_zero True w) (\<lambda>(ok, w). Done (state, w))
      else if cold_boot state then
        or_fault (lcd_print_line (text_font a) (lcd_states state ! 0) GREEN LCD_MSG_INIT_OK (lcd w))
          (\<lambda>g. Done (state, w\<lparr>lcd := g, persistent := persistent_zero\<lparr>ps_magic_marker := CONFIG_MAGIC\<rparr>\<rparr>))
      else
        (let p = (persistent w)\<lparr>ps_boot_count := ps_boot_count (persistent w) + 1\<rparr>;
             watchdog_error = boot_watchdog_error p
         in or_fault (lcd_update_icons (icon_bits a) (lcd_states state ! 0) watchdog_error
                (ps_ntp_error p) (ps_wifi_error p) (lcd w))
              (\<lambda>g. Done (state\<lparr>watchdog_reset_error := watchdog_error, ntp_reset_error := ps_ntp_error p,
                  wifi_reset_error := ps_wifi_error p\<rparr>,
                w\<lparr>lcd := g, persistent := p\<lparr>ps_ntp_error := NTP_OK, ps_wifi_error := WIFI_OK\<rparr>\<rparr>))))"

definition clock_init :: "lcd_assets \<Rightarrow> boot_env \<Rightarrow> clock_world \<Rightarrow> (clock_state_t \<times> clock_world) outcome" where
  "clock_init a e w =
     or_fault (init_lcds a clock_state_zero w) (\<lambda>(state, w).
       and_then (boot_case a e (state\<lparr>cold_boot := \<not> be_watchdog_caused_reboot e\<rparr>) w) (\<lambda>(state, w).
         if magic_marker (flash w) = CONFIG_MAGIC then
           Done (state\<lparr>flash_config := flash w, ntp_last_sync := ntp_time state,
             ntp_interval := NTP_SYNC_INTERVAL_SEC, first_clock_tick := True\<rparr>, w)
         else
           or_fault (lcd_print_line (text_font a) (lcd_states state ! 0) RED LCD_MSG_FLASH_ERROR (lcd w)) (\<lambda>g.
             or_fault (lcd_print_line (text_font a) (lcd_states state ! 0) RED LCD_MSG_WIFI_ERROR g) (\<lambda>g.
               run_access_point e None (wifi_initialized state) (w\<lparr>lcd := g\<rparr>)))))"

text \<open>What the stack and the timer answer to a request, and to \<open>clock_start\<close>.\<close>

record request_env =
  re_now_ms :: u32
  re_gethostbyname :: "string \<Rightarrow> int \<times> ip_addr_t option"
  re_pbuf_alloc :: bool
  re_udp_sendto :: "udp_datagram \<Rightarrow> int"

record start_env =
  se_arch_init :: int
  se_connect :: "nat \<Rightarrow> int"
  se_elapsed_us :: "nat \<Rightarrow> int"
  se_udp_new :: bool
  se_request :: request_env
  se_clock_timer :: bool
  se_backlight_timer :: bool

text \<open>\<open>ntp_request_async\<close> as both callers use it, with the reset when it fails at once.\<close>

definition clock_request ::
  "lcd_assets \<Rightarrow> request_env \<Rightarrow> clock_state_t \<times> clock_world \<Rightarrow> (clock_state_t \<times> clock_world) outcome" where
  "clock_request a re = (\<lambda>(state, w).
     (let (ntp_status, ntp, sent) = ntp_request_async (re_now_ms re) (re_gethostbyname re) (re_pbuf_alloc re)
            (re_udp_sendto re) (c_str (ntp_server (flash_config state))) (ntp_state state);
          state = state\<lparr>ntp_state := ntp\<rparr>;
          w = w\<lparr>net_sent := net_sent w @ sent\<rparr>
      in if ntp_status \<noteq> NTP_OK then fatal_reset a state ntp_status WIFI_OK w else Done (state, w)))"

definition start_icons ::
  "lcd_assets \<Rightarrow> wifi_error_t \<Rightarrow> clock_state_t \<Rightarrow> clock_world \<Rightarrow> (clock_state_t \<times> clock_world) outcome" where
  "start_icons a wifi_status state w =
     (if wifi_status = WIFI_OK then
        or_fault (if cold_boot state
            then lcd_print_line (text_font a) (lcd_states state ! 0) GREEN LCD_MSG_WIFI_OK (lcd w) else Some (lcd w))
          (\<lambda>g. or_fault (lcd_update_icons (icon_bits a) (lcd_states state ! 0) (watchdog_reset_error state) NTP_OK WIFI_OK g)
            (\<lambda>g. Done (state, w\<lparr>lcd := g\<rparr>)))
      else fatal_reset a state NTP_OK wifi_status w)"

definition clock_start ::
  "lcd_assets \<Rightarrow> start_env \<Rightarrow> clock_state_t \<Rightarrow> clock_world \<Rightarrow> (clock_state_t \<times> clock_world) outcome" where
  "clock_start a e state w =
     (case connect_to_wifi (se_arch_init e) (se_connect e) (se_elapsed_us e) (wifi_initialized state) of
        None \<Rightarrow> Hang
      | Some (wifi_status, wifi_init, attempts) \<Rightarrow>
          and_then (start_icons a wifi_status (state\<lparr>wifi_initialized := wifi_init\<rparr>) w) (\<lambda>(state, w).
            let (ok, ntp) = ntp_init (se_udp_new e) (ntp_state state);
                state = state\<lparr>ntp_state := ntp\<rparr>
            in if \<not> ok then fatal_reset a state NTP_INIT_ERROR WIFI_OK w
               else and_then (clock_request a (se_request e)
                   (state\<lparr>ntp_state := (ntp_state state)\<lparr>ns_port := ntp_port (flash_config state)\<rparr>\<rparr>, w)) (\<lambda>(state, w).
                 if \<not> se_clock_timer e \<or> \<not> se_backlight_timer e then fatal_reset a state NTP_INIT_ERROR WIFI_OK w
                 else Done (state, w))))"

section \<open>The task\<close>

text \<open>Taking over the time that an NTP reply left.\<close>

definition process_ntp_time :: "clock_state_t \<times> clock_world \<Rightarrow> clock_state_t \<times> clock_world" where
  "process_ntp_time = (\<lambda>(state, w).
     if ntp_time_updated state then
       (let state = state\<lparr>ntp_time_updated := False\<rparr>;
            w = set_time_of_day state w
        in (state\<lparr>ntp_last_sync := tod w\<rparr>, w))
     else (state, w))"

definition day_of_week_str :: "string list" where
  "day_of_week_str = [''Sun'', ''Mon'', ''Tue'', ''Wed'', ''Thu'', ''Fri'', ''Sat'']"

text \<open>\<open>'0' + (char)n\<close>.\<close>

definition digit_char :: "int \<Rightarrow> char" where
  "digit_char n = char_of (nat ((48 + n) mod 256))"

definition lcd_digits_of :: "tm \<Rightarrow> char list option" where
  "lcd_digits_of local_time = do {
     day \<leftarrow> buf_get day_of_week_str (nat (tm_wday local_time));
     Some (take 3 day @ [digit_char (tm_hour local_time sdiv 10), digit_char (tm_hour local_time smod 10),
       digit_char (tm_min local_time sdiv 10), digit_char (tm_min local_time smod 10), NUL]) }"

definition digit_changed :: "clock_state_t \<Rightarrow> char list \<Rightarrow> nat \<Rightarrow> bool" where
  "digit_changed state lcd_digits ii \<longleftrightarrow> current_lcd_digits state ! ii \<noteq> lcd_digits ! ii \<or> first_clock_tick state"

definition draw_digit ::
  "lcd_assets \<Rightarrow> ntp_error_t \<Rightarrow> char list \<Rightarrow> nat \<Rightarrow> clock_state_t \<times> clock_world \<Rightarrow> (clock_state_t \<times> clock_world) option" where
  "draw_digit a err lcd_digits ii = (\<lambda>(state, w). do {
     let l = lcd_states state ! ii;
     g \<leftarrow> (if digit_changed state lcd_digits ii
           then Option.bind (lcd_clear_screen l BLACK (lcd w))
             (lcd_print_clock_digit (clock_digit_font a) l (if ii < 3 then CYAN else GREEN) (lcd_digits ! ii))
           else Some (lcd w));
     g \<leftarrow> (if ii = 0
           then lcd_update_icons (icon_bits a) (lcd_states state ! 0) (watchdog_reset_error state) err WIFI_OK g
           else Some g);
     Some (state\<lparr>current_lcd_digits := (current_lcd_digits state)[ii := lcd_digits ! ii]\<rparr>, w\<lparr>lcd := g\<rparr>) })"

definition update_display ::
  "lcd_assets \<Rightarrow> ntp_error_t \<Rightarrow> int \<Rightarrow> clock_state_t \<times> clock_world \<Rightarrow> (clock_state_t \<times> clock_world) option" where
  "update_display a err utc_now = (\<lambda>(state, w). do {
     local_epoch \<leftarrow> calculate_local_time utc_now (flash_config state);
     let state = (if local_epoch > last_watchdog_error_time state + WATCHDOG_ICON_INTERVAL
       then state\<lparr>watchdog_reset_error := WATCHDOG_OK\<rparr> else state);
     lcd_digits \<leftarrow> lcd_digits_of (gmtime_r local_epoch);
     if list_ex (digit_changed state lcd_digits) [0..<NUM_LCDS]
     then fold_opt (draw_digit a err lcd_digits) [0..<NUM_LCDS] (state, w)
     else Some (state, w) })"

text \<open>
  What the status read at the start of the task leads to. The first switch also writes the status, the
  request is made on the status read before.
\<close>

definition handle_ntp_status ::
  "lcd_assets \<Rightarrow> u32 \<Rightarrow> ntp_atomic_state_t \<Rightarrow> clock_state_t \<times> clock_world \<Rightarrow> (clock_state_t \<times> clock_world) outcome" where
  "handle_ntp_status a now_ms snap = (\<lambda>(state, w).
     if as_status snap = NTP_PENDING then
       (if now_ms - as_request_start_ms snap > ntp_timeout (flash_config state)
        then fatal_reset a state NTP_TIMEOUT_ERROR WIFI_OK w else Done (state, w))
     else if as_status snap = NTP_FAILED then fatal_reset a state (as_error snap) WIFI_OK w
     else if as_status snap = NTP_KOD then
       Done (state\<lparr>ntp_interval := ntp_interval state * 2,
         ntp_state := fst (ntp_atomic_status (ntp_state state) NTP_IDLE NTP_NULL_ERROR 0)\<rparr>, w)
     else if as_status snap = NTP_SUCCESS then
       Done (state\<lparr>ntp_state := fst (ntp_atomic_status (ntp_state state) NTP_IDLE NTP_NULL_ERROR 0)\<rparr>, w)
     else Done (state, w))"

definition request_if_due ::
  "lcd_assets \<Rightarrow> request_env \<Rightarrow> ntp_atomic_state_t \<Rightarrow> int \<Rightarrow> clock_state_t \<times> clock_world
   \<Rightarrow> (clock_state_t \<times> clock_world) outcome" where
  "request_if_due a re snap utc_now = (\<lambda>(state, w).
     if as_status snap = NTP_IDLE \<and> utc_now - ntp_last_sync state \<ge> uint (ntp_interval state)
     then clock_request a re (state\<lparr>ntp_last_sync := utc_now\<rparr>, w) else Done (state, w))"

text \<open>
  The whole task, without interruption: the callbacks run between two calls of it, and the time does
  not change during the call. The milliseconds since boot are those of the request's environment.
\<close>

definition clock_task ::
  "lcd_assets \<Rightarrow> request_env \<Rightarrow> clock_state_t \<times> clock_world \<Rightarrow> (clock_state_t \<times> clock_world) outcome" where
  "clock_task a re sw =
     (let snap = snd (ntp_atomic_status (ntp_state (fst sw)) NTP_NULL_STATUS NTP_NULL_ERROR 0);
          sw = process_ntp_time sw
      in if \<not> clock_tick_updated (fst sw) then Done sw
         else
           (let sw = ((fst sw)\<lparr>clock_tick_updated := False\<rparr>, snd sw);
                utc_now = tod (snd sw)
            in or_fault (update_display a (as_error snap) utc_now sw) (\<lambda>sw.
                 and_then (handle_ntp_status a (re_now_ms re) snap sw) (\<lambda>sw.
                   and_then (request_if_due a re snap utc_now sw) (\<lambda>(state, w).
                     Done (state\<lparr>first_clock_tick := False\<rparr>, w))))))"

section \<open>What holds of a running clock\<close>

definition flash_ok :: "clock_world \<Rightarrow> bool" where
  "flash_ok w \<longleftrightarrow> (magic_marker (flash w) = CONFIG_MAGIC \<longrightarrow> valid_config (flash w))"

definition panels_ok :: "lcd_state_t list \<Rightarrow> bool" where
  "panels_ok ls \<longleftrightarrow> length ls = NUM_LCDS \<and> (\<forall>n < NUM_LCDS. panel_pins n (ls ! n))"

definition clock_inv :: "clock_state_t \<times> clock_world \<Rightarrow> bool" where
  "clock_inv = (\<lambda>(state, w). lcd_inv (lcd w) \<and> flash_ok w \<and> 0 \<le> tod w \<and> panels_ok (lcd_states state)
     \<and> length (current_lcd_digits state) = NUM_LCDS + 1 \<and> valid_config (flash_config state)
     \<and> ntp_consistent (ntp_state state) \<and> 0 \<le> ntp_time state
     \<and> (\<exists>k. ntp_interval state = NTP_SYNC_INTERVAL_SEC * 2 ^ k) \<and> last_watchdog_error_time state = 0)"

text \<open>A call that never leaves an array: it ends in a state with \<open>P\<close> or resets the device with an intact flash.\<close>

definition outcome_ok :: "bool \<Rightarrow> ('a \<Rightarrow> bool) \<Rightarrow> 'a outcome \<Rightarrow> bool" where
  "outcome_ok may_hang P r = (case r of Done x \<Rightarrow> P x | Reboot w \<Rightarrow> flash_ok w | Hang \<Rightarrow> may_hang | Fault \<Rightarrow> False)"

lemma outcome_ok_simps [simp]: "outcome_ok h P (Done x) = P x" "outcome_ok h P (Reboot w) = flash_ok w"
  "outcome_ok h P Hang = h" "outcome_ok h P Fault = False"
  by (simp_all add: outcome_ok_def)

lemma outcome_ok_and_then:
  "outcome_ok h P r \<Longrightarrow> (\<And>x. P x \<Longrightarrow> outcome_ok h Q (f x)) \<Longrightarrow> outcome_ok h Q (and_then r f)"
  by (cases r) simp_all

lemma draws_inv:
  "draws m b g r \<Longrightarrow> lcd_inv g \<Longrightarrow> \<exists>g'. r = Some g' \<and> lcd_inv g' \<and> delivers m b g g'"
  by (auto simp: draws_def lcd_inv_def delivers_def)

lemma lcd_inv_linebuf: "lcd_inv g \<Longrightarrow> length (linebuf g) = LINEBUF_LEN"
  by (simp add: lcd_inv_def)

lemma received_delivers:
  "lcd_inv g \<Longrightarrow> delivers m b g g' \<Longrightarrow> n < NUM_LCDS \<Longrightarrow> received n g' = received n g @ (if n = m then b else [])"
  by (simp add: lcd_inv_def delivers_def)

lemma panels_ok_0: "panels_ok ls \<Longrightarrow> panel_pins 0 (ls ! 0)"
  by (simp add: panels_ok_def NUM_LCDS_def)

text \<open>The bytes of the three icons.\<close>

definition status_icon_bytes ::
  "lcd_assets \<Rightarrow> watchdog_error_t \<Rightarrow> ntp_error_t \<Rightarrow> wifi_error_t \<Rightarrow> (bool \<times> u8) list" where
  "status_icon_bytes a we ne fe = icon_bytes (icon_bits a) (watchdog_case we)
     @ icon_bytes (icon_bits a) (ntp_case ne) @ icon_bytes (icon_bits a) (wifi_case fe)"

lemma update_icons_ok:
  assumes "wf_assets a" "lcd_inv g" "panel_pins m l"
  shows "\<exists>g'. lcd_update_icons (icon_bits a) l we ne fe g = Some g' \<and> lcd_inv g'
    \<and> delivers m (status_icon_bytes a we ne fe) g g'"
  unfolding status_icon_bytes_def
  by (rule draws_inv [OF lcd_update_icons_draws assms(2)])
    (use assms in \<open>simp_all add: wf_assets_def lcd_inv_linebuf\<close>)

lemma print_line_ok:
  assumes "wf_assets a" "lcd_inv g" "panel_pins m l"
  shows "\<exists>g'. lcd_print_line (text_font a) l color msg g = Some g' \<and> lcd_inv g'"
  using lcd_print_line_draws [OF assms(3) _ lcd_inv_linebuf [OF assms(2)], of "text_font a" color msg]
    draws_inv [OF _ assms(2)] assms(1) unfolding wf_assets_def by blast

lemma fatal_reset_reboots:
  assumes "wf_assets a" "lcd_inv (lcd w)" "panels_ok (lcd_states state)"
  shows "\<exists>g. fatal_reset a state ne fe w = Reboot (w\<lparr>lcd := g,
      persistent := (persistent w)\<lparr>ps_ntp_error := ne, ps_wifi_error := fe\<rparr>\<rparr>)
    \<and> delivers 0 (status_icon_bytes a WATCHDOG_RESET ne fe) (lcd w) g"
  using update_icons_ok [OF assms(1,2) panels_ok_0 [OF assms(3)], of WATCHDOG_RESET ne fe]
  by (auto simp: fatal_reset_def)

lemma fatal_reset_ok:
  assumes "wf_assets a" "clock_inv (state, w)"
  shows "outcome_ok h P (fatal_reset a state ne fe w :: 'a outcome)"
proof -
  obtain g where "fatal_reset a state ne fe w = (Reboot (w\<lparr>lcd := g,
      persistent := (persistent w)\<lparr>ps_ntp_error := ne, ps_wifi_error := fe\<rparr>\<rparr>) :: 'a outcome)"
    using fatal_reset_reboots [OF assms(1), of w state ne fe] assms(2) by (auto simp: clock_inv_def)
  then show ?thesis using assms(2) by (simp add: clock_inv_def flash_ok_def)
qed

lemma fold_opt_upt:
  assumes "P 0 s" "\<And>k s. k < n \<Longrightarrow> P k s \<Longrightarrow> \<exists>s'. f k s = Some s' \<and> P (Suc k) s'"
  shows "\<exists>s'. fold_opt f [0..<n] s = Some s' \<and> P n s'"
proof -
  have "k \<le> n \<Longrightarrow> \<exists>s'. fold_opt f [0..<k] s = Some s' \<and> P k s'" for k
    by (induction k) (use assms in \<open>fastforce simp: fold_opt_append\<close>)+
  then show ?thesis by simp
qed

section \<open>The task's parts\<close>

lemma clock_inv_parts:
  "clock_inv (state, w) \<Longrightarrow> lcd_inv (lcd w)" "clock_inv (state, w) \<Longrightarrow> panels_ok (lcd_states state)"
  "clock_inv (state, w) \<Longrightarrow> 0 \<le> tod w" "clock_inv (state, w) \<Longrightarrow> flash_ok w"
  "clock_inv (state, w) \<Longrightarrow> valid_config (flash_config state)"
  "clock_inv (state, w) \<Longrightarrow> ntp_consistent (ntp_state state)"
  by (auto simp: clock_inv_def)

lemma clock_request_ok:
  assumes "wf_assets a" "clock_inv sw"
  shows "outcome_ok h clock_inv (clock_request a re sw)"
proof -
  obtain state w where sw: "sw = (state, w)" by (cases sw)
  obtain e ntp sent where r: "ntp_request_async (re_now_ms re) (re_gethostbyname re) (re_pbuf_alloc re)
      (re_udp_sendto re) (c_str (ntp_server (flash_config state))) (ntp_state state) = (e, ntp, sent)"
    by (cases "ntp_request_async (re_now_ms re) (re_gethostbyname re) (re_pbuf_alloc re)
      (re_udp_sendto re) (c_str (ntp_server (flash_config state))) (ntp_state state)") auto
  have "ntp_consistent ntp"
    using ntp_request_async_consistent [of "ntp_state state" "re_now_ms re" "re_gethostbyname re" "re_pbuf_alloc re"
      "re_udp_sendto re" "c_str (ntp_server (flash_config state))"] assms(2) r sw by (simp add: clock_inv_def)
  then have "clock_inv (state\<lparr>ntp_state := ntp\<rparr>, w\<lparr>net_sent := net_sent w @ sent\<rparr>)"
    using assms(2) by (simp add: clock_inv_def flash_ok_def sw)
  then show ?thesis
    by (simp add: clock_request_def sw r Let_def fatal_reset_ok [OF assms(1)])
qed

lemma process_ntp_time_ok: "clock_inv sw \<Longrightarrow> clock_inv (process_ntp_time sw)"
  by (cases sw) (auto simp: process_ntp_time_def clock_inv_def flash_ok_def set_time_of_day_def
      get_atomic_time_def Let_def)

lemma handle_ntp_status_ok:
  assumes "wf_assets a" "clock_inv sw"
  shows "outcome_ok h clock_inv (handle_ntp_status a now snap sw)"
proof -
  obtain state w where sw: "sw = (state, w)" by (cases sw)
  have "ntp_consistent (fst (ntp_atomic_status (ntp_state state) NTP_IDLE NTP_NULL_ERROR 0))"
    using clock_inv_parts(6) assms(2) by (auto simp: sw ntp_consistent_def)
  moreover have "\<exists>k'. ntp_interval state * 2 = NTP_SYNC_INTERVAL_SEC * 2 ^ k'"
    if k: "ntp_interval state = NTP_SYNC_INTERVAL_SEC * 2 ^ k" for k
    by (rule exI [of _ "Suc k"]) (simp add: k)
  ultimately have "clock_inv (state\<lparr>ntp_interval := ntp_interval state * 2,
      ntp_state := fst (ntp_atomic_status (ntp_state state) NTP_IDLE NTP_NULL_ERROR 0)\<rparr>, w)"
    "clock_inv (state\<lparr>ntp_state := fst (ntp_atomic_status (ntp_state state) NTP_IDLE NTP_NULL_ERROR 0)\<rparr>, w)"
    using assms(2) by (auto simp: sw clock_inv_def)
  then show ?thesis
    using assms(2) by (simp add: handle_ntp_status_def sw fatal_reset_ok [OF assms(1)])
qed

lemma request_if_due_ok:
  assumes "wf_assets a" "clock_inv sw"
  shows "outcome_ok h clock_inv (request_if_due a re snap utc_now sw)"
proof -
  obtain state w where sw: "sw = (state, w)" by (cases sw)
  have "clock_inv (state\<lparr>ntp_last_sync := utc_now\<rparr>, w)" using assms(2) by (simp add: sw clock_inv_def)
  then show ?thesis using assms(2) by (simp add: request_if_due_def sw clock_request_ok [OF assms(1)])
qed

section \<open>The display\<close>

text \<open>What the seven panels are to show at the local time \<open>l\<close>.\<close>

definition shown_digits :: "int \<Rightarrow> string" where
  "shown_digits l = take 3 (day_of_week_str ! nat ((l div 86400 + 4) mod 7))
     @ two_digits (l mod 86400 div 3600) @ two_digits (l mod 86400 div 60 mod 60)"

lemma digit_char_two: "0 \<le> n \<Longrightarrow> n < 100 \<Longrightarrow> [digit_char (n sdiv 10), digit_char (n smod 10)] = two_digits n"
proof -
  assume n: "0 \<le> n" "n < 100"
  have a: "0 \<le> n div 10" "n div 10 < 10" "0 \<le> n mod 10" "n mod 10 < 10" using n by auto
  then have "nat ((48 + n div 10) mod 256) = nat n div 10 + 48" "nat ((48 + n mod 10) mod 256) = nat n mod 10 + 48"
    using n by (simp_all add: nat_div_distrib nat_mod_distrib nat_add_distrib)
  then show ?thesis using n by (simp only: digit_char_def two_digits_def c_arith)
qed

lemma day_of_week_str_length: "i < 7 \<Longrightarrow> length (day_of_week_str ! i) = 3"
proof -
  assume "i < 7"
  then have "i \<in> {0, 1, 2, 3, 4, 5, 6}" by auto
  then show ?thesis by (auto simp: day_of_week_str_def)
qed

lemma shown_digits_length: "length (shown_digits l) = NUM_LCDS"
  by (simp add: shown_digits_def day_of_week_str_length two_digits_def NUM_LCDS_def nat_less_iff)

lemma lcd_digits_of_gmtime: "lcd_digits_of (gmtime_r l) = Some (shown_digits l @ [NUL])"
proof -
  have h: "0 \<le> l mod 86400 div 3600" "l mod 86400 div 3600 < 100"
    using gmtime_hour_bounds [of l] by (simp_all add: gmtime_clock)
  have m: "0 \<le> l mod 86400 div 60 mod 60" "l mod 86400 div 60 mod 60 < 100"
    by (simp, rule less_trans [OF pos_mod_bound]) simp_all
  have w: "buf_get day_of_week_str (nat ((l div 86400 + 4) mod 7)) = Some (day_of_week_str ! nat ((l div 86400 + 4) mod 7))"
    by (rule buf_get_in) (simp add: day_of_week_str_def nat_less_iff)
  show ?thesis
    using digit_char_two [OF h] digit_char_two [OF m]
    by (simp add: lcd_digits_of_def gmtime_clock(2-4) w shown_digits_def)
qed

text \<open>The bytes panel \<open>n\<close> receives when its character is to become \<open>digits ! n\<close>.\<close>

definition digit_color :: "nat \<Rightarrow> color_t" where "digit_color n = (if n < 3 then CYAN else GREEN)"

definition clear_bytes :: "(bool \<times> u8) list" where
  "clear_bytes = rectangle_bytes 0 0 172 320 (\<lambda>_ _. color_table ! unat (color_value BLACK))"

definition panel_bytes :: "lcd_assets \<Rightarrow> clock_state_t \<Rightarrow> char list \<Rightarrow> nat \<Rightarrow> (bool \<times> u8) list" where
  "panel_bytes a state digits n = (if digit_changed state digits n
     then clear_bytes @ digit_bytes (clock_digit_font a) (digit_color n) (digits ! n) else [])"

lemma draw_digit_ok:
  assumes "wf_assets a" "lcd_inv (lcd w)" "panels_ok (lcd_states state)" "n < NUM_LCDS"
  shows "\<exists>g'. draw_digit a err digits n (state, w)
      = Some (state\<lparr>current_lcd_digits := (current_lcd_digits state)[n := digits ! n]\<rparr>, w\<lparr>lcd := g'\<rparr>)
    \<and> lcd_inv g' \<and> delivers n (panel_bytes a state digits n
        @ (if n = 0 then status_icon_bytes a (watchdog_reset_error state) err WIFI_OK else [])) (lcd w) g'"
proof -
  let ?l = "lcd_states state ! n"
  have p: "panel_pins n ?l" using assms(3,4) by (simp add: panels_ok_def)
  have "\<exists>g1. (if digit_changed state digits n
      then Option.bind (lcd_clear_screen ?l BLACK (lcd w))
        (lcd_print_clock_digit (clock_digit_font a) ?l (digit_color n) (digits ! n)) else Some (lcd w)) = Some g1
    \<and> lcd_inv g1 \<and> delivers n (panel_bytes a state digits n) (lcd w) g1"
  proof (rule draws_inv [OF _ assms(2)])
    show "draws n (panel_bytes a state digits n) (lcd w) (if digit_changed state digits n
      then Option.bind (lcd_clear_screen ?l BLACK (lcd w))
        (lcd_print_clock_digit (clock_digit_font a) ?l (digit_color n) (digits ! n)) else Some (lcd w))"
      unfolding panel_bytes_def
      using assms(1) lcd_inv_linebuf [OF assms(2)]
      by (auto simp: wf_assets_def draws_skip
          intro!: draws_bind lcd_clear_screen_draws [of _ _ _ BLACK, folded clear_bytes_def] lcd_print_clock_digit_draws p)
  qed
  then obtain g1 where g1: "(if digit_changed state digits n
      then Option.bind (lcd_clear_screen ?l BLACK (lcd w))
        (lcd_print_clock_digit (clock_digit_font a) ?l (digit_color n) (digits ! n)) else Some (lcd w)) = Some g1"
    "lcd_inv g1" "delivers n (panel_bytes a state digits n) (lcd w) g1" by blast
  have "\<exists>g2. (if n = 0 then lcd_update_icons (icon_bits a) (lcd_states state ! 0) (watchdog_reset_error state) err WIFI_OK g1
      else Some g1) = Some g2 \<and> lcd_inv g2
    \<and> delivers n (if n = 0 then status_icon_bytes a (watchdog_reset_error state) err WIFI_OK else []) g1 g2"
    using update_icons_ok [OF assms(1) g1(2) panels_ok_0 [OF assms(3)]] g1(2) by (auto simp: delivers_def)
  then show ?thesis
    using g1 delivers_trans [OF g1(3)] unfolding draw_digit_def Let_def digit_color_def by fastforce
qed

text \<open>The state after the digits have been drawn: the characters of the array are those wanted.\<close>

lemma draw_digits_ok:
  assumes "wf_assets a" "lcd_inv (lcd w)" "panels_ok (lcd_states state)"
    and "length (current_lcd_digits state) = NUM_LCDS + 1" "length digits = NUM_LCDS + 1"
  shows "\<exists>g'. fold_opt (draw_digit a err digits) [0..<NUM_LCDS] (state, w)
      = Some (state\<lparr>current_lcd_digits := take NUM_LCDS digits @ drop NUM_LCDS (current_lcd_digits state)\<rparr>, w\<lparr>lcd := g'\<rparr>)
    \<and> lcd_inv g' \<and> (\<forall>n < NUM_LCDS. received n g' = received n (lcd w) @ panel_bytes a state digits n
        @ (if n = 0 then status_icon_bytes a (watchdog_reset_error state) err WIFI_OK else []))"
proof -
  define cur where "cur k = take k digits @ drop k (current_lcd_digits state)" for k
  define extra where "extra n = panel_bytes a state digits n
      @ (if n = 0 then status_icon_bytes a (watchdog_reset_error state) err WIFI_OK else [])" for n
  define P where "P k sw \<longleftrightarrow> (\<exists>g. sw = (state\<lparr>current_lcd_digits := cur k\<rparr>, w\<lparr>lcd := g\<rparr>) \<and> lcd_inv g
      \<and> (\<forall>n < NUM_LCDS. received n g = received n (lcd w) @ (if n < k then extra n else [])))" for k sw
  have "\<exists>sw. fold_opt (draw_digit a err digits) [0..<NUM_LCDS] (state, w) = Some sw \<and> P NUM_LCDS sw"
  proof (rule fold_opt_upt)
    have "w = w\<lparr>lcd := lcd w\<rparr>" "state = state\<lparr>current_lcd_digits := cur 0\<rparr>" by (simp_all add: cur_def)
    then show "P 0 (state, w)" using assms(2) unfolding P_def by fastforce
  next
    fix k sw
    assume k: "k < NUM_LCDS" and "P k sw"
    then obtain g where g: "sw = (state\<lparr>current_lcd_digits := cur k\<rparr>, w\<lparr>lcd := g\<rparr>)" "lcd_inv g"
      "\<forall>n < NUM_LCDS. received n g = received n (lcd w) @ (if n < k then extra n else [])"
      by (auto simp: P_def)
    let ?s = "state\<lparr>current_lcd_digits := cur k\<rparr>" and ?w = "w\<lparr>lcd := g\<rparr>"
    have len: "k < length digits" "k < length (current_lcd_digits state)" using k assms(4,5) by simp_all
    have nth: "cur k ! k = current_lcd_digits state ! k" using len by (simp add: cur_def nth_append)
    have upd: "(cur k)[k := digits ! k] = cur (Suc k)"
      using len by (simp add: cur_def list_update_append take_Suc_conv_app_nth Cons_nth_drop_Suc [symmetric])
    have e: "panel_bytes a ?s digits k = panel_bytes a state digits k"
      by (simp add: panel_bytes_def digit_changed_def nth)
    obtain g' where g': "draw_digit a err digits k sw
        = Some (?s\<lparr>current_lcd_digits := (current_lcd_digits ?s)[k := digits ! k]\<rparr>, ?w\<lparr>lcd := g'\<rparr>)" "lcd_inv g'"
        "delivers k (panel_bytes a ?s digits k
          @ (if k = 0 then status_icon_bytes a (watchdog_reset_error ?s) err WIFI_OK else [])) (lcd ?w) g'"
      using draw_digit_ok [of a ?w ?s k err digits] assms(1,3) g(1,2) k by auto
    have "delivers k (extra k) g g'" using g'(3) e by (cases "k = 0") (simp_all add: extra_def)
    then have "\<forall>n < NUM_LCDS. received n g' = received n (lcd w) @ (if n < Suc k then extra n else [])"
      using g(2,3) received_delivers by (auto simp: less_Suc_eq)
    then have "P (Suc k) (state\<lparr>current_lcd_digits := cur (Suc k)\<rparr>, w\<lparr>lcd := g'\<rparr>)"
      unfolding P_def using g'(2) by blast
    then show "\<exists>sw'. draw_digit a err digits k sw = Some sw' \<and> P (Suc k) sw'"
      using g'(1) by (simp add: upd)
  qed
  then show ?thesis unfolding P_def cur_def extra_def by fastforce
qed

text \<open>Local time as the configuration defines it: the zone's offset, and an hour under the DST rule.\<close>

definition local_time_of :: "flash_config_t \<Rightarrow> int \<Rightarrow> int" where
  "local_time_of c t = t + sint (tz_offset_mins c) * 60 + (if time_is_dst t c = Some True then 3600 else 0)"

lemma calculate_local_time_of: "0 \<le> t \<Longrightarrow> calculate_local_time t c = Some (local_time_of c t)"
  using time_is_dst_total [of t c] calculate_local_time_eq [of t c] by (auto simp: local_time_of_def)

definition watchdog_after :: "clock_state_t \<Rightarrow> int \<Rightarrow> watchdog_error_t" where
  "watchdog_after state l = (if l > last_watchdog_error_time state + WATCHDOG_ICON_INTERVAL then WATCHDOG_OK
     else watchdog_reset_error state)"

lemma panel_bytes_watchdog [simp]:
  "digit_changed (state\<lparr>watchdog_reset_error := e\<rparr>) = digit_changed state"
  "panel_bytes a (state\<lparr>watchdog_reset_error := e\<rparr>) = panel_bytes a state"
  by (intro ext, simp add: panel_bytes_def digit_changed_def)+

lemma update_display_ok:
  assumes "wf_assets a" "clock_inv (state, w)" "0 \<le> utc_now"
  defines "l \<equiv> local_time_of (flash_config state) utc_now"
  defines "digits \<equiv> shown_digits l @ [NUL]"
  shows "\<exists>g'. update_display a err utc_now (state, w) = Some (state\<lparr>watchdog_reset_error := watchdog_after state l,
        current_lcd_digits := shown_digits l @ drop NUM_LCDS (current_lcd_digits state)\<rparr>, w\<lparr>lcd := g'\<rparr>)
    \<and> lcd_inv g' \<and> (\<forall>n < NUM_LCDS. received n g' = received n (lcd w) @ panel_bytes a state digits n
        @ (if n = 0 \<and> (\<exists>k < NUM_LCDS. digit_changed state digits k)
           then status_icon_bytes a (watchdog_after state l) err WIFI_OK else []))"
proof -
  let ?s = "state\<lparr>watchdog_reset_error := watchdog_after state l\<rparr>"
  have inv: "lcd_inv (lcd w)" "panels_ok (lcd_states ?s)" "length (current_lcd_digits ?s) = NUM_LCDS + 1"
    using assms(2) by (auto simp: clock_inv_def)
  have len: "length digits = NUM_LCDS + 1" "take NUM_LCDS digits = shown_digits l"
    by (simp_all add: digits_def shown_digits_length)
  have s: "(if l > last_watchdog_error_time state + WATCHDOG_ICON_INTERVAL
      then state\<lparr>watchdog_reset_error := WATCHDOG_OK\<rparr> else state) = ?s"
    by (simp add: watchdog_after_def)
  have u: "update_display a err utc_now (state, w) = (if list_ex (digit_changed ?s digits) [0..<NUM_LCDS]
      then fold_opt (draw_digit a err digits) [0..<NUM_LCDS] (?s, w) else Some (?s, w))"
    using calculate_local_time_of [OF assms(3)] lcd_digits_of_gmtime [of l]
    by (simp add: update_display_def Let_def s l_def [symmetric] digits_def del: list_ex_iff)
  show ?thesis
  proof (cases "\<exists>k < NUM_LCDS. digit_changed state digits k")
    case True
    then have "list_ex (digit_changed ?s digits) [0..<NUM_LCDS]" by (auto simp: list_ex_iff)
    with u have "update_display a err utc_now (state, w) = fold_opt (draw_digit a err digits) [0..<NUM_LCDS] (?s, w)" by simp
    then show ?thesis
      using draw_digits_ok [OF assms(1) inv(1-3) len(1), of err] True len(2) by auto
  next
    case False
    then have "\<not> list_ex (digit_changed ?s digits) [0..<NUM_LCDS]" by (auto simp: list_ex_iff)
    with u have r: "update_display a err utc_now (state, w) = Some (?s, w)" by simp
    have "take NUM_LCDS (current_lcd_digits state) = take NUM_LCDS digits"
      using False inv(3) len(1) by (intro nth_equalityI) (auto simp: digit_changed_def)
    then have "shown_digits l @ drop NUM_LCDS (current_lcd_digits state) = current_lcd_digits state"
      using len(2) append_take_drop_id by metis
    then show ?thesis using r False inv(1) by (auto simp: panel_bytes_def intro!: exI [of _ "lcd w"])
  qed
qed

lemma update_display_inv:
  assumes "wf_assets a" "clock_inv sw" "0 \<le> utc_now"
  shows "\<exists>sw'. update_display a err utc_now sw = Some sw' \<and> clock_inv sw'"
proof -
  obtain state w where sw: "sw = (state, w)" by (cases sw)
  show ?thesis
    using update_display_ok [OF assms(1), of state w utc_now err] assms(2,3)
    by (auto simp: sw clock_inv_def flash_ok_def shown_digits_length)
qed

text \<open>One call of the task, whatever its environment.\<close>

lemma clock_task_ok:
  assumes "wf_assets a" "clock_inv sw"
  shows "outcome_ok h clock_inv (clock_task a re sw)"
proof -
  obtain state w where p: "process_ntp_time sw = (state, w)" by (cases "process_ntp_time sw")
  have inv: "clock_inv (state, w)" using process_ntp_time_ok [OF assms(2)] p by simp
  then have "clock_inv (state\<lparr>clock_tick_updated := False\<rparr>, w)" by (simp add: clock_inv_def)
  then obtain sw' where u: "clock_inv sw'" "update_display a (as_error (snd (ntp_atomic_status (ntp_state (fst sw))
      NTP_NULL_STATUS NTP_NULL_ERROR 0))) (tod w) (state\<lparr>clock_tick_updated := False\<rparr>, w) = Some sw'"
    using update_display_inv [OF assms(1) _ clock_inv_parts(3) [OF inv]] by blast
  have fin: "outcome_ok h clock_inv ((\<lambda>(state, w). Done (state\<lparr>first_clock_tick := False\<rparr>, w)) sw)"
    if "clock_inv sw" for sw using that by (cases sw) (simp add: clock_inv_def)
  show ?thesis
    unfolding clock_task_def Let_def
    by (simp add: p u(2) inv, intro impI outcome_ok_and_then [where P = clock_inv] handle_ntp_status_ok [OF assms(1) u(1)]
        request_if_due_ok [OF assms(1)] fin)
qed

section \<open>Start-up\<close>

text \<open>Configuration mode in this boot never gets a form that ends it.\<close>

definition config_mode_waits :: "boot_env \<Rightarrow> bool" where
  "config_mode_waits e \<longleftrightarrow> (\<exists>cfg wifi_init. start_wifi_access_point (be_ap_env e) (be_template e) (be_ap_events e) cfg
     ((be_ap_start e)\<lparr>ap_wifi_initialized := wifi_init\<rparr>) = None)"

definition boot_env_ok :: "boot_env \<Rightarrow> bool" where
  "boot_env_ok e \<longleftrightarrow> ap_start_ok None (be_ap_start e) \<and> (\<forall>k. \<forall>ev \<in> set (be_ap_events e k). ap_event_ok ev)
     \<and> (ap_dns_bind (be_ap_env e) = ERR_OK \<or> ap_ndebug (be_ap_env e))"

lemma store_all_flash:
  "flash (store_all cs w) = (if cs = [] then flash w else (last cs)\<lparr>magic_marker := CONFIG_MAGIC\<rparr>)"
  by (induction cs arbitrary: w) (auto simp: store_all_def)

lemma valid_config_magic [simp]: "valid_config (c\<lparr>magic_marker := m\<rparr>) = valid_config c"
  by (simp add: valid_config_def wf_flash_config_def)

lemma run_access_point_ok:
  assumes "boot_env_ok e" "flash_ok w" "\<And>c. cfg = Some c \<Longrightarrow> valid_config c"
  shows "outcome_ok (config_mode_waits e) P (run_access_point e cfg wifi_init w)"
proof -
  let ?s = "(be_ap_start e)\<lparr>ap_wifi_initialized := wifi_init\<rparr>"
  let ?r = "start_wifi_access_point (be_ap_env e) (be_template e) (be_ap_events e) cfg ?s"
  have s: "ap_start_ok cfg ?s" using assms(1,3) by (simp add: boot_env_ok_def ap_start_ok_def)
  show ?thesis
  proof (cases ?r)
    case None
    then show ?thesis by (auto simp: run_access_point_def config_mode_waits_def)
  next
    case (Some r)
    obtain s' err where r: "r = Some (s', err)"
        "stored (ap_tcp s') = [] \<or> (\<forall>c \<in> set (stored (ap_tcp s')). valid_config c)"
      using access_point_result [OF s _ _ Some] assms(1) unfolding boot_env_ok_def by blast
    then have "flash_ok (store_all (stored (ap_tcp s')) w)"
      using assms(2) by (auto simp: flash_ok_def store_all_flash)
    then show ?thesis using Some r(1) by (simp add: run_access_point_def system_reboot_def)
  qed
qed

lemma init_lcds_ok:
  assumes "lcd_inv (lcd w)"
  shows "\<exists>ls g. init_lcds a clock_state_zero w = Some (clock_state_zero\<lparr>lcd_states := ls\<rparr>, w\<lparr>lcd := g\<rparr>)
    \<and> panels_ok ls \<and> lcd_inv g"
proof -
  define P where "P k sw \<longleftrightarrow> (\<exists>ls g. sw = (clock_state_zero\<lparr>lcd_states := ls\<rparr>, w\<lparr>lcd := g\<rparr>) \<and> length ls = NUM_LCDS
      \<and> (\<forall>n < k. panel_pins n (ls ! n)) \<and> lcd_inv g)" for k sw
  have "\<exists>sw. init_lcds a clock_state_zero w = Some sw \<and> P NUM_LCDS sw"
    unfolding init_lcds_def
  proof (rule fold_opt_upt)
    have "clock_state_zero = clock_state_zero\<lparr>lcd_states := replicate NUM_LCDS lcd_state_zero\<rparr>" "w = w\<lparr>lcd := lcd w\<rparr>"
      by (simp_all add: clock_state_zero_def)
    then show "P 0 (clock_state_zero, w)" using assms unfolding P_def by fastforce
  next
    fix k sw
    assume k: "k < NUM_LCDS" and "P k sw"
    then obtain ls g where sw: "sw = (clock_state_zero\<lparr>lcd_states := ls\<rparr>, w\<lparr>lcd := g\<rparr>)" "length ls = NUM_LCDS"
      "\<forall>n < k. panel_pins n (ls ! n)" "lcd_inv g"
      by (auto simp: P_def)
    have u: "unat (of_nat k :: u16) = k" using k by (simp add: unat_of_nat NUM_LCDS_def)
    then have "\<exists>b. draws k b g (map_option snd (lcd_init (pwm_gpio_to_slice_num a) (ls ! k) (of_nat k) (k = 0) g))"
      using lcd_init_draws [of "of_nat k" g] k lcd_inv_linebuf [OF sw(4)] by simp
    then obtain l g1 where 1: "lcd_init (pwm_gpio_to_slice_num a) (ls ! k) (of_nat k) (k = 0) g = Some (l, g1)" "lcd_inv g1"
      using draws_inv [OF _ sw(4)] by fastforce
    have l: "panel_pins k l"
      using 1(1) init_pins_ok [of "of_nat k" "ls ! k"] u k
      by (auto simp: lcd_init_def Let_def bind_eq_Some_conv init_pins_def)
    obtain g2 where 2: "lcd_clear_screen l BLACK g1 = Some g2" "lcd_inv g2"
      using draws_inv [OF lcd_clear_screen_draws [OF l lcd_inv_linebuf [OF 1(2)]] 1(2)] by blast
    have "P (Suc k) (clock_state_zero\<lparr>lcd_states := ls[k := l]\<rparr>, w\<lparr>lcd := g2\<rparr>)"
      unfolding P_def using sw(2,3) 2(2) l k
      by (intro exI [of _ "ls[k := l]"] exI [of _ g2]) (auto simp: less_Suc_eq nth_list_update)
    then show "\<exists>sw'. (\<lambda>(state, w). do {
        (l, g) \<leftarrow> lcd_init (pwm_gpio_to_slice_num a) (lcd_states state ! k) (of_nat k) (k = 0) (lcd w);
        g \<leftarrow> lcd_clear_screen l BLACK g;
        Some (state\<lparr>lcd_states := (lcd_states state)[k := l]\<rparr>, w\<lparr>lcd := g\<rparr>) }) sw = Some sw' \<and> P (Suc k) sw'"
      using 1(1) 2(1) sw(1) by simp
  qed
  then show ?thesis unfolding P_def panels_ok_def by blast
qed

text \<open>
  The start-up invariant: everything of \<open>clock_inv\<close> that holds before the configuration and the
  interval are set.
\<close>

definition boot_inv :: "clock_state_t \<times> clock_world \<Rightarrow> bool" where
  "boot_inv = (\<lambda>(state, w). lcd_inv (lcd w) \<and> flash_ok w \<and> 0 \<le> tod w \<and> panels_ok (lcd_states state)
     \<and> length (current_lcd_digits state) = NUM_LCDS + 1 \<and> ntp_consistent (ntp_state state) \<and> ntp_time state = 0
     \<and> last_watchdog_error_time state = 0)"

lemma flash_ok_invalidated: "flash_ok (w\<lparr>flash := c\<lparr>magic_marker := 0xffffffff\<rparr>\<rparr>)"
  by (simp add: flash_ok_def CONFIG_MAGIC_value)

lemma boot_case_ok:
  assumes "wf_assets a" "boot_inv (state, w)"
  shows "outcome_ok h boot_inv (boot_case a e state w)"
proof -
  have inv: "lcd_inv (lcd w)" "panel_pins 0 (lcd_states state ! 0)"
    using assms(2) panels_ok_0 by (auto simp: boot_inv_def)
  obtain g1 where g1: "lcd_print_line (text_font a) (lcd_states state ! 0) GREEN LCD_MSG_INIT_OK (lcd w) = Some g1" "lcd_inv g1"
    using print_line_ok [OF assms(1) inv] by blast
  obtain g2 where g2: "lcd_update_icons (icon_bits a) (lcd_states state ! 0)
      (boot_watchdog_error ((persistent w)\<lparr>ps_boot_count := ps_boot_count (persistent w) + 1\<rparr>))
      (ps_ntp_error (persistent w)) (ps_wifi_error (persistent w)) (lcd w) = Some g2" "lcd_inv g2"
    using update_icons_ok [OF assms(1) inv] by blast
  show ?thesis
    using assms(2) g1 g2 flash_ok_invalidated [of flash_config_zero w]
    by (simp add: boot_case_def config_store_handler_def system_reboot_def Let_def boot_inv_def flash_ok_def)
qed

lemma clock_init_ok:
  assumes "wf_assets a" "boot_env_ok e" "lcd_inv (lcd w)" "flash_ok w" "0 \<le> tod w"
  shows "outcome_ok (config_mode_waits e) clock_inv (clock_init a e w)"
proof -
  obtain ls g where i: "init_lcds a clock_state_zero w = Some (clock_state_zero\<lparr>lcd_states := ls\<rparr>, w\<lparr>lcd := g\<rparr>)"
    "panels_ok ls" "lcd_inv g"
    using init_lcds_ok [OF assms(3)] by blast
  have "boot_inv (clock_state_zero\<lparr>lcd_states := ls, cold_boot := \<not> be_watchdog_caused_reboot e\<rparr>, w\<lparr>lcd := g\<rparr>)"
    using assms(4,5) i(2,3)
    by (simp add: boot_inv_def flash_ok_def clock_state_zero_def ntp_state_zero_def ntp_consistent_def)
  note b = boot_case_ok [OF assms(1) this]
  have fin: "outcome_ok (config_mode_waits e) clock_inv ((\<lambda>(state, w). if magic_marker (flash w) = CONFIG_MAGIC then
           Done (state\<lparr>flash_config := flash w, ntp_last_sync := ntp_time state,
             ntp_interval := NTP_SYNC_INTERVAL_SEC, first_clock_tick := True\<rparr>, w)
         else or_fault (lcd_print_line (text_font a) (lcd_states state ! 0) RED LCD_MSG_FLASH_ERROR (lcd w)) (\<lambda>g.
             or_fault (lcd_print_line (text_font a) (lcd_states state ! 0) RED LCD_MSG_WIFI_ERROR g) (\<lambda>g.
               run_access_point e None (wifi_initialized state) (w\<lparr>lcd := g\<rparr>)))) sw)"
    if inv: "boot_inv sw" for sw
  proof -
    obtain state w where sw: "sw = (state, w)" by (cases sw)
    have p: "panel_pins 0 (lcd_states state ! 0)" "lcd_inv (lcd w)" "flash_ok w"
      using inv panels_ok_0 by (auto simp: sw boot_inv_def)
    obtain g1 where g1: "lcd_print_line (text_font a) (lcd_states state ! 0) RED LCD_MSG_FLASH_ERROR (lcd w) = Some g1" "lcd_inv g1"
      using print_line_ok [OF assms(1) p(2,1)] by blast
    obtain g2 where g2: "lcd_print_line (text_font a) (lcd_states state ! 0) RED LCD_MSG_WIFI_ERROR g1 = Some g2"
      using print_line_ok [OF assms(1) g1(2) p(1)] by blast
    have "flash_ok (w\<lparr>lcd := g2\<rparr>)" using p(3) by (simp add: flash_ok_def)
    then have "outcome_ok (config_mode_waits e) clock_inv
        (run_access_point e None (wifi_initialized state) (w\<lparr>lcd := g2\<rparr>))"
      by (rule run_access_point_ok [OF assms(2)]) simp
    moreover have "\<exists>k. NTP_SYNC_INTERVAL_SEC = NTP_SYNC_INTERVAL_SEC * 2 ^ k" by (rule exI [of _ 0]) simp
    ultimately show ?thesis
      using inv g1(1) g2 by (auto simp: sw clock_inv_def boot_inv_def flash_ok_def)
  qed
  show ?thesis
    unfolding clock_init_def i(1) or_fault_simps case_prod_conv
    by (rule outcome_ok_and_then [where P = boot_inv])
      (use b fin in \<open>simp_all add: case_prod_unfold\<close>)
qed

lemma connect_to_wifi_returns:
  "timeouts_take_time ret elapsed \<Longrightarrow> \<exists>e b n. connect_to_wifi init_answer ret elapsed wifi_init = Some (e, b, n)"
  using connect_loop_ends [of ret elapsed 3 0 2] by (fastforce simp: connect_to_wifi_def count_ret_def)

lemma start_icons_ok:
  assumes "wf_assets a" "clock_inv (state, w)"
  shows "outcome_ok h clock_inv (start_icons a err state w)"
proof -
  note p = clock_inv_parts(1) [OF assms(2)] panels_ok_0 [OF clock_inv_parts(2) [OF assms(2)]]
  obtain g1 where g1: "(if cold_boot state then lcd_print_line (text_font a) (lcd_states state ! 0) GREEN LCD_MSG_WIFI_OK (lcd w)
      else Some (lcd w)) = Some g1" "lcd_inv g1"
    using print_line_ok [OF assms(1) p] p(1) by (cases "cold_boot state") auto
  obtain g2 where g2: "lcd_update_icons (icon_bits a) (lcd_states state ! 0) (watchdog_reset_error state) NTP_OK WIFI_OK g1
      = Some g2" "lcd_inv g2"
    using update_icons_ok [OF assms(1) g1(2) p(2)] by blast
  have "clock_inv (state, w\<lparr>lcd := g2\<rparr>)" using assms(2) g2(2) by (simp add: clock_inv_def flash_ok_def)
  then show ?thesis
    using g2(1) by (simp add: start_icons_def g1(1) fatal_reset_ok [OF assms])
qed

lemma clock_start_ok:
  assumes "wf_assets a" "clock_inv (state, w)" "timeouts_take_time (se_connect e) (se_elapsed_us e)"
  shows "outcome_ok h clock_inv (clock_start a e state w)"
proof -
  obtain err b n where c: "connect_to_wifi (se_arch_init e) (se_connect e) (se_elapsed_us e) (wifi_initialized state)
      = Some (err, b, n)"
    using connect_to_wifi_returns [OF assms(3)] by blast
  have "clock_inv (state\<lparr>wifi_initialized := b\<rparr>, w)" using assms(2) by (simp add: clock_inv_def)
  note icons = start_icons_ok [OF assms(1) this, of h err]
  have init: "clock_inv (s\<lparr>ntp_state := snd (ntp_init x y)\<rparr>, w)"
    "clock_inv (s\<lparr>ntp_state := (snd (ntp_init x y))\<lparr>ns_port := p\<rparr>\<rparr>, w)" if "clock_inv (s, w)" for s w x y p
    using that ntp_consistent_init [of x y] by (auto simp: clock_inv_def ntp_consistent_def)
  show ?thesis
    unfolding clock_start_def c option.case prod.case
    apply (rule outcome_ok_and_then [OF icons])
    apply (clarsimp simp: Let_def case_prod_unfold fatal_reset_ok [OF assms(1) init(1)])
    apply (rule outcome_ok_and_then [OF clock_request_ok [OF assms(1) init(2)]])
     apply (simp_all add: fatal_reset_ok [OF assms(1)])
    done
qed

section \<open>What a call of the task leaves\<close>

text \<open>The last two parts of the task never touch the display, the time or the configuration.\<close>

definition same_display :: "clock_state_t \<times> clock_world \<Rightarrow> clock_state_t \<times> clock_world \<Rightarrow> bool" where
  "same_display = (\<lambda>(s, w) (s', w'). lcd w' = lcd w \<and> tod w' = tod w \<and> flash w' = flash w
     \<and> current_lcd_digits s' = current_lcd_digits s \<and> flash_config s' = flash_config s
     \<and> lcd_states s' = lcd_states s \<and> watchdog_reset_error s' = watchdog_reset_error s
     \<and> first_clock_tick s' = first_clock_tick s \<and> ap_mode_triggered s' = ap_mode_triggered s
     \<and> ntp_time s' = ntp_time s \<and> ntp_time_updated s' = ntp_time_updated s)"

lemma fatal_reset_not_Done [simp]: "fatal_reset a state ne fe w \<noteq> Done x"
  by (cases "lcd_update_icons (icon_bits a) (lcd_states state ! 0) WATCHDOG_RESET ne fe (lcd w)")
    (simp_all add: fatal_reset_def)

lemma clock_request_same: "clock_request a re sw = Done sw' \<Longrightarrow> same_display sw sw'"
  by (auto simp: clock_request_def same_display_def Let_def split: prod.split_asm if_split_asm)

lemma handle_ntp_status_same: "handle_ntp_status a now snap sw = Done sw' \<Longrightarrow> same_display sw sw'"
  by (auto simp: handle_ntp_status_def same_display_def split: prod.split_asm if_split_asm)

lemma request_if_due_same: "request_if_due a re snap utc_now sw = Done sw' \<Longrightarrow> same_display sw sw'"
  using clock_request_same
  by (fastforce simp: request_if_due_def same_display_def split: prod.split_asm if_split_asm)

lemma and_then_Done: "and_then r f = Done y \<longleftrightarrow> (\<exists>x. r = Done x \<and> f x = Done y)"
  by (cases r) simp_all

text \<open>The time the task works with: that of a new NTP reply, if there is one.\<close>

definition task_time :: "clock_state_t \<times> clock_world \<Rightarrow> int" where
  "task_time = (\<lambda>(state, w). if ntp_time_updated state then ntp_time state else tod w)"

lemma process_ntp_time_fields:
  "process_ntp_time (state, w) = (s, v) \<Longrightarrow> v = w\<lparr>tod := task_time (state, w)\<rparr>
    \<and> s = state\<lparr>ntp_time_updated := False,
        ntp_last_sync := (if ntp_time_updated state then ntp_time state else ntp_last_sync state)\<rparr>"
  by (auto simp: process_ntp_time_def set_time_of_day_def get_atomic_time_def task_time_def Let_def
      split: if_split_asm)

lemma clock_task_no_tick:
  "\<not> clock_tick_updated state \<Longrightarrow> clock_task a re (state, w) = Done (process_ntp_time (state, w))"
  by (cases "process_ntp_time (state, w)") (auto simp: clock_task_def Let_def dest!: process_ntp_time_fields)

lemma clock_task_done:
  assumes "wf_assets a" "clock_inv (state, w)" "clock_tick_updated state" "clock_task a re (state, w) = Done (s', w')"
  defines "t \<equiv> task_time (state, w)"
  defines "l \<equiv> local_time_of (flash_config state) t"
  shows "tod w' = t \<and> flash_config s' = flash_config state \<and> lcd_states s' = lcd_states state
    \<and> current_lcd_digits s' = shown_digits l @ drop NUM_LCDS (current_lcd_digits state)
    \<and> watchdog_reset_error s' = watchdog_after state l \<and> \<not> first_clock_tick s'
    \<and> ap_mode_triggered s' = ap_mode_triggered state \<and> \<not> ntp_time_updated s' \<and> ntp_time s' = ntp_time state
    \<and> (\<forall>n < NUM_LCDS. received n (lcd w') = received n (lcd w) @ panel_bytes a state (shown_digits l @ [NUL]) n
        @ (if n = 0 \<and> (\<exists>k < NUM_LCDS. digit_changed state (shown_digits l @ [NUL]) k)
           then status_icon_bytes a (watchdog_after state l) (ntp_error (ntp_state state)) WIFI_OK else []))"
proof -
  obtain s0 w0 where p: "process_ntp_time (state, w) = (s0, w0)" by (cases "process_ntp_time (state, w)")
  let ?s = "s0\<lparr>clock_tick_updated := False\<rparr>"
  let ?snap = "snd (ntp_atomic_status (ntp_state state) NTP_NULL_STATUS NTP_NULL_ERROR 0)"
  have inv: "clock_inv (?s, w0)" using process_ntp_time_ok [OF assms(2)] p by (simp add: clock_inv_def)
  note f = process_ntp_time_fields [OF p]
  have l: "local_time_of (flash_config ?s) (tod w0) = l" by (simp add: f l_def t_def)
  have c: "digit_changed ?s d = digit_changed state d" "panel_bytes a ?s d = panel_bytes a state d"
    "watchdog_after ?s x = watchdog_after state x" for d x
    by (auto simp: f digit_changed_def panel_bytes_def watchdog_after_def intro!: ext)
  obtain g where u: "update_display a (ntp_error (ntp_state state)) (tod w0) (?s, w0) = Some (?s\<lparr>watchdog_reset_error := watchdog_after state l,
        current_lcd_digits := shown_digits l @ drop NUM_LCDS (current_lcd_digits state)\<rparr>, w0\<lparr>lcd := g\<rparr>)"
    and r: "\<forall>n < NUM_LCDS. received n g = received n (lcd w) @ panel_bytes a state (shown_digits l @ [NUL]) n
        @ (if n = 0 \<and> (\<exists>k < NUM_LCDS. digit_changed state (shown_digits l @ [NUL]) k)
           then status_icon_bytes a (watchdog_after state l) (ntp_error (ntp_state state)) WIFI_OK else [])"
    using update_display_ok [OF assms(1) inv clock_inv_parts(3) [OF inv], of "ntp_error (ntp_state state)"] unfolding l c by (auto simp: f)
  obtain x y where xy: "handle_ntp_status a (re_now_ms re) ?snap (?s\<lparr>watchdog_reset_error := watchdog_after state l,
        current_lcd_digits := shown_digits l @ drop NUM_LCDS (current_lcd_digits state)\<rparr>, w0\<lparr>lcd := g\<rparr>) = Done x"
      "request_if_due a re ?snap (tod w0) x = Done y" "s' = (fst y)\<lparr>first_clock_tick := False\<rparr>" "w' = snd y"
    using assms(3,4) u
    by (fastforce simp: clock_task_def p f Let_def and_then_Done ntp_atomic_status_read split: prod.split_asm)
  have "same_display (?s\<lparr>watchdog_reset_error := watchdog_after state l,
        current_lcd_digits := shown_digits l @ drop NUM_LCDS (current_lcd_digits state)\<rparr>, w0\<lparr>lcd := g\<rparr>) y"
    using handle_ntp_status_same [OF xy(1)] request_if_due_same [OF xy(2)]
    by (simp add: same_display_def case_prod_unfold)
  then show ?thesis
    using r xy(3,4) by (simp add: same_display_def case_prod_unfold f t_def)
qed

text \<open>
  No code writes \<open>last_watchdog_error_time\<close>: it stays 0, and the first tick with a real time of day
  clears the watchdog's error, however short it has been shown.
\<close>

lemma watchdog_error_cleared:
  assumes "wf_assets a" "clock_inv (state, w)" "clock_tick_updated state" "clock_task a re (state, w) = Done (s', w')"
    and "86400 < local_time_of (flash_config state) (task_time (state, w))"
  shows "watchdog_reset_error s' = WATCHDOG_OK"
  using clock_task_done [OF assms(1-4)] assms(2,5)
  by (simp add: watchdog_after_def clock_inv_def WATCHDOG_ICON_INTERVAL_def)

section \<open>The NTP client's status in the task\<close>

definition request_of :: "request_env \<Rightarrow> clock_state_t \<Rightarrow> ntp_error_t \<times> ntp_state_t \<times> udp_datagram list" where
  "request_of re state = ntp_request_async (re_now_ms re) (re_gethostbyname re) (re_pbuf_alloc re)
     (re_udp_sendto re) (c_str (ntp_server (flash_config state))) (ntp_state state)"

text \<open>A new synchronisation is due: the client is idle and the interval has passed since the last one.\<close>

definition sync_due :: "clock_state_t \<times> clock_world \<Rightarrow> bool" where
  "sync_due = (\<lambda>(state, w). ntp_status (ntp_state state) = NTP_IDLE
     \<and> task_time (state, w) - (if ntp_time_updated state then ntp_time state else ntp_last_sync state)
         \<ge> uint (ntp_interval state))"

text \<open>Why the task resets the device, if it does.\<close>

definition reset_reason :: "request_env \<Rightarrow> clock_state_t \<times> clock_world \<Rightarrow> ntp_error_t option" where
  "reset_reason re = (\<lambda>(state, w).
     if ntp_status (ntp_state state) = NTP_PENDING then
       (if unat (re_now_ms re - request_start_ms (ntp_state state)) > unat (ntp_timeout (flash_config state))
        then Some NTP_TIMEOUT_ERROR else None)
     else if ntp_status (ntp_state state) = NTP_FAILED then Some (ntp_error (ntp_state state))
     else if sync_due (state, w) \<and> fst (request_of re state) \<noteq> NTP_OK then Some (fst (request_of re state))
     else None)"

text \<open>The state after a task that returns, as far as synchronisation is concerned.\<close>

definition sync_after :: "request_env \<Rightarrow> clock_state_t \<times> clock_world \<Rightarrow> ntp_state_t \<times> u32 \<times> int \<times> udp_datagram list" where
  "sync_after re = (\<lambda>(state, w).
     let last = (if ntp_time_updated state then ntp_time state else ntp_last_sync state); s = ntp_state state
     in if sync_due (state, w) then
          (fst (snd (request_of re state)), ntp_interval state, task_time (state, w), net_sent w @ snd (snd (request_of re state)))
        else if ntp_status s = NTP_KOD then (s\<lparr>ntp_status := NTP_IDLE\<rparr>, 2 * ntp_interval state, last, net_sent w)
        else if ntp_status s = NTP_SUCCESS then (s\<lparr>ntp_status := NTP_IDLE\<rparr>, ntp_interval state, last, net_sent w)
        else (s, ntp_interval state, last, net_sent w))"

lemma task_display_part:
  assumes "wf_assets a" "clock_inv (state, w)"
  obtains s1 w1 where "update_display a (ntp_error (ntp_state state)) (tod (snd (process_ntp_time (state, w))))
      ((fst (process_ntp_time (state, w)))\<lparr>clock_tick_updated := False\<rparr>, snd (process_ntp_time (state, w))) = Some (s1, w1)"
    "clock_inv (s1, w1)" "ntp_state s1 = ntp_state state" "ntp_interval s1 = ntp_interval state"
    "ntp_last_sync s1 = (if ntp_time_updated state then ntp_time state else ntp_last_sync state)"
    "flash_config s1 = flash_config state" "tod w1 = task_time (state, w)" "persistent w1 = persistent w"
    "net_sent w1 = net_sent w" "ap_mode_triggered s1 = ap_mode_triggered state" "flash w1 = flash w"
proof -
  obtain s0 w0 where p: "process_ntp_time (state, w) = (s0, w0)" by (cases "process_ntp_time (state, w)")
  note f = process_ntp_time_fields [OF p]
  let ?s = "s0\<lparr>clock_tick_updated := False\<rparr>"
  have inv: "clock_inv (?s, w0)" using process_ntp_time_ok [OF assms(2)] p by (simp add: clock_inv_def)
  obtain s1 w1 where u: "update_display a (ntp_error (ntp_state state)) (tod w0) (?s, w0) = Some (s1, w1)" "clock_inv (s1, w1)"
    using update_display_inv [OF assms(1) inv clock_inv_parts(3) [OF inv]] by fastforce
  obtain g d e where "s1 = ?s\<lparr>watchdog_reset_error := e, current_lcd_digits := d\<rparr>" "w1 = w0\<lparr>lcd := g\<rparr>"
    using update_display_ok [OF assms(1) inv clock_inv_parts(3) [OF inv], of "ntp_error (ntp_state state)"] u(1) by auto
  then show thesis using that [of s1 w1] u p f by simp
qed

lemma fatal_reset_persistent:
  assumes "wf_assets a" "clock_inv (state, w)"
  shows "\<exists>w'. (fatal_reset a state ne fe w :: 'a outcome) = Reboot w' \<and> flash w' = flash w
    \<and> persistent w' = (persistent w)\<lparr>ps_ntp_error := ne, ps_wifi_error := fe\<rparr>"
proof -
  obtain g where "(fatal_reset a state ne fe w :: 'a outcome) = Reboot (w\<lparr>lcd := g,
      persistent := (persistent w)\<lparr>ps_ntp_error := ne, ps_wifi_error := fe\<rparr>\<rparr>)"
    using fatal_reset_reboots [OF assms(1) clock_inv_parts(1,2) [OF assms(2)]] by blast
  then show ?thesis by simp
qed

lemma ntp_atomic_status_idle: "fst (ntp_atomic_status s NTP_IDLE NTP_NULL_ERROR 0) = s\<lparr>ntp_status := NTP_IDLE\<rparr>"
  by (simp add: ntp_atomic_status_def)

lemma clock_task_outcome_cases:
  assumes "wf_assets a" "clock_inv (state, w)" "clock_tick_updated state"
  shows "case reset_reason re (state, w) of
      Some e \<Rightarrow> \<exists>w'. clock_task a re (state, w) = Reboot w' \<and> flash w' = flash w
        \<and> persistent w' = (persistent w)\<lparr>ps_ntp_error := e, ps_wifi_error := WIFI_OK\<rparr>
    | None \<Rightarrow> \<exists>s' w'. clock_task a re (state, w) = Done (s', w')
        \<and> (ntp_state s', ntp_interval s', ntp_last_sync s', net_sent w') = sync_after re (state, w)"
proof -
  obtain s1 w1 where u: "update_display a (ntp_error (ntp_state state)) (tod (snd (process_ntp_time (state, w))))
      ((fst (process_ntp_time (state, w)))\<lparr>clock_tick_updated := False\<rparr>, snd (process_ntp_time (state, w))) = Some (s1, w1)"
    "clock_inv (s1, w1)" "ntp_state s1 = ntp_state state" "ntp_interval s1 = ntp_interval state"
    "ntp_last_sync s1 = (if ntp_time_updated state then ntp_time state else ntp_last_sync state)"
    "flash_config s1 = flash_config state" "tod w1 = task_time (state, w)" "persistent w1 = persistent w"
    "net_sent w1 = net_sent w" "ap_mode_triggered s1 = ap_mode_triggered state" "flash w1 = flash w"
    by (rule task_display_part [OF assms(1,2)])
  let ?snap = "\<lparr>as_error = ntp_error (ntp_state state), as_status = ntp_status (ntp_state state),
      as_request_start_ms = request_start_ms (ntp_state state)\<rparr>"
  define finish where "finish sw = and_then (request_if_due a re ?snap (task_time (state, w)) sw)
      (\<lambda>(state, w). Done (state\<lparr>first_clock_tick := False\<rparr>, w))" for sw
  obtain s0 w0 where p: "process_ntp_time (state, w) = (s0, w0)" by (cases "process_ntp_time (state, w)")
  have tick: "clock_tick_updated s0" "tod w0 = task_time (state, w)"
    using process_ntp_time_fields [OF p] assms(3) by simp_all
  have t: "clock_task a re (state, w) = and_then (handle_ntp_status a (re_now_ms re) ?snap (s1, w1)) finish"
    using u(1) tick by (simp add: clock_task_def Let_def p ntp_atomic_status_read finish_def [abs_def])
  note reset = fatal_reset_persistent [OF assms(1)]
  show ?thesis
  proof (cases "ntp_status (ntp_state state) = NTP_IDLE")
    case True
    then have h: "clock_task a re (state, w) = finish (s1, w1)" by (simp add: t handle_ntp_status_def)
    show ?thesis
    proof (cases "sync_due (state, w)")
      case due: True
      obtain e ntp sent where r: "request_of re state = (e, ntp, sent)" by (cases "request_of re state") auto
      let ?s = "s1\<lparr>ntp_last_sync := task_time (state, w), ntp_state := ntp\<rparr>" and ?w = "w1\<lparr>net_sent := net_sent w1 @ sent\<rparr>"
      have "request_if_due a re ?snap (task_time (state, w)) (s1, w1) = clock_request a re (s1\<lparr>ntp_last_sync := task_time (state, w)\<rparr>, w1)"
        using due u(4,5,7) by (simp add: request_if_due_def sync_due_def)
      also have "\<dots> = (if e \<noteq> NTP_OK then fatal_reset a ?s e WIFI_OK ?w else Done (?s, ?w))"
        using r u(3,6) by (simp add: clock_request_def request_of_def Let_def)
      finally have d: "request_if_due a re ?snap (task_time (state, w)) (s1, w1) = \<dots>" .
      show ?thesis
      proof (cases "e = NTP_OK")
        case True
        then show ?thesis using h d r due u(4,7,9) \<open>ntp_status (ntp_state state) = NTP_IDLE\<close>
          by (simp add: finish_def reset_reason_def sync_after_def)
      next
        case False
        have "lcd_inv (lcd ?w)" "panels_ok (lcd_states ?s)" using u(2) by (auto simp: clock_inv_def)
        from fatal_reset_reboots [OF assms(1) this, of e WIFI_OK]
        obtain g where "fatal_reset a ?s e WIFI_OK ?w = (Reboot (?w\<lparr>lcd := g,
            persistent := (persistent ?w)\<lparr>ps_ntp_error := e, ps_wifi_error := WIFI_OK\<rparr>\<rparr>) :: (clock_state_t \<times> clock_world) outcome)"
          by blast
        then show ?thesis using h d r due u(8,11) False \<open>ntp_status (ntp_state state) = NTP_IDLE\<close>
          by (simp add: finish_def reset_reason_def)
      qed
    next
      case not_due: False
      then have "request_if_due a re ?snap (task_time (state, w)) (s1, w1) = Done (s1, w1)"
        using True u(4,5,7) by (simp add: request_if_due_def sync_due_def)
      then show ?thesis using h True not_due u(3-5,9) by (simp add: finish_def reset_reason_def sync_after_def Let_def)
    qed
  next
    case False
    then have fin: "finish (s, v) = Done (s\<lparr>first_clock_tick := False\<rparr>, v)" and not_due: "\<not> sync_due (state, w)" for s v
      by (simp_all add: finish_def request_if_due_def sync_due_def)
    have timeout: "re_now_ms re - request_start_ms (ntp_state state) > ntp_timeout (flash_config state)
        \<longleftrightarrow> unat (re_now_ms re - request_start_ms (ntp_state state)) > unat (ntp_timeout (flash_config state))"
      by (simp add: word_less_nat_alt)
    show ?thesis
    proof (cases "reset_reason re (state, w)")
      case None
      then show ?thesis
        using False not_due fin u(3-6,9) timeout
        by (auto simp: t handle_ntp_status_def reset_reason_def sync_after_def ntp_atomic_status_idle Let_def
            split: if_split_asm)
    next
      case (Some e)
      then have "handle_ntp_status a (re_now_ms re) ?snap (s1, w1) = fatal_reset a s1 e WIFI_OK w1"
        using False not_due u(6) timeout by (auto simp: handle_ntp_status_def reset_reason_def split: if_split_asm)
      then show ?thesis
        using fatal_reset_persistent [OF assms(1) u(2), of e WIFI_OK, where ?'a = "clock_state_t \<times> clock_world"] Some u(8,11)
        by (auto simp: t)
    qed
  qed
qed

section \<open>The button and the light sensor\<close>

lemma FACTORY_seconds: "FACTORY_RESET_HOLD_TIME_MS div 1000 = 3" "FACTORY_RESET_HOLD_TIME_MS div 100 = 30"
  by (simp_all add: FACTORY_RESET_HOLD_TIME_MS_def)

text \<open>Three consecutive ticks with the button pressed, somewhere in the run.\<close>

definition held_three :: "bool list \<Rightarrow> bool" where
  "held_three levels \<longleftrightarrow> sublist (replicate 3 False) levels"

definition timer_run :: "bool list \<Rightarrow> clock_state_t \<times> clock_world \<Rightarrow> clock_state_t \<times> clock_world" where
  "timer_run levels sw = foldl (\<lambda>(state, w) level. clock_timer_callback level state w) sw levels"

text \<open>The number of presses at the end of the run.\<close>

definition pressed_last :: "bool list \<Rightarrow> nat" where
  "pressed_last levels = length (takeWhile Not (rev levels))"

lemma prefix_pressed: "prefix (replicate n False) xs \<longleftrightarrow> n \<le> length (takeWhile Not xs)"
proof (induction n arbitrary: xs)
  case (Suc n)
  then show ?case by (cases xs) auto
qed simp

lemma held_three_snoc: "held_three (ls @ [l]) \<longleftrightarrow> held_three ls \<or> 3 \<le> pressed_last (ls @ [l])"
proof -
  have "suffix (replicate 3 False) xs \<longleftrightarrow> 3 \<le> pressed_last xs" for xs
    by (simp only: suffix_to_prefix rev_replicate prefix_pressed pressed_last_def)
  then show ?thesis unfolding held_three_def sublist_snoc by blast
qed

lemma pressed_last_snoc: "pressed_last (ls @ [l]) = (if l then 0 else pressed_last ls + 1)"
  by (simp add: pressed_last_def)

lemma timer_run_snoc: "timer_run (ls @ [l]) sw = (case timer_run ls sw of (state, w) \<Rightarrow> clock_timer_callback l state w)"
  by (simp add: timer_run_def split: prod.split)

lemma timer_run_counts:
  assumes "button_hold_seconds w = 0" "\<not> ap_mode_triggered state" "timer_run ls (state, w) = (s', w')"
  shows "unat (button_hold_seconds w') = pressed_last ls mod 3 \<and> (ap_mode_triggered s' \<longleftrightarrow> held_three ls)"
  using assms(3)
proof (induction ls arbitrary: s' w' rule: rev_induct)
  case Nil
  then show ?case using assms(1,2) by (auto simp: timer_run_def pressed_last_def held_three_def)
next
  case (snoc l ls)
  obtain s1 w1 where r: "timer_run ls (state, w) = (s1, w1)" by (cases "timer_run ls (state, w)")
  note IH = snoc.IH [OF r]
  have c: "clock_timer_callback l s1 w1 = (s', w')" using snoc.prems r by (simp add: timer_run_snoc)
  have h: "unat (button_hold_seconds w1) < 3" using IH by simp
  then have "unat (button_hold_seconds w1 + 1) = unat (button_hold_seconds w1) + 1"
    by (subst unat_add_lem [THEN iffD1]) simp_all
  moreover have "unat (button_hold_seconds w1) \<in> {0, 1, 2}" using h by auto
  ultimately have step: "unat (button_hold_seconds w') = (if l then 0 else (unat (button_hold_seconds w1) + 1) mod 3)"
    "ap_mode_triggered s' \<longleftrightarrow> ap_mode_triggered s1 \<or> \<not> l \<and> unat (button_hold_seconds w1) = 2"
    using c by (elim insertE emptyE; auto simp: clock_timer_callback_def Let_def FACTORY_seconds split: if_split_asm)+
  have "held_three ls" if "3 \<le> pressed_last ls"
    using that held_three_snoc [of "butlast ls" "last ls"] by (cases "ls = []") (simp_all add: pressed_last_def)
  then have "held_three (ls @ [l]) \<longleftrightarrow> held_three ls \<or> \<not> l \<and> pressed_last ls mod 3 = 2"
    by (cases "pressed_last ls < 3") (auto simp: held_three_snoc pressed_last_snoc)
  then show ?case using step IH by (auto simp: pressed_last_snoc mod_Suc_eq)
qed

lemma AMBIENT_values: "unat AMBIENT_LIGHT_DARK = 64" "unat AMBIENT_LIGHT_BRIGHT = 384"
  by (simp_all add: AMBIENT_LIGHT_DARK_def AMBIENT_LIGHT_BRIGHT_def)

text \<open>The filter in \<open>nat\<close>: on the sensor's values it never wraps.\<close>

lemma unat_smooth_adc:
  assumes "unat s \<le> 65535"
  shows "unat (smooth_adc s raw) = (if s = 0 then unat raw else (unat s * 7 + unat raw) div 8)"
    and "unat (smooth_adc s raw) \<le> 65535"
proof -
  have r: "unat raw \<le> 65535" "unat (ucast raw :: u32) = unat raw"
    using unsigned_less [of raw, where ?'a = nat] by (simp_all add: unsigned_ucast_eq take_bit_nat_eq_self)
  have "unat s * unat (7 :: u32) < 2 ^ LENGTH(32)" using assms by simp
  then have m: "unat (s * 7) = unat s * 7" by (subst unat_mult_lem [THEN iffD1]) simp_all
  then have "unat (s * 7 + ucast raw) = unat s * 7 + unat raw"
    using assms r by (subst unat_add_lem [THEN iffD1]) simp_all
  then show e: "unat (smooth_adc s raw) = (if s = 0 then unat raw else (unat s * 7 + unat raw) div 8)"
    by (simp add: smooth_adc_def r(2) unat_div)
  show "unat (smooth_adc s raw) \<le> 65535" unfolding e using assms r(1) by simp linarith
qed

lemma funpow_mono_nat:
  fixes f g :: "nat \<Rightarrow> nat"
  assumes "\<And>x y. x \<le> y \<Longrightarrow> f x \<le> g y" "x \<le> y"
  shows "(f ^^ n) x \<le> (g ^^ n) y"
  by (induction n) (use assms in auto)

text \<open>The distance to a constant reading \<open>r\<close>, from above and from below.\<close>

lemma smooth_from_above:
  fixes r s :: nat
  assumes "r \<le> s" "s \<le> 65535"
  shows "r \<le> (s * 7 + r) div 8 \<and> (s * 7 + r) div 8 - r = 7 * (s - r) div 8"
proof -
  have "s * 7 + r = 7 * (s - r) + r * 8" using assms by simp
  moreover have "(x + r * 8) div 8 = x div 8 + r" for x by simp
  ultimately have "(s * 7 + r) div 8 = 7 * (s - r) div 8 + r" by simp
  then show ?thesis by simp
qed

lemma smooth_from_below:
  fixes r s :: nat
  assumes "s \<le> r"
  shows "(s * 7 + r) div 8 \<le> r \<and> r - (s * 7 + r) div 8 = (7 * (r - s) + 7) div 8"
proof -
  have "8 * r = (s * 7 + r) + 7 * (r - s)" using assms by simp
  then show ?thesis by linarith
qed

lemma smooth_steps:
  assumes "unat s \<le> 4095" "unat raw \<le> 4095"
  defines "v n \<equiv> ((\<lambda>s. smooth_adc s raw) ^^ n) s"
  shows "(unat (v n) \<le> unat raw + ((\<lambda>d. 7 * d div 8) ^^ n) 4095)
    \<and> (unat raw \<le> unat (v n) + ((\<lambda>d. (7 * d + 7) div 8) ^^ n) 4095) \<and> unat (v n) \<le> 4095"
proof (induction n)
  case 0
  show ?case using assms(1,2) by (simp add: v_def)
next
  case (Suc n)
  let ?r = "unat raw" and ?s = "unat (v n)"
  let ?A = "((\<lambda>d. 7 * d div 8) ^^ n) 4095" and ?B = "((\<lambda>d. (7 * d + 7) div 8) ^^ n) (4095 :: nat)"
  have "v (Suc n) = smooth_adc (v n) raw" by (simp add: v_def)
  then have e: "unat (v (Suc n)) = (if v n = 0 then ?r else (?s * 7 + ?r) div 8)"
    using unat_smooth_adc(1) [of "v n" raw] Suc by simp
  show ?case
  proof (cases "v n = 0")
    case True
    then show ?thesis using assms(2) by (simp add: e)
  next
    case False
    have 1: "(?s * 7 + ?r) div 8 \<le> ?r + 7 * ?A div 8"
    proof (cases "?r \<le> ?s")
      case True
      have "7 * (?s - ?r) div 8 \<le> 7 * ?A div 8" using Suc by (intro div_le_mono) (simp add: le_diff_conv add.commute)
      then show ?thesis using smooth_from_above [OF True] Suc by simp
    next
      case False
      then show ?thesis using smooth_from_below [of ?s ?r] by simp
    qed
    have 2: "?r \<le> (?s * 7 + ?r) div 8 + (7 * ?B + 7) div 8"
    proof (cases "?r \<le> ?s")
      case True
      then show ?thesis using smooth_from_above [OF True] Suc by simp
    next
      case False
      have "(7 * (?r - ?s) + 7) div 8 \<le> (7 * ?B + 7) div 8" using Suc by (intro div_le_mono) (simp add: le_diff_conv add.commute)
      then show ?thesis using smooth_from_below [of ?s ?r] False by simp
    qed
    have "(?s * 7 + ?r) div 8 \<le> 4095" using Suc assms(2) by linarith
    with 1 2 show ?thesis using False by (simp add: e)
  qed
qed

lemma perceived_percent_bounds: "0 < d \<Longrightarrow> 5 \<le> unat (perceived_percent d) \<and> unat (perceived_percent d) \<le> 100"
proof -
  assume d: "0 < d"
  let ?P = "\<lambda>n. 4 * n * n \<le> 125 * d"
  have le: "length (filter ?P [1..<101]) \<le> 100" using length_filter_le [of ?P "[1..<101]"] by simp
  have all: "filter ?P [1..<6] = [1..<6]"
  proof (rule filter_True, intro ballI)
    fix n :: nat
    assume "n \<in> set [1..<6]"
    then have "n * n \<le> 5 * 5" by (intro mult_le_mono) auto
    then show "?P n" using d by simp
  qed
  have split: "[1..<101] = [1..<6] @ [6..<101]" using upt_add_eq_append [of 1 6 95] by simp
  have "length (filter ?P [1..<101]) = 5 + length (filter ?P [6..<101])"
    unfolding split filter_append length_append all by simp
  then have "5 \<le> length (filter ?P [1..<101])" by linarith
  moreover have "unat (perceived_percent d) = length (filter ?P [1..<101])"
    using le by (simp add: perceived_percent_def unat_of_nat take_bit_nat_eq_self)
  ultimately show ?thesis using le by simp
qed

lemma backlight_percent_bounds: "5 \<le> unat (backlight_percent s) \<and> unat (backlight_percent s) \<le> 100"
proof -
  have "0 < unat (s - AMBIENT_LIGHT_DARK)" if "\<not> s \<le> AMBIENT_LIGHT_DARK"
    using that by (auto simp: unat_gt_0)
  then show ?thesis using perceived_percent_bounds by (auto simp: backlight_percent_def)
qed

text \<open>The backlight timer called \<open>n\<close> times with one reading.\<close>

definition sensor_run :: "u16 \<Rightarrow> nat \<Rightarrow> lcd_state_t \<times> lcd_globals \<Rightarrow> lcd_state_t \<times> lcd_globals" where
  "sensor_run raw n = (\<lambda>(l, g). backlight_timer_callback raw l g) ^^ n"

lemma sensor_run_adc: "smoothed_adc (fst (sensor_run raw n lg)) = ((\<lambda>s. smooth_adc s raw) ^^ n) (smoothed_adc (fst lg))"
  by (induction n) (simp_all add: sensor_run_def backlight_timer_callback_def Let_def case_prod_unfold)

section \<open>Properties\<close>

text \<open>
  C27: Configuration mode is requested exactly when the button has been pressed at three consecutive
  ticks of the second's timer, however presses and releases alternate; the 8-bit counter of the timer
  stays below three. Every tick also asks for the display's update.
\<close>

theorem button_hold_triggers:
  assumes "button_hold_seconds w = 0" and "\<not> ap_mode_triggered state" and "timer_run levels (state, w) = (s', w')"
  shows "(ap_mode_triggered s' \<longleftrightarrow> sublist (replicate 3 False) levels)
    \<and> unat (button_hold_seconds w') < 3 \<and> (levels \<noteq> [] \<longrightarrow> clock_tick_updated s')"
proof -
  have "clock_tick_updated s'" if ne: "levels \<noteq> []"
  proof -
    obtain ls l where l: "levels = ls @ [l]" using ne by (cases levels rule: rev_cases) auto
    show ?thesis using assms(3) unfolding l timer_run_snoc
      by (auto simp: clock_timer_callback_def Let_def split: prod.split_asm if_split_asm)
  qed
  then show ?thesis using timer_run_counts [OF assms] by (simp add: held_three_def)
qed

text \<open>
  C28: Under a constant reading of the 12-bit light sensor, 52 calls of the backlight timer (ten
  seconds) bring the smoothed value to the reading, or to at most 7 below it (the truncating division
  stops there); it never wraps, and every call sets a duty cycle between 5 and 100 percent.
\<close>

theorem backlight_settles:
  assumes "unat raw \<le> 4095" and "unat (smoothed_adc l) \<le> 4095" and "52 \<le> n" and "sensor_run raw n (l, g) = (l', g')"
  shows "unat (smoothed_adc l') \<le> unat raw \<and> unat raw \<le> unat (smoothed_adc l') + 7
    \<and> (\<exists>level. last (bus g') = PwmSetChanLevel (slice_num g') level \<and> 5 \<le> level \<and> level \<le> 100)"
proof -
  define up where "up d = 7 * d div 8" for d :: nat
  define down where "down d = (7 * d + 7) div 8" for d :: nat
  have v: "smoothed_adc l' = ((\<lambda>s. smooth_adc s raw) ^^ n) (smoothed_adc l)"
    using sensor_run_adc [of raw n "(l, g)"] assms(4) by simp
  obtain k where k: "n = k + 52" using assms(3) by (metis le_add_diff_inverse2)
  have step: "(f ^^ numeral i) d = (f ^^ pred_numeral i) (f d)" for f :: "nat \<Rightarrow> nat" and i d
    by (simp only: numeral_eq_Suc funpow_Suc_right o_apply)
  have "(up ^^ 52) 4095 = 0" "(down ^^ 52) 4095 = 7" by (simp_all add: step up_def down_def)
  moreover have "(up ^^ k) 0 = 0" "(down ^^ k) 7 = 7" by (induction k) (simp_all add: up_def down_def)
  ultimately have b: "(up ^^ n) 4095 = 0" "(down ^^ n) 4095 = 7" by (simp_all only: k funpow_add o_apply)
  have s: "unat (smoothed_adc l') \<le> unat raw \<and> unat raw \<le> unat (smoothed_adc l') + 7"
    using smooth_steps [OF assms(2,1), of n] b by (simp add: v up_def [abs_def] down_def [abs_def])
  obtain m where m: "n = Suc m" using assms(3) by (cases n) auto
  obtain l1 g1 where "sensor_run raw m (l, g) = (l1, g1)" by (cases "sensor_run raw m (l, g)")
  then have "(l', g') = backlight_timer_callback raw l1 g1" using assms(4) by (simp add: sensor_run_def m)
  then have "g' = lcd_set_backlight l' (backlight_percent (smoothed_adc l')) g1"
    by (simp add: backlight_timer_callback_def Let_def)
  then have "last (bus g') = PwmSetChanLevel (slice_num g') (unat (backlight_percent (smoothed_adc l')))"
    using backlight_percent_bounds [of "smoothed_adc l'"] by (simp add: lcd_set_backlight_def word_less_nat_alt)
  then show ?thesis using s backlight_percent_bounds by blast
qed

text \<open>
  C11: What a tick's task does about the NTP client. It resets the device exactly when a pending request
  is older than the configured timeout (the millisecond counter may wrap in between), when the client has
  failed, or when a request that is due fails at once; the error is then kept for the next boot. In all
  other cases it returns: a kiss of death doubles the interval (modulo \<open>2 ^ 32\<close>) and, like a success,
  makes the client idle; a synchronisation that is due is started and dated; nothing else is sent.
\<close>

theorem clock_task_outcome:
  assumes "wf_assets a" and "clock_inv (state, w)" and "clock_tick_updated state"
  shows "case reset_reason re (state, w) of
      Some e \<Rightarrow> \<exists>w'. clock_task a re (state, w) = Reboot w' \<and> flash w' = flash w
        \<and> persistent w' = (persistent w)\<lparr>ps_ntp_error := e, ps_wifi_error := WIFI_OK\<rparr>
    | None \<Rightarrow> \<exists>s' w'. clock_task a re (state, w) = Done (s', w')
        \<and> (ntp_state s', ntp_interval s', ntp_last_sync s', net_sent w') = sync_after re (state, w)"
  by (rule clock_task_outcome_cases [OF assms])

section \<open>Examples\<close>

theorem backlight_settles_witness:
  "\<exists>l' g'. sensor_run 300 60 (sample_panel 0, sample_globals) = (l', g') \<and> 293 \<le> unat (smoothed_adc l')"
proof -
  obtain l' g' where r: "sensor_run 300 60 (sample_panel 0, sample_globals) = (l', g')"
    by (cases "sensor_run 300 60 (sample_panel 0, sample_globals)")
  from backlight_settles [OF _ _ _ r] show ?thesis using r by (simp add: sample_panel_def)
qed

definition sample_clock :: clock_state_t where
  "sample_clock = clock_state_zero\<lparr>lcd_states := map sample_panel [0..<NUM_LCDS], flash_config := sample_config_valid,
     ntp_interval := NTP_SYNC_INTERVAL_SEC, clock_tick_updated := True, first_clock_tick := True\<rparr>"

definition sample_world :: clock_world where
  "sample_world = \<lparr>lcd = sample_globals, flash = flash_config_zero, persistent = persistent_zero, tod = 0,
     button_hold_seconds = 0, net_sent = [], green_led = False, red_led = False\<rparr>"

theorem button_hold_triggers_witness:
  "\<exists>s' w'. timer_run [False, False, True, False, False, False] (clock_state_zero, sample_world) = (s', w')
    \<and> ap_mode_triggered s'"
proof -
  obtain s' w' where r: "timer_run [False, False, True, False, False, False] (clock_state_zero, sample_world) = (s', w')"
    by (cases "timer_run [False, False, True, False, False, False] (clock_state_zero, sample_world)")
  have "sublist (replicate 3 False) [False, False, True, False, False, False]"
    by (simp add: sublist_Cons_right numeral_eq_Suc)
  then show ?thesis using button_hold_triggers [OF _ _ r] r by (simp add: clock_state_zero_def sample_world_def)
qed

lemma sample_assets_wf: "wf_assets sample_assets"
  using sample_font_wf by (simp add: wf_assets_def sample_assets_def)

lemma sample_clock_inv: "clock_inv (sample_clock, sample_world)"
proof -
  have "panels_ok (map sample_panel [0..<NUM_LCDS])"
    by (simp add: panels_ok_def panel_pins_def sample_panel_def lcd_consts)
  moreover have "\<exists>k. NTP_SYNC_INTERVAL_SEC = NTP_SYNC_INTERVAL_SEC * 2 ^ k" by (rule exI [of _ 0]) simp
  ultimately show ?thesis
    using sample_globals_inv sample_config_is_valid
    by (simp add: clock_inv_def sample_clock_def sample_world_def clock_state_zero_def flash_ok_def
        flash_config_zero_def CONFIG_MAGIC_value ntp_consistent_def ntp_state_zero_def)
qed

definition sample_request :: "u32 \<Rightarrow> request_env" where
  "sample_request ms = \<lparr>re_now_ms = ms, re_gethostbyname = (\<lambda>_. (ERR_INPROGRESS, None)), re_pbuf_alloc = True,
     re_udp_sendto = (\<lambda>_. ERR_OK)\<rparr>"

text \<open>A request pending since 1 s before the counter's wrap, seen 9.001 and 9.000 s after it, under a timeout of 10 s.\<close>

theorem clock_task_outcome_witness:
  "\<exists>w' s' v'. clock_task sample_assets (sample_request 9001) (sample_clock\<lparr>ntp_state := ntp_state_zero\<lparr>ntp_status := NTP_PENDING,
      request_start_ms := - 1000\<rparr>\<rparr>, sample_world) = Reboot w' \<and> ps_ntp_error (persistent w') = NTP_TIMEOUT_ERROR
    \<and> clock_task sample_assets (sample_request 9000) (sample_clock\<lparr>ntp_state := ntp_state_zero\<lparr>ntp_status := NTP_PENDING,
      request_start_ms := - 1000\<rparr>\<rparr>, sample_world) = Done (s', v')"
proof -
  let ?s = "sample_clock\<lparr>ntp_state := ntp_state_zero\<lparr>ntp_status := NTP_PENDING, request_start_ms := - 1000\<rparr>\<rparr>"
  have inv: "clock_inv (?s, sample_world)"
    using sample_clock_inv by (simp add: clock_inv_def ntp_consistent_def ntp_state_zero_def)
  have tick: "clock_tick_updated ?s" by (simp add: sample_clock_def)
  have t: "ntp_timeout (flash_config ?s) = 10000" by (simp add: sample_clock_def sample_config_valid_def)
  have "reset_reason (sample_request 9001) (?s, sample_world) = Some NTP_TIMEOUT_ERROR"
    "reset_reason (sample_request 9000) (?s, sample_world) = None"
    using t by (simp_all add: reset_reason_def sample_request_def)
  with clock_task_outcome [OF sample_assets_wf inv tick, of "sample_request 9001"]
    clock_task_outcome [OF sample_assets_wf inv tick, of "sample_request 9000"]
  show ?thesis by auto
qed



end
