(* ===== verification/Device.thy ===== *)
theory Device
  imports Clock
begin

text \<open>
  src/src/pico_main.c: the main program, from power-on through the events that reach a running clock.
  The callbacks of the timers and of the network stack are events between two turns of the main loop.
  A life of the device ends in a reboot, from which only \<open>clock_world\<close> remains.
\<close>

section \<open>The main program\<close>

text \<open>The variables of \<open>main\<close>.\<close>

record main_state =
  clock :: clock_state_t
  startup_led_active :: bool

definition startup_led_callback :: "clock_world \<Rightarrow> clock_world" where
  "startup_led_callback w = w\<lparr>green_led := \<not> green_led w\<rparr>"

definition init_diagnostic_led :: "bool \<Rightarrow> clock_world \<Rightarrow> bool \<times> clock_world" where
  "init_diagnostic_led add_repeating_timer w = (add_repeating_timer, w\<lparr>green_led := False, red_led := False\<rparr>)"

text \<open>
  A reset: the C library initialises the statics and the time of day starts from 0. The flash and the
  uninitialised section keep their contents. The bus and network traces start anew.
\<close>

definition reset_world :: "clock_world \<Rightarrow> clock_world" where
  "reset_world w = w\<lparr>lcd := \<lparr>slice_num = 0, line_number = 0, linebuf = replicate LINEBUF_LEN 0, bus = []\<rparr>,
     tod := 0, button_hold_seconds := 0, net_sent := []\<rparr>"

text \<open>Everything before the loop.\<close>

definition main_start ::
  "lcd_assets \<Rightarrow> boot_env \<Rightarrow> bool \<Rightarrow> start_env \<Rightarrow> clock_world \<Rightarrow> (main_state \<times> clock_world) outcome" where
  "main_start a be led_timer se w =
     and_then (clock_init a be (reset_world w)) (\<lambda>(state, w).
       let (led_active, w) = init_diagnostic_led led_timer w
       in and_then (clock_start a se state w) (\<lambda>(state, w).
            Done (\<lparr>clock = state, startup_led_active = led_active\<rparr>, w)))"

text \<open>One turn of the loop: the task, then configuration mode or the start-up LED.\<close>

definition after_task ::
  "boot_env \<Rightarrow> main_state \<Rightarrow> clock_state_t \<times> clock_world \<Rightarrow> (main_state \<times> clock_world) outcome" where
  "after_task be m = (\<lambda>(state, w).
     if ap_mode_triggered state then
       run_access_point be (Some (flash_config state)) (wifi_initialized state) w
     else if startup_led_active m \<and> ntp_status (ntp_state state) = NTP_IDLE then
       Done (\<lparr>clock = state, startup_led_active = False\<rparr>,
         w\<lparr>red_led := False, green_led := led_always_on (flash_config state)\<rparr>)
     else Done (m\<lparr>clock := state\<rparr>, w))"

definition main_iteration ::
  "lcd_assets \<Rightarrow> boot_env \<Rightarrow> request_env \<Rightarrow> main_state \<times> clock_world \<Rightarrow> (main_state \<times> clock_world) outcome" where
  "main_iteration a be re = (\<lambda>(m, w). and_then (clock_task a re (clock m, w)) (after_task be m))"

section \<open>The running clock\<close>

text \<open>
  What may happen: the second's timer with the level of the button's pin, the backlight's timer with
  the sensor's value, the start-up LED's timer, the name server's answer to a pending request, a
  packet on the NTP port, seconds passing, a turn of the main loop.
\<close>

datatype device_event = TimerTick bool | BacklightTick u16 | LedBlink
  | DnsAnswer bool "udp_datagram \<Rightarrow> int" "ip_addr_t option" | NtpPacket pbuf ip_addr_t u16
  | Elapse nat | MainLoop request_env

fun device_step ::
  "lcd_assets \<Rightarrow> boot_env \<Rightarrow> main_state \<times> clock_world \<Rightarrow> device_event \<Rightarrow> (main_state \<times> clock_world) outcome" where
  "device_step a be (m, w) (TimerTick level) =
     (let (state, w) = clock_timer_callback level (clock m) w in Done (m\<lparr>clock := state\<rparr>, w))"
| "device_step a be (m, w) (BacklightTick raw) =
     (let (l, g) = backlight_timer_callback raw (lcd_states (clock m) ! 0) (lcd w)
      in Done (m\<lparr>clock := (clock m)\<lparr>lcd_states := (lcd_states (clock m))[0 := l]\<rparr>\<rparr>, w\<lparr>lcd := g\<rparr>))"
| "device_step a be (m, w) LedBlink = Done (m, if startup_led_active m then startup_led_callback w else w)"
| "device_step a be (m, w) (DnsAnswer pbuf_alloc udp_sendto ipaddr) =
     (let (ntp, sent) = ntp_dns_callback pbuf_alloc udp_sendto ipaddr (ntp_state (clock m))
      in Done (m\<lparr>clock := (clock m)\<lparr>ntp_state := ntp\<rparr>\<rparr>, w\<lparr>net_sent := net_sent w @ sent\<rparr>))"
| "device_step a be (m, w) (NtpPacket p addr port) =
     (let (ntp, state) = ntp_recv_callback ntp_timer_callback p addr port (ntp_state (clock m), clock m)
      in Done (m\<lparr>clock := state\<lparr>ntp_state := ntp\<rparr>\<rparr>, w))"
| "device_step a be (m, w) (Elapse n) = Done (m, w\<lparr>tod := tod w + int n\<rparr>)"
| "device_step a be mw (MainLoop re) = main_iteration a be re mw"

fun device_run ::
  "lcd_assets \<Rightarrow> boot_env \<Rightarrow> main_state \<times> clock_world \<Rightarrow> device_event list \<Rightarrow> (main_state \<times> clock_world) outcome" where
  "device_run a be mw [] = Done mw"
| "device_run a be mw (e # es) = and_then (device_step a be mw e) (\<lambda>mw. device_run a be mw es)"

text \<open>A life: from power-on or reset through the events until it ends or the events do.\<close>

definition device_life ::
  "lcd_assets \<Rightarrow> boot_env \<Rightarrow> bool \<Rightarrow> start_env \<Rightarrow> device_event list \<Rightarrow> clock_world \<Rightarrow> (main_state \<times> clock_world) outcome" where
  "device_life a be led_timer se es w = and_then (main_start a be led_timer se w) (\<lambda>mw. device_run a be mw es)"

section \<open>Every life is safe\<close>

definition main_inv :: "main_state \<times> clock_world \<Rightarrow> bool" where
  "main_inv = (\<lambda>(m, w). clock_inv (clock m, w))"

lemma reset_world_ok: "flash_ok w \<Longrightarrow> lcd_inv (lcd (reset_world w)) \<and> flash_ok (reset_world w) \<and> 0 \<le> tod (reset_world w)"
  by (simp add: reset_world_def lcd_inv_def flash_ok_def deselected_def rx_state_def)

lemma main_start_ok:
  assumes "wf_assets a" "boot_env_ok be" "timeouts_take_time (se_connect se) (se_elapsed_us se)" "flash_ok w"
  shows "outcome_ok (config_mode_waits be) main_inv (main_start a be led_timer se w)"
proof -
  have led: "clock_inv (state, snd (init_diagnostic_led t w))" if "clock_inv (state, w)" for state t w
    using that by (simp add: init_diagnostic_led_def clock_inv_def flash_ok_def)
  show ?thesis
    unfolding main_start_def
    apply (rule outcome_ok_and_then [OF clock_init_ok [OF assms(1,2)]])
    using reset_world_ok [OF assms(4)] apply simp_all
    apply (clarsimp simp: Let_def case_prod_unfold)
    apply (rule outcome_ok_and_then [OF clock_start_ok [OF assms(1) led assms(3)]])
     apply (auto simp: main_inv_def)
    done
qed

lemma clock_timer_callback_inv:
  "clock_inv (state, w) \<Longrightarrow> clock_inv (clock_timer_callback level state w)"
  by (auto simp: clock_timer_callback_def clock_inv_def flash_ok_def Let_def)

lemma backlight_timer_callback_inv:
  assumes "clock_inv (state, w)" "backlight_timer_callback raw (lcd_states state ! 0) (lcd w) = (l, g)"
  shows "clock_inv (state\<lparr>lcd_states := (lcd_states state)[0 := l]\<rparr>, w\<lparr>lcd := g\<rparr>)"
proof -
  have p: "panels_ok (lcd_states state)" "lcd_inv (lcd w)" using clock_inv_parts [OF assms(1)] by simp_all
  have l: "l = (lcd_states state ! 0)\<lparr>smoothed_adc := smoothed_adc l\<rparr>"
    and g: "g = lcd_set_backlight l (backlight_percent (smoothed_adc l)) (lcd w)"
    using assms(2) by (auto simp: backlight_timer_callback_def Let_def)
  have "panel_pins 0 l" using panels_ok_0 [OF p(1)] l by (metis panel_pins_def lcd_state_t.surjective
      lcd_state_t.update_convs(9) lcd_state_t.select_convs(1-4))
  then have "panels_ok ((lcd_states state)[0 := l])"
    using p(1) by (auto simp: panels_ok_def nth_list_update)
  moreover have "lcd_inv g"
    using draws_inv [OF lcd_set_backlight_draws [OF lcd_inv_linebuf [OF p(2)], of 0] p(2)] g by auto
  ultimately show ?thesis using assms(1) by (simp add: clock_inv_def flash_ok_def)
qed

lemma ntp_recv_callback_clock:
  "ntp_recv_callback ntp_timer_callback p addr port (s, state) = (s', state') \<Longrightarrow>
   state' = state \<or> (\<exists>t. 0 \<le> t \<and> state' = state\<lparr>ntp_time := t, ntp_time_updated := True\<rparr>)"
  using ntp_seconds_to_epoch_range
  by (auto simp: ntp_recv_callback_def ntp_timer_callback_def Let_def split: if_split_asm)

lemma ntp_packet_inv:
  assumes "clock_inv (state, w)" "ntp_recv_callback ntp_timer_callback p addr port (ntp_state state, state) = (ntp, state')"
  shows "clock_inv (state'\<lparr>ntp_state := ntp\<rparr>, w)"
proof -
  have "ntp_consistent ntp"
    using ntp_recv_callback_consistent [of "(ntp_state state, state)" ntp_timer_callback p addr port] assms
    by (simp add: clock_inv_def)
  then show ?thesis
    using ntp_recv_callback_clock [OF assms(2)] assms(1) by (auto simp: clock_inv_def)
qed

lemma after_task_ok:
  assumes "boot_env_ok be" "clock_inv sw"
  shows "outcome_ok (config_mode_waits be) main_inv (after_task be m sw)"
proof -
  obtain state w where sw: "sw = (state, w)" by (cases sw)
  have "outcome_ok (config_mode_waits be) main_inv
      (run_access_point be (Some (flash_config state)) (wifi_initialized state) w)"
    by (rule run_access_point_ok [OF assms(1)]) (use assms(2) in \<open>auto simp: sw clock_inv_def\<close>)
  then show ?thesis using assms(2) by (simp add: sw after_task_def main_inv_def clock_inv_def flash_ok_def)
qed

lemma main_iteration_ok:
  assumes "wf_assets a" "boot_env_ok be" "main_inv mw"
  shows "outcome_ok (config_mode_waits be) main_inv (main_iteration a be re mw)"
  using assms(3) outcome_ok_and_then [OF clock_task_ok [OF assms(1)] after_task_ok [OF assms(2)]]
  by (auto simp: main_iteration_def main_inv_def)

lemma device_step_ok:
  assumes "wf_assets a" "boot_env_ok be" "main_inv mw"
  shows "outcome_ok (config_mode_waits be) main_inv (device_step a be mw e)"
proof -
  obtain m w where mw: "mw = (m, w)" by (cases mw)
  have inv: "clock_inv (clock m, w)" using assms(3) by (simp add: mw main_inv_def)
  show ?thesis
  proof (cases e)
    case (TimerTick level)
    then show ?thesis using clock_timer_callback_inv [OF inv, of level] by (auto simp: mw main_inv_def split: prod.split)
  next
    case (BacklightTick raw)
    then show ?thesis using backlight_timer_callback_inv [OF inv] by (auto simp: mw main_inv_def split: prod.split)
  next
    case LedBlink
    then show ?thesis using inv by (auto simp: mw main_inv_def startup_led_callback_def clock_inv_def flash_ok_def)
  next
    case (DnsAnswer x y z)
    then show ?thesis
      using inv ntp_dns_callback_consistent [of "ntp_state (clock m)" x y z]
      by (auto simp: mw main_inv_def clock_inv_def flash_ok_def split: prod.split)
  next
    case (NtpPacket p addr port)
    then show ?thesis using ntp_packet_inv [OF inv] by (auto simp: mw main_inv_def split: prod.split)
  next
    case (Elapse n)
    then show ?thesis using inv by (auto simp: mw main_inv_def clock_inv_def flash_ok_def)
  next
    case (MainLoop re)
    then show ?thesis using main_iteration_ok [OF assms] by simp
  qed
qed

section \<open>What the panels show\<close>

text \<open>
  The last picture panel \<open>n\<close> has received is the character \<open>c\<close> on a cleared screen, in the panel's
  colour, followed on the first panel by status icons only.
\<close>

definition panel_shows :: "lcd_assets \<Rightarrow> nat \<Rightarrow> lcd_globals \<Rightarrow> char \<Rightarrow> bool" where
  "panel_shows a n g c \<longleftrightarrow> (\<exists>earlier icons. received n g = earlier @ clear_bytes
       @ digit_bytes (clock_digit_font a) (digit_color n) c @ concat (map (\<lambda>(we, ne, fe). status_icon_bytes a we ne fe) icons)
     \<and> (n \<noteq> 0 \<longrightarrow> icons = []))"

definition display_inv :: "lcd_assets \<Rightarrow> clock_state_t \<times> clock_world \<Rightarrow> bool" where
  "display_inv a = (\<lambda>(state, w). first_clock_tick state
     \<or> (\<forall>n < NUM_LCDS. panel_shows a n (lcd w) (current_lcd_digits state ! n)))"

lemma panel_shows_more_icons: "panel_shows a 0 g c \<Longrightarrow> received 0 g' = received 0 g @ status_icon_bytes a we ne fe \<Longrightarrow> panel_shows a 0 g' c"
proof -
  assume "panel_shows a 0 g c" and r: "received 0 g' = received 0 g @ status_icon_bytes a we ne fe"
  then obtain earlier icons where "received 0 g = earlier @ clear_bytes @ digit_bytes (clock_digit_font a) (digit_color 0) c
      @ concat (map (\<lambda>(we, ne, fe). status_icon_bytes a we ne fe) icons)"
    by (auto simp: panel_shows_def)
  then have "received 0 g' = earlier @ clear_bytes @ digit_bytes (clock_digit_font a) (digit_color 0) c
      @ concat (map (\<lambda>(we, ne, fe). status_icon_bytes a we ne fe) (icons @ [(we, ne, fe)]))"
    by (simp add: r)
  then show ?thesis unfolding panel_shows_def by blast
qed

lemma panel_shows_same: "panel_shows a n g c \<Longrightarrow> received n g' = received n g \<Longrightarrow> panel_shows a n g' c"
  by (simp add: panel_shows_def)

lemma panel_shows_after:
  assumes "display_inv a (state, w)" "n < NUM_LCDS"
    and r: "received n g = received n (lcd w) @ panel_bytes a state d n
      @ (if n = 0 \<and> b then status_icon_bytes a we ne fe else [])"
  shows "panel_shows a n g (d ! n)"
proof -
  let ?icons = "if n = 0 \<and> b then [(we, ne, fe)] else []"
  show ?thesis
  proof (cases "digit_changed state d n")
    case True
    then have "received n g = received n (lcd w) @ clear_bytes @ digit_bytes (clock_digit_font a) (digit_color n) (d ! n)
        @ concat (map (\<lambda>(we, ne, fe). status_icon_bytes a we ne fe) ?icons)"
      using r by (simp add: panel_bytes_def)
    moreover have "n \<noteq> 0 \<longrightarrow> ?icons = []" by simp
    ultimately show ?thesis unfolding panel_shows_def by blast
  next
    case False
    then have p: "panel_bytes a state d n = []" "current_lcd_digits state ! n = d ! n" "\<not> first_clock_tick state"
      by (auto simp: panel_bytes_def digit_changed_def)
    then have old: "panel_shows a n (lcd w) (d ! n)"
      using assms(1,2) by (auto simp: display_inv_def)
    show ?thesis
    proof (cases "n = 0 \<and> b")
      case True
      then have "received 0 g = received 0 (lcd w) @ status_icon_bytes a we ne fe" using r p(1) by simp
      then show ?thesis using panel_shows_more_icons old True by blast
    next
      case False
      then have "received n g = received n (lcd w)" using r p(1) by (simp only: if_False append_Nil append_Nil2)
      then show ?thesis by (rule panel_shows_same [OF old])
    qed
  qed
qed

lemma shown_digits_nth:
  "n < NUM_LCDS \<Longrightarrow> (shown_digits l @ xs) ! n = shown_digits l ! n"
  by (simp add: nth_append shown_digits_length)

lemma task_shows:
  assumes "wf_assets a" "clock_inv (state, w)" "display_inv a (state, w)" "clock_tick_updated state"
    and "clock_task a re (state, w) = Done (s', w')" "n < NUM_LCDS"
  shows "panel_shows a n (lcd w') (shown_digits (local_time_of (flash_config s') (tod w')) ! n)
    \<and> current_lcd_digits s' ! n = shown_digits (local_time_of (flash_config s') (tod w')) ! n"
proof -
  let ?l = "local_time_of (flash_config state) (task_time (state, w))"
  note d = clock_task_done [OF assms(1,2,4,5)]
  have "panel_shows a n (lcd w') ((shown_digits ?l @ [NUL]) ! n)"
    by (rule panel_shows_after [OF assms(3,6)]) (use d assms(6) in auto)
  then show ?thesis using d by (simp add: shown_digits_nth [OF assms(6)])
qed

lemma task_display_inv:
  assumes "wf_assets a" "clock_inv (state, w)" "display_inv a (state, w)"
    and "clock_task a re (state, w) = Done sw'"
  shows "display_inv a sw'"
proof (cases "clock_tick_updated state")
  case True
  then show ?thesis
    using task_shows [OF assms(1-3) True, of re "fst sw'" "snd sw'"] assms(4)
    by (auto simp: display_inv_def case_prod_unfold)
next
  case False
  obtain s0 w0 where p: "process_ntp_time (state, w) = (s0, w0)" by (cases "process_ntp_time (state, w)")
  then show ?thesis
    using assms(3,4) process_ntp_time_fields [OF p] clock_task_no_tick [OF False] by (auto simp: display_inv_def)
qed

lemma start_icons_first_tick: "start_icons a err s w = Done sw' \<Longrightarrow> first_clock_tick (fst sw') = first_clock_tick s"
  by (auto simp: start_icons_def or_fault_def split: if_split_asm option.split_asm)

lemma clock_request_first_tick: "clock_request a re sw = Done sw' \<Longrightarrow> first_clock_tick (fst sw') = first_clock_tick (fst sw)"
  using clock_request_same [of a re sw sw'] by (auto simp: same_display_def)

lemma clock_start_first_tick:
  "clock_start a e state w = Done sw' \<Longrightarrow> first_clock_tick (fst sw') = first_clock_tick state"
  by (auto simp: clock_start_def and_then_Done Let_def case_prod_unfold split: if_split_asm option.split_asm
      dest!: clock_request_first_tick start_icons_first_tick)

lemma run_access_point_not_Done [simp]: "run_access_point e cfg b w \<noteq> Done x"
  by (simp add: run_access_point_def system_reboot_def split: option.split)

lemma clock_init_done:
  "clock_init a e w = Done sw \<Longrightarrow> first_clock_tick (fst sw) \<and> magic_marker (flash (snd sw)) = CONFIG_MAGIC
     \<and> flash_config (fst sw) = flash (snd sw)"
  by (auto simp: clock_init_def or_fault_def and_then_Done split: if_split_asm option.split_asm prod.split_asm)

lemma main_start_display:
  assumes "main_start a be led_timer se w = Done (m, v)"
  shows "display_inv a (clock m, v)"
  using assms clock_init_done clock_start_first_tick
  by (fastforce simp: main_start_def and_then_Done init_diagnostic_led_def display_inv_def split: prod.split_asm)

lemma display_inv_cong:
  "display_inv a (s, w) \<Longrightarrow> first_clock_tick s' = first_clock_tick s \<Longrightarrow> current_lcd_digits s' = current_lcd_digits s
   \<Longrightarrow> (\<And>n. n < NUM_LCDS \<Longrightarrow> received n (lcd w') = received n (lcd w)) \<Longrightarrow> display_inv a (s', w')"
  using panel_shows_same by (auto simp: display_inv_def)

lemma device_step_display:
  assumes "wf_assets a" "clock_inv (clock m, w)" "display_inv a (clock m, w)" "device_step a be (m, w) e = Done (m', w')"
  shows "display_inv a (clock m', w')"
proof (cases e)
  case (TimerTick level)
  then show ?thesis using assms(4)
    by (intro display_inv_cong [OF assms(3)]) (auto simp: clock_timer_callback_def Let_def split: if_split_asm)
next
  case (BacklightTick raw)
  then obtain l level where g: "lcd w' = lcd_set_backlight l level (lcd w)"
    and m: "current_lcd_digits (clock m') = current_lcd_digits (clock m)" "first_clock_tick (clock m') = first_clock_tick (clock m)"
    using assms(4) by (auto simp: backlight_timer_callback_def Let_def)
  have inv: "lcd_inv (lcd w)" using clock_inv_parts(1) [OF assms(2)] .
  then have "delivers 0 [] (lcd w) (lcd w')"
    using lcd_set_backlight_draws [OF lcd_inv_linebuf [OF inv], of 0] g by (auto simp: draws_def)
  then have "received n (lcd w') = received n (lcd w)" if "n < NUM_LCDS" for n
    using received_delivers [OF inv _ that, of 0 "[]"] by simp
  then show ?thesis by (rule display_inv_cong [OF assms(3) m(2,1)])
next
  case (NtpPacket p addr port)
  then show ?thesis using assms(4) ntp_recv_callback_clock [of p addr port "ntp_state (clock m)" "clock m"]
    by (intro display_inv_cong [OF assms(3)]) (auto split: prod.split_asm)
next
  case (MainLoop re)
  then obtain sw where sw: "clock_task a re (clock m, w) = Done sw"
    "after_task be m sw = Done (m', w')"
    using assms(4) by (auto simp: main_iteration_def and_then_Done)
  have "display_inv a (fst sw, snd sw)" using task_display_inv [OF assms(1-3) sw(1)] by simp
  then show ?thesis using sw(2)
    by (auto simp: after_task_def case_prod_unfold display_inv_def split: if_split_asm)
qed (use assms(3,4) in \<open>auto intro!: display_inv_cong [OF assms(3)] simp: startup_led_callback_def split: prod.split_asm\<close>)

text \<open>A component that may reset the device: its steps keep an invariant or end its life properly.\<close>

locale resettable_machine =
  fixes step :: "'s \<Rightarrow> 'e \<Rightarrow> 's outcome" and inv :: "'s \<Rightarrow> bool" and may_hang :: bool
  assumes step_ok: "inv s \<Longrightarrow> outcome_ok may_hang inv (step s e)"
begin

fun run :: "'s \<Rightarrow> 'e list \<Rightarrow> 's outcome" where
  "run s [] = Done s"
| "run s (e # es) = and_then (step s e) (\<lambda>s. run s es)"

lemma run_ok: "inv s \<Longrightarrow> outcome_ok may_hang inv (run s es)"
  by (induction es arbitrary: s) (auto intro: outcome_ok_and_then [OF step_ok])

lemma run_append: "run s (es @ fs) = and_then (run s es) (\<lambda>s. run s fs)"
proof (induction es arbitrary: s)
  case (Cons e es)
  then show ?case by (cases "step s e") simp_all
qed simp

end

definition device_inv :: "lcd_assets \<Rightarrow> boot_env \<Rightarrow> main_state \<times> clock_world \<Rightarrow> bool" where
  "device_inv a be = (\<lambda>(m, w). wf_assets a \<and> boot_env_ok be \<and> clock_inv (clock m, w) \<and> display_inv a (clock m, w))"

interpretation device: resettable_machine "device_step a be" "device_inv a be" "config_mode_waits be" for a be
proof
  fix mw e
  assume i: "device_inv a be mw"
  obtain m w where mw: "mw = (m, w)" by (cases mw)
  have "outcome_ok (config_mode_waits be) main_inv (device_step a be (m, w) e)"
    using device_step_ok [of a be mw e] i by (simp add: mw device_inv_def main_inv_def)
  then show "outcome_ok (config_mode_waits be) (device_inv a be) (device_step a be mw e)"
    using device_step_display [of a m w be e] i
    by (cases "device_step a be (m, w) e") (auto simp: mw device_inv_def main_inv_def)
qed

lemma device_run_eq: "device_run a be mw es = device.run a be mw es"
  by (induction es arbitrary: mw) simp_all

text \<open>After a tick and a turn of the loop the panels show the local time.\<close>

lemma tick_turn_shows:
  assumes "device_inv a be (m1, w1)" "device_step a be (m1, w1) (TimerTick level) = Done (m2, w2)"
    "main_iteration a be re (m2, w2) = Done (m', w')" "n < NUM_LCDS"
  shows "panel_shows a n (lcd w') (shown_digits (local_time_of (flash_config (clock m')) (tod w')) ! n)"
proof -
  have inv: "wf_assets a" "clock_inv (clock m1, w1)" "display_inv a (clock m1, w1)" using assms(1) by (simp_all add: device_inv_def)
  have i2: "clock_inv (clock m2, w2)" "display_inv a (clock m2, w2)" "clock_tick_updated (clock m2)"
    using clock_timer_callback_inv [OF inv(2), of level] device_step_display [OF inv assms(2)] assms(2)
    by (auto simp: clock_timer_callback_def Let_def split: prod.split_asm if_split_asm)
  obtain s v where t: "clock_task a re (clock m2, w2) = Done (s, v)" "clock m' = s" "lcd w' = lcd v" "tod w' = tod v"
    using assms(3) by (auto simp: main_iteration_def after_task_def and_then_Done split: if_split_asm)
  show ?thesis using task_shows [OF inv(1) i2 t(1) assms(4)] t(2-4) by simp
qed

lemma main_start_device_inv:
  assumes "wf_assets a" "boot_env_ok be" "timeouts_take_time (se_connect se) (se_elapsed_us se)" "flash_ok w"
  shows "outcome_ok (config_mode_waits be) (device_inv a be) (main_start a be led_timer se w)"
  using main_start_ok [OF assms, of led_timer] main_start_display [of a be led_timer se w] assms(1,2)
  by (cases "main_start a be led_timer se w") (auto simp: device_inv_def main_inv_def)

lemma device_life_ok:
  assumes "wf_assets a" "boot_env_ok be" "timeouts_take_time (se_connect se) (se_elapsed_us se)" "flash_ok w"
  shows "outcome_ok (config_mode_waits be) (device_inv a be) (device_life a be led_timer se es w)"
  unfolding device_life_def device_run_eq
  by (rule outcome_ok_and_then [OF main_start_device_inv [OF assms] device.run_ok])

section \<open>Resets and the next boot\<close>

text \<open>The panels after the start-up of the displays.\<close>

lemma clock_init_begin:
  assumes "wf_assets a" "lcd_inv (lcd w)"
  obtains ls g where "panels_ok ls" "lcd_inv g" "clock_init a e w =
    and_then (boot_case a e (clock_state_zero\<lparr>lcd_states := ls, cold_boot := \<not> be_watchdog_caused_reboot e\<rparr>) (w\<lparr>lcd := g\<rparr>))
      (\<lambda>(state, w). if magic_marker (flash w) = CONFIG_MAGIC then
           Done (state\<lparr>flash_config := flash w, ntp_last_sync := ntp_time state,
             ntp_interval := NTP_SYNC_INTERVAL_SEC, first_clock_tick := True\<rparr>, w)
         else
           or_fault (lcd_print_line (text_font a) (lcd_states state ! 0) RED LCD_MSG_FLASH_ERROR (lcd w)) (\<lambda>g.
             or_fault (lcd_print_line (text_font a) (lcd_states state ! 0) RED LCD_MSG_WIFI_ERROR g) (\<lambda>g.
               run_access_point e None (wifi_initialized state) (w\<lparr>lcd := g\<rparr>))))"
proof -
  obtain ls g where i: "init_lcds a clock_state_zero w = Some (clock_state_zero\<lparr>lcd_states := ls\<rparr>, w\<lparr>lcd := g\<rparr>)"
    "panels_ok ls" "lcd_inv g"
    using init_lcds_ok [OF assms(2)] by blast
  then show thesis by (intro that [OF i(2,3)]) (simp add: clock_init_def)
qed

lemma reset_world_fields [simp]: "persistent (reset_world w) = persistent w" "flash (reset_world w) = flash w"
  by (simp_all add: reset_world_def)

text \<open>What the next boot makes of the errors kept in the uninitialised section.\<close>

definition error_shown :: "ntp_error_t \<Rightarrow> wifi_error_t \<Rightarrow> watchdog_error_t" where
  "error_shown ne fe = (if ne \<noteq> NTP_OK then WATCHDOG_NTP else if fe \<noteq> WIFI_OK then WATCHDOG_WIFI else WATCHDOG_RESET)"

lemma warm_boot:
  assumes "wf_assets a" "flash_ok w" "be_watchdog_caused_reboot e" "\<not> factory_reset_held e"
    and "magic_marker (flash w) = CONFIG_MAGIC"
  shows "\<exists>s v before. clock_init a e (reset_world w) = Done (s, v) \<and> clock_inv (s, v) \<and> flash_config s = flash w
    \<and> \<not> ap_mode_triggered s
    \<and> watchdog_reset_error s = error_shown (ps_ntp_error (persistent w)) (ps_wifi_error (persistent w))
    \<and> ntp_reset_error s = ps_ntp_error (persistent w) \<and> wifi_reset_error s = ps_wifi_error (persistent w)
    \<and> persistent v = (persistent w)\<lparr>ps_boot_count := ps_boot_count (persistent w) + 1,
        ps_ntp_error := NTP_OK, ps_wifi_error := WIFI_OK\<rparr>
    \<and> received 0 (lcd v) = before @ status_icon_bytes a (error_shown (ps_ntp_error (persistent w)) (ps_wifi_error (persistent w)))
        (ps_ntp_error (persistent w)) (ps_wifi_error (persistent w))"
proof -
  let ?p = "persistent w"
  let ?we = "error_shown (ps_ntp_error ?p) (ps_wifi_error ?p)"
  have rw: "lcd_inv (lcd (reset_world w))" using reset_world_ok [OF assms(2)] by simp
  obtain ls g where i: "panels_ok ls" "lcd_inv g" "clock_init a e (reset_world w) =
    and_then (boot_case a e (clock_state_zero\<lparr>lcd_states := ls, cold_boot := \<not> be_watchdog_caused_reboot e\<rparr>) ((reset_world w)\<lparr>lcd := g\<rparr>))
      (\<lambda>(state, w). if magic_marker (flash w) = CONFIG_MAGIC then
           Done (state\<lparr>flash_config := flash w, ntp_last_sync := ntp_time state,
             ntp_interval := NTP_SYNC_INTERVAL_SEC, first_clock_tick := True\<rparr>, w)
         else
           or_fault (lcd_print_line (text_font a) (lcd_states state ! 0) RED LCD_MSG_FLASH_ERROR (lcd w)) (\<lambda>g.
             or_fault (lcd_print_line (text_font a) (lcd_states state ! 0) RED LCD_MSG_WIFI_ERROR g) (\<lambda>g.
               run_access_point e None (wifi_initialized state) (w\<lparr>lcd := g\<rparr>))))"
    by (rule clock_init_begin [OF assms(1) rw])
  obtain g2 where g2: "lcd_update_icons (icon_bits a) (ls ! 0) ?we (ps_ntp_error ?p) (ps_wifi_error ?p) g = Some g2"
    "lcd_inv g2" "delivers 0 (status_icon_bytes a ?we (ps_ntp_error ?p) (ps_wifi_error ?p)) g g2"
    using update_icons_ok [OF assms(1) i(2) panels_ok_0 [OF i(1)]] by blast
  let ?s = "clock_state_zero\<lparr>lcd_states := ls, watchdog_reset_error := ?we, ntp_reset_error := ps_ntp_error ?p,
      wifi_reset_error := ps_wifi_error ?p, flash_config := flash w, ntp_interval := NTP_SYNC_INTERVAL_SEC, first_clock_tick := True\<rparr>"
  let ?v = "(reset_world w)\<lparr>lcd := g2, persistent := ?p\<lparr>ps_boot_count := ps_boot_count ?p + 1,
      ps_ntp_error := NTP_OK, ps_wifi_error := WIFI_OK\<rparr>\<rparr>"
  have we: "boot_watchdog_error (?p\<lparr>ps_boot_count := ps_boot_count ?p + 1\<rparr>) = ?we"
    by (simp add: boot_watchdog_error_def error_shown_def)
  have r: "clock_init a e (reset_world w) = Done (?s, ?v)"
    using assms(3-5) g2(1) we by (simp add: i(3) boot_case_def Let_def clock_state_zero_def)
  have "clock_inv (?s, ?v)"
  proof -
    have "\<exists>k. NTP_SYNC_INTERVAL_SEC = NTP_SYNC_INTERVAL_SEC * 2 ^ k" by (rule exI [of _ 0]) simp
    then show ?thesis using i(1) g2(2) assms(2,5)
      by (simp add: clock_inv_def clock_state_zero_def flash_ok_def reset_world_def ntp_consistent_def ntp_state_zero_def)
  qed
  moreover have "received 0 g2 = received 0 g @ status_icon_bytes a ?we (ps_ntp_error ?p) (ps_wifi_error ?p)"
    using received_delivers [OF i(2) g2(3)] by (simp add: NUM_LCDS_def)
  moreover have "\<not> ap_mode_triggered ?s" by (simp add: clock_state_zero_def)
  ultimately show ?thesis using r by (intro exI [of _ ?s] exI [of _ ?v]) auto
qed

lemma run_access_point_flash:
  assumes "boot_env_ok e" "\<And>c. cfg = Some c \<Longrightarrow> valid_config c" "run_access_point e cfg b w = Reboot w'"
  shows "flash w' = flash w \<or> magic_marker (flash w') = CONFIG_MAGIC \<and> valid_config (flash w')"
proof -
  let ?s = "(be_ap_start e)\<lparr>ap_wifi_initialized := b\<rparr>"
  obtain s' err where r: "start_wifi_access_point (be_ap_env e) (be_template e) (be_ap_events e) cfg ?s = Some (Some (s', err))"
    "w' = store_all (stored (ap_tcp s')) w"
    using assms(3) by (auto simp: run_access_point_def system_reboot_def split: option.split_asm)
  have s: "ap_start_ok cfg ?s" using assms(1,2) by (simp add: boot_env_ok_def ap_start_ok_def)
  have "stored (ap_tcp s') = [] \<or> (\<forall>c \<in> set (stored (ap_tcp s')). valid_config c)"
    using access_point_result [OF s _ _ r(1)] assms(1) unfolding boot_env_ok_def by blast
  then show ?thesis using r(2) by (auto simp: store_all_flash)
qed

lemma factory_boot:
  assumes "wf_assets a" "flash_ok w" "factory_reset_held e"
  shows "\<exists>v. clock_init a e (reset_world w) = Reboot v \<and> magic_marker (flash v) = 0xffffffff"
proof -
  have rw: "lcd_inv (lcd (reset_world w))" using reset_world_ok [OF assms(2)] by simp
  show ?thesis
    by (rule clock_init_begin [OF assms(1) rw, of e])
      (auto simp: boot_case_def assms(3) config_store_handler_def system_reboot_def Let_def)
qed

text \<open>The start-up with the button released keeps the flash, by either kind of boot.\<close>

lemma boot_case_done:
  assumes "wf_assets a" "\<not> factory_reset_held e" "panels_ok ls" "lcd_inv g"
  shows "\<exists>s v. boot_case a e (clock_state_zero\<lparr>lcd_states := ls, cold_boot := \<not> be_watchdog_caused_reboot e\<rparr>)
      (w\<lparr>lcd := g\<rparr>) = Done (s, v) \<and> lcd_states s = ls \<and> \<not> wifi_initialized s \<and> flash v = flash w \<and> lcd_inv (lcd v)"
proof (cases "be_watchdog_caused_reboot e")
  case True
  obtain g2 where "lcd_update_icons (icon_bits a) (ls ! 0)
      (boot_watchdog_error ((persistent w)\<lparr>ps_boot_count := ps_boot_count (persistent w) + 1\<rparr>))
      (ps_ntp_error (persistent w)) (ps_wifi_error (persistent w)) g = Some g2" "lcd_inv g2"
    using update_icons_ok [OF assms(1,4) panels_ok_0 [OF assms(3)]] by blast
  then show ?thesis using True assms(2) by (simp add: boot_case_def clock_state_zero_def Let_def)
next
  case False
  obtain g2 where "lcd_print_line (text_font a) (ls ! 0) GREEN LCD_MSG_INIT_OK g = Some g2" "lcd_inv g2"
    using print_line_ok [OF assms(1,4) panels_ok_0 [OF assms(3)]] by blast
  then show ?thesis using False assms(2) by (simp add: boot_case_def clock_state_zero_def)
qed

lemma configured_boot:
  assumes "wf_assets a" "flash_ok w" "\<not> factory_reset_held e" "magic_marker (flash w) = CONFIG_MAGIC"
  shows "\<exists>s v. clock_init a e (reset_world w) = Done (s, v) \<and> flash_config s = flash w \<and> flash v = flash w"
proof -
  have rw: "lcd_inv (lcd (reset_world w))" using reset_world_ok [OF assms(2)] by simp
  show ?thesis
  proof (rule clock_init_begin [OF assms(1) rw, of e])
    fix ls g
    assume i: "panels_ok ls" "lcd_inv g" and eq: "clock_init a e (reset_world w) =
      and_then (boot_case a e (clock_state_zero\<lparr>lcd_states := ls, cold_boot := \<not> be_watchdog_caused_reboot e\<rparr>) ((reset_world w)\<lparr>lcd := g\<rparr>))
      (\<lambda>(state, w). if magic_marker (flash w) = CONFIG_MAGIC then
           Done (state\<lparr>flash_config := flash w, ntp_last_sync := ntp_time state,
             ntp_interval := NTP_SYNC_INTERVAL_SEC, first_clock_tick := True\<rparr>, w)
         else
           or_fault (lcd_print_line (text_font a) (lcd_states state ! 0) RED LCD_MSG_FLASH_ERROR (lcd w)) (\<lambda>g.
             or_fault (lcd_print_line (text_font a) (lcd_states state ! 0) RED LCD_MSG_WIFI_ERROR g) (\<lambda>g.
               run_access_point e None (wifi_initialized state) (w\<lparr>lcd := g\<rparr>))))"
    from boot_case_done [OF assms(1,3) i, of "reset_world w"] show ?thesis using assms(4) by (auto simp: eq)
  qed
qed

lemma unconfigured_boot:
  assumes "wf_assets a" "flash_ok w" "\<not> factory_reset_held e" "magic_marker (flash w) \<noteq> CONFIG_MAGIC"
  shows "\<exists>v. clock_init a e (reset_world w) = run_access_point e None False v \<and> flash v = flash w"
proof -
  have rw: "lcd_inv (lcd (reset_world w))" using reset_world_ok [OF assms(2)] by simp
  obtain ls g where i: "panels_ok ls" "lcd_inv g" "clock_init a e (reset_world w) =
    and_then (boot_case a e (clock_state_zero\<lparr>lcd_states := ls, cold_boot := \<not> be_watchdog_caused_reboot e\<rparr>) ((reset_world w)\<lparr>lcd := g\<rparr>))
      (\<lambda>(state, w). if magic_marker (flash w) = CONFIG_MAGIC then
           Done (state\<lparr>flash_config := flash w, ntp_last_sync := ntp_time state,
             ntp_interval := NTP_SYNC_INTERVAL_SEC, first_clock_tick := True\<rparr>, w)
         else
           or_fault (lcd_print_line (text_font a) (lcd_states state ! 0) RED LCD_MSG_FLASH_ERROR (lcd w)) (\<lambda>g.
             or_fault (lcd_print_line (text_font a) (lcd_states state ! 0) RED LCD_MSG_WIFI_ERROR g) (\<lambda>g.
               run_access_point e None (wifi_initialized state) (w\<lparr>lcd := g\<rparr>))))"
    by (rule clock_init_begin [OF assms(1) rw])
  note pin = panels_ok_0 [OF i(1)]
  obtain s v where b: "boot_case a e (clock_state_zero\<lparr>lcd_states := ls, cold_boot := \<not> be_watchdog_caused_reboot e\<rparr>)
      ((reset_world w)\<lparr>lcd := g\<rparr>) = Done (s, v)" "lcd_states s = ls" "\<not> wifi_initialized s" "flash v = flash w" "lcd_inv (lcd v)"
    using boot_case_done [OF assms(1,3) i(1,2), of "reset_world w"] by auto
  obtain g1 where g1: "lcd_print_line (text_font a) (ls ! 0) RED LCD_MSG_FLASH_ERROR (lcd v) = Some g1" "lcd_inv g1"
    using print_line_ok [OF assms(1) b(5) pin] by blast
  obtain g2 where g2: "lcd_print_line (text_font a) (ls ! 0) RED LCD_MSG_WIFI_ERROR g1 = Some g2"
    using print_line_ok [OF assms(1) g1(2) pin] by blast
  have "clock_init a e (reset_world w) = run_access_point e None False (v\<lparr>lcd := g2\<rparr>)"
    using b(1-4) g1(1) g2 assms(4) by (simp add: i(3))
  then show ?thesis using b(4) by (intro exI [of _ "v\<lparr>lcd := g2\<rparr>"]) simp
qed

section \<open>Kisses of death\<close>

text \<open>A kiss of death from the server that the client has asked: stratum 0.\<close>

definition kiss_of_death :: "pbuf \<Rightarrow> ip_addr_t \<Rightarrow> u16 \<Rightarrow> ntp_state_t \<Rightarrow> bool" where
  "kiss_of_death p addr port s \<longleftrightarrow> addr = ntp_server_address s \<and> port = ns_port s \<and> tot_len p = NTP_MSG_LEN
     \<and> pbuf_get_at p 0 AND 0x07 = 0x4 \<and> pbuf_get_at p 1 = 0"

definition kod_round :: "pbuf \<Rightarrow> ip_addr_t \<Rightarrow> u16 \<Rightarrow> request_env \<Rightarrow> device_event list" where
  "kod_round p addr port re = [NtpPacket p addr port, TimerTick True, MainLoop re]"

lemma kod_round_doubles:
  assumes "wf_assets a" "clock_inv (clock m, w)" "\<not> ap_mode_triggered (clock m)"
    and "kiss_of_death p addr port (ntp_state (clock m))"
  shows "\<exists>m' w'. device_run a be (m, w) (kod_round p addr port re) = Done (m', w') \<and> clock_inv (clock m', w')
    \<and> \<not> ap_mode_triggered (clock m') \<and> ntp_interval (clock m') = 2 * ntp_interval (clock m)
    \<and> ntp_status (ntp_state (clock m')) = NTP_IDLE \<and> kiss_of_death p addr port (ntp_state (clock m'))"
proof -
  let ?n = "(ntp_state (clock m))\<lparr>ntp_status := NTP_KOD, ntp_error := NTP_OK\<rparr>"
  let ?s = "(clock m)\<lparr>ntp_state := ?n, clock_tick_updated := True\<rparr>" and ?w = "w\<lparr>button_hold_seconds := 0\<rparr>"
  have recv: "ntp_recv_callback ntp_timer_callback p addr port (ntp_state (clock m), clock m) = (?n, clock m)"
    using assms(4) by (simp add: ntp_recv_callback_def Let_def kiss_of_death_def ip_addr_cmp_def ntp_atomic_status_def)
  have inv: "clock_inv (?s, ?w)" using assms(2) by (simp add: clock_inv_def flash_ok_def ntp_consistent_def)
  have tick: "clock_tick_updated ?s" by simp
  have "reset_reason re (?s, ?w) = None" by (simp add: reset_reason_def sync_due_def)
  then obtain s' w' where t: "clock_task a re (?s, ?w) = Done (s', w')"
    "(ntp_state s', ntp_interval s', ntp_last_sync s', net_sent w') = sync_after re (?s, ?w)"
    using clock_task_outcome_cases [OF assms(1) inv tick, of re] by auto
  then have n: "ntp_state s' = ?n\<lparr>ntp_status := NTP_IDLE\<rparr>" "ntp_interval s' = 2 * ntp_interval (clock m)"
    by (simp_all add: sync_after_def sync_due_def Let_def)
  have ap: "\<not> ap_mode_triggered s'" using clock_task_done [OF assms(1) inv tick t(1)] assms(3) by simp
  have "clock_inv (s', w')" using clock_task_ok [OF assms(1) inv, of False re] t(1) by simp
  then have "clock_inv (s', w'\<lparr>red_led := False, green_led := x\<rparr>)" for x by (simp add: clock_inv_def flash_ok_def)
  moreover have "kiss_of_death p addr port (ntp_state s')" using assms(4) by (simp add: kiss_of_death_def n)
  ultimately show ?thesis
    using t(1) n ap \<open>clock_inv (s', w')\<close>
    by (cases "startup_led_active m")
      (simp_all add: kod_round_def recv main_iteration_def after_task_def clock_timer_callback_def Let_def)
qed

lemma kod_rounds_double:
  assumes "wf_assets a" "clock_inv (clock m, w)" "\<not> ap_mode_triggered (clock m)"
    and "kiss_of_death p addr port (ntp_state (clock m))"
  shows "\<exists>m' w'. device_run a be (m, w) (concat (replicate n (kod_round p addr port re))) = Done (m', w')
    \<and> clock_inv (clock m', w') \<and> ntp_interval (clock m') = 2 ^ n * ntp_interval (clock m)
    \<and> (0 < n \<longrightarrow> ntp_status (ntp_state (clock m')) = NTP_IDLE)"
  using assms(2-4)
proof (induction n arbitrary: m w)
  case 0
  then show ?case by simp
next
  case (Suc n)
  obtain m1 w1 where 1: "device_run a be (m, w) (kod_round p addr port re) = Done (m1, w1)" "clock_inv (clock m1, w1)"
    "\<not> ap_mode_triggered (clock m1)" "ntp_interval (clock m1) = 2 * ntp_interval (clock m)"
    "ntp_status (ntp_state (clock m1)) = NTP_IDLE" "kiss_of_death p addr port (ntp_state (clock m1))"
    using kod_round_doubles [OF assms(1) Suc.prems] by blast
  obtain m2 w2 where 2: "device_run a be (m1, w1) (concat (replicate n (kod_round p addr port re))) = Done (m2, w2)"
    "clock_inv (clock m2, w2)" "ntp_interval (clock m2) = 2 ^ n * ntp_interval (clock m1)"
    "0 < n \<longrightarrow> ntp_status (ntp_state (clock m2)) = NTP_IDLE"
    using Suc.IH [OF 1(2,3,6)] by blast
  have "device_run a be (m, w) (concat (replicate (Suc n) (kod_round p addr port re))) = Done (m2, w2)"
    using 1(1) 2(1) by (simp add: device_run_eq device.run_append)
  moreover have "n = 0 \<Longrightarrow> m2 = m1" using 2(1) by simp
  ultimately show ?case using 1(4,5) 2 by auto
qed

section \<open>Lives\<close>

text \<open>
  A sequence of lives on one device: each ends in a reset, or in a power cut between two events. A
  device that waits in configuration mode for ever ends the sequence.
\<close>

record life =
  li_boot :: boot_env
  li_led_timer :: bool
  li_start :: start_env
  li_events :: "device_event list"

fun device_lives :: "lcd_assets \<Rightarrow> life list \<Rightarrow> clock_world \<Rightarrow> clock_world outcome" where
  "device_lives a [] w = Done w"
| "device_lives a (x # xs) w = (case device_life a (li_boot x) (li_led_timer x) (li_start x) (li_events x) w of
     Done (m, w') \<Rightarrow> device_lives a xs w'
   | Reboot w' \<Rightarrow> device_lives a xs w'
   | Hang \<Rightarrow> Hang
   | Fault \<Rightarrow> Fault)"

definition life_ok :: "life \<Rightarrow> bool" where
  "life_ok x \<longleftrightarrow> boot_env_ok (li_boot x) \<and> timeouts_take_time (se_connect (li_start x)) (se_elapsed_us (li_start x))"

lemma device_inv_flash: "device_inv a be (m, w) \<Longrightarrow> flash_ok w"
  by (simp add: device_inv_def clock_inv_def)

lemma device_lives_ok:
  "wf_assets a \<Longrightarrow> \<forall>x \<in> set xs. life_ok x \<Longrightarrow> flash_ok w \<Longrightarrow>
   outcome_ok (\<exists>x \<in> set xs. config_mode_waits (li_boot x)) flash_ok (device_lives a xs w)"
proof (induction xs arbitrary: w)
  case (Cons x xs)
  have rest: "outcome_ok (\<exists>x \<in> set (x # xs). config_mode_waits (li_boot x)) flash_ok (device_lives a xs w')" if "flash_ok w'" for w'
    using Cons.IH [OF Cons.prems(1) _ that] Cons.prems(2) by (cases "device_lives a xs w'") auto
  have "outcome_ok (config_mode_waits (li_boot x)) (device_inv a (li_boot x))
      (device_life a (li_boot x) (li_led_timer x) (li_start x) (li_events x) w)"
    using device_life_ok [OF Cons.prems(1)] Cons.prems(2,3) by (simp add: life_ok_def)
  then show ?case
    using rest device_inv_flash by (cases "device_life a (li_boot x) (li_led_timer x) (li_start x) (li_events x) w") auto
qed simp

section \<open>Properties\<close>


text \<open>
  C2: The clock shows the local time. After any life of the device, once the second's timer has
  ticked and the main loop has made its turn without a reset, each of the seven panels shows, as the last
  thing drawn on a cleared screen, its character of the weekday and of the hour and minute of the local
  time (the zone's offset and the daylight saving rule applied to the time of day); only status
  icons were drawn over it, on the first panel.
\<close>

theorem clock_shows_local_time:
  assumes "wf_assets a" and "boot_env_ok be" and "timeouts_take_time (se_connect se) (se_elapsed_us se)" and "flash_ok w"
    and "n < NUM_LCDS"
  shows "case device_life a be led_timer se (events @ [TimerTick level, MainLoop re]) w of
      Done (m, w') \<Rightarrow> panel_shows a n (lcd w') (shown_digits (local_time_of (flash_config (clock m)) (tod w')) ! n)
    | Hang \<Rightarrow> config_mode_waits be
    | Reboot w' \<Rightarrow> flash_ok w'
    | Fault \<Rightarrow> False"
proof -
  let ?r = "device_life a be led_timer se events w"
  have all: "device_life a be led_timer se (events @ [TimerTick level, MainLoop re]) w
      = and_then ?r (\<lambda>mw. and_then (device_step a be mw (TimerTick level)) (main_iteration a be re))"
  proof -
    have "and_then r Done = r" for r :: "(main_state \<times> clock_world) outcome" by (cases r) simp_all
    then show ?thesis
      by (cases "main_start a be led_timer se w") (simp_all add: device_life_def device_run_eq device.run_append)
  qed
  have ok: "outcome_ok (config_mode_waits be) (device_inv a be) (device_life a be led_timer se es w)" for es
    by (rule device_life_ok [OF assms(1-4)])
  have "panel_shows a n (lcd w') (shown_digits (local_time_of (flash_config (clock m')) (tod w')) ! n)"
    if done': "device_life a be led_timer se (events @ [TimerTick level, MainLoop re]) w = Done (m', w')" for m' w'
  proof -
    obtain m1 w1 m2 w2 where 1: "?r = Done (m1, w1)" and 2: "device_step a be (m1, w1) (TimerTick level) = Done (m2, w2)"
      and 3: "main_iteration a be re (m2, w2) = Done (m', w')"
      using done' unfolding all and_then_Done by (metis surj_pair)
    have "device_inv a be (m1, w1)" using ok [of events] 1 by simp
    then show ?thesis by (rule tick_turn_shows [OF _ 2 3 assms(5)])
  qed
  then show ?thesis using ok [of "events @ [TimerTick level, MainLoop re]"]
    by (auto split: outcome.split)
qed

text \<open>
  C20: An error survives the reset it causes. Whatever errors \<open>fatal_reset\<close> is given, the next boot
  (by the watchdog, the button released) shows the watchdog's icon of that error and the error's own
  icon on the first panel, keeps both in the state, counts the boot, and clears the stored errors, so that
  a further reset does not show them again; the configuration is that of the flash.
\<close>

theorem reset_error_shown_at_boot:
  assumes "wf_assets a" and "clock_inv (state, w)" and "magic_marker (flash w) = CONFIG_MAGIC"
    and "be_watchdog_caused_reboot be" and "\<not> factory_reset_held be"
  shows "\<exists>w' s v before. fatal_reset a state ne fe w = (Reboot w' :: unit outcome)
    \<and> clock_init a be (reset_world w') = Done (s, v)
    \<and> watchdog_reset_error s = error_shown ne fe \<and> ntp_reset_error s = ne \<and> wifi_reset_error s = fe
    \<and> flash_config s = flash w \<and> persistent v = (persistent w)\<lparr>ps_boot_count := ps_boot_count (persistent w) + 1,
        ps_ntp_error := NTP_OK, ps_wifi_error := WIFI_OK\<rparr>
    \<and> received 0 (lcd v) = before @ status_icon_bytes a (error_shown ne fe) ne fe"
proof -
  obtain w' where w': "fatal_reset a state ne fe w = (Reboot w' :: unit outcome)" "flash w' = flash w"
    "persistent w' = (persistent w)\<lparr>ps_ntp_error := ne, ps_wifi_error := fe\<rparr>"
    using fatal_reset_persistent [OF assms(1,2)] by blast
  have "flash_ok w'" using clock_inv_parts(4) [OF assms(2)] w'(2) by (simp add: flash_ok_def)
  from warm_boot [OF assms(1) this assms(4,5)] show ?thesis using w' assms(3) by auto
qed

text \<open>
  C21: A factory reset leads to reconfiguration. If the button is held through the start-up, the boot
  ends in a reset with the flash's magic marker erased, before the network is used; the next boot with
  the button released then runs configuration mode only. That boot never reaches the running clock: it
  waits for a form for ever, or ends in a reset with the flash as it was or with a valid configuration.
\<close>

theorem factory_reset_reconfigures:
  assumes "wf_assets a" and "flash_ok w" and "factory_reset_held be" and "\<not> factory_reset_held be'" and "boot_env_ok be'"
  shows "\<exists>w'. main_start a be led se w = Reboot w' \<and> magic_marker (flash w') = 0xffffffff
    \<and> (case main_start a be' led' se' w' of
         Done mw \<Rightarrow> False
       | Reboot w'' \<Rightarrow> flash w'' = flash w' \<or> magic_marker (flash w'') = CONFIG_MAGIC \<and> valid_config (flash w'')
       | Hang \<Rightarrow> config_mode_waits be'
       | Fault \<Rightarrow> False)"
proof -
  obtain w' where 1: "clock_init a be (reset_world w) = Reboot w'" "magic_marker (flash w') = 0xffffffff"
    using factory_boot [OF assms(1-3)] by blast
  have m: "magic_marker (flash w') \<noteq> CONFIG_MAGIC" using 1(2) by (simp add: CONFIG_MAGIC_value)
  then have ok: "flash_ok w'" by (simp add: flash_ok_def)
  obtain v where 2: "clock_init a be' (reset_world w') = run_access_point be' None False v" "flash v = flash w'"
    using unconfigured_boot [OF assms(1) ok assms(4) m] by blast
  have "flash_ok v" using ok 2(2) by (simp add: flash_ok_def)
  then have "outcome_ok (config_mode_waits be') (\<lambda>_. False)
      (run_access_point be' None False v :: (clock_state_t \<times> clock_world) outcome)"
    by (intro run_access_point_ok [OF assms(5)]) simp_all
  then show ?thesis
    using run_access_point_flash [OF assms(5), of None False v] 1 2
    by (cases "run_access_point be' None False v :: (clock_state_t \<times> clock_world) outcome")
      (auto simp: main_start_def)
qed


section \<open>Examples\<close>

definition sample_boot :: boot_env where
  "sample_boot = \<lparr>be_button = (\<lambda>_. True), be_watchdog_caused_reboot = True, be_ap_env = sample_ap_env,
     be_ap_start = sample_ap_start, be_template = ''<p>'', be_ap_events = (\<lambda>_. [])\<rparr>"

definition sample_start :: start_env where
  "sample_start = \<lparr>se_arch_init = 0, se_connect = (\<lambda>_. 0), se_elapsed_us = (\<lambda>_. 0), se_udp_new = True,
     se_request = sample_request 1000, se_clock_timer = True, se_backlight_timer = True\<rparr>"

lemma sample_boot_ok: "boot_env_ok sample_boot" "\<not> factory_reset_held sample_boot"
  using sample_ap_ok exI [of "\<lambda>i. i < (30 :: nat)" 0]
  by (simp_all add: boot_env_ok_def sample_boot_def sample_ap_env_def factory_reset_held_def FACTORY_seconds list_all_iff)

lemma sample_start_ok: "timeouts_take_time (se_connect sample_start) (se_elapsed_us sample_start)"
  by (simp add: timeouts_take_time_def sample_start_def PICO_ERROR_TIMEOUT_def)

definition sample_stored :: clock_world where
  "sample_stored = sample_world\<lparr>flash := sample_config_valid\<lparr>magic_marker := CONFIG_MAGIC\<rparr>\<rparr>"

lemma sample_stored_ok: "flash_ok sample_stored"
  using sample_config_is_valid by (simp add: flash_ok_def sample_stored_def)


theorem reset_error_shown_at_boot_witness:
  "\<exists>w' s v. fatal_reset sample_assets sample_clock NTP_DNS_ERROR WIFI_OK sample_stored = (Reboot w' :: unit outcome)
    \<and> clock_init sample_assets sample_boot (reset_world w') = Done (s, v) \<and> watchdog_reset_error s = WATCHDOG_NTP
    \<and> ntp_reset_error s = NTP_DNS_ERROR"
proof -
  have inv: "clock_inv (sample_clock, sample_stored)"
    using sample_clock_inv sample_stored_ok by (simp add: clock_inv_def sample_stored_def)
  have m: "magic_marker (flash sample_stored) = CONFIG_MAGIC" by (simp add: sample_stored_def)
  have b: "be_watchdog_caused_reboot sample_boot" by (simp add: sample_boot_def)
  from reset_error_shown_at_boot [OF sample_assets_wf inv m b sample_boot_ok(2), of NTP_DNS_ERROR WIFI_OK]
  show ?thesis by (auto simp: error_shown_def)
qed

theorem factory_reset_reconfigures_witness:
  "\<exists>w'. main_start sample_assets (sample_boot\<lparr>be_button := \<lambda>_. False\<rparr>) True sample_start sample_stored = Reboot w'
    \<and> magic_marker (flash w') = 0xffffffff \<and> (\<forall>mw. main_start sample_assets sample_boot True sample_start w' \<noteq> Done mw)"
proof -
  have held: "factory_reset_held (sample_boot\<lparr>be_button := \<lambda>_. False\<rparr>)" by (simp add: factory_reset_held_def list_all_iff)
  from factory_reset_reconfigures [OF sample_assets_wf sample_stored_ok held sample_boot_ok(2,1),
      where led = True and led' = True and se = sample_start and se' = sample_start]
  show ?thesis by fastforce
qed


text \<open>A start-up with a network that answers: the clock runs with a request pending.\<close>

lemma clock_start_pending:
  assumes "wf_assets a" "clock_inv (state, w)" "se_connect e 0 = 0" "se_arch_init e = 0" "se_udp_new e"
    "se_clock_timer e" "se_backlight_timer e"
    "re_gethostbyname (se_request e) (c_str (ntp_server (flash_config state))) = (ERR_INPROGRESS, None)"
    "re_now_ms (se_request e) \<noteq> 0"
  shows "\<exists>s v. clock_start a e state w = Done (s, v) \<and> ntp_status (ntp_state s) = NTP_PENDING
    \<and> request_start_ms (ntp_state s) = re_now_ms (se_request e) \<and> flash_config s = flash_config state
    \<and> ap_mode_triggered s = ap_mode_triggered state"
proof -
  note p = clock_inv_parts(1) [OF assms(2)] panels_ok_0 [OF clock_inv_parts(2) [OF assms(2)]]
  have c: "connect_to_wifi (se_arch_init e) (se_connect e) (se_elapsed_us e) b = Some (WIFI_OK, True, 1)" for b
    using assms(3,4) by (simp add: connect_to_wifi_def connect_loop.simps)
  obtain g1 where g1: "(if cold_boot state then lcd_print_line (text_font a) (lcd_states state ! 0) GREEN LCD_MSG_WIFI_OK (lcd w)
      else Some (lcd w)) = Some g1" "lcd_inv g1"
    using print_line_ok [OF assms(1) p] p(1) by (cases "cold_boot state") auto
  obtain g2 where g2: "lcd_update_icons (icon_bits a) (lcd_states state ! 0) (watchdog_reset_error state) NTP_OK WIFI_OK g1 = Some g2"
    using update_icons_ok [OF assms(1) g1(2) p(2)] by blast
  let ?s = "state\<lparr>wifi_initialized := True\<rparr>"
  have icons: "start_icons a WIFI_OK ?s w = Done (?s, w\<lparr>lcd := g2\<rparr>)"
    using g1(1) g2 by (auto simp: start_icons_def split: if_split_asm)
  have request: "clock_request a (se_request e) (s, v)
      = Done (s\<lparr>ntp_state := fst (ntp_atomic_status (ntp_state s) NTP_PENDING NTP_OK (re_now_ms (se_request e)))\<rparr>, v)"
    if "flash_config s = flash_config state" for s v
    using assms(8) that by (simp add: clock_request_def ntp_request_async_def err_defs Let_def)
  show ?thesis
    using assms(5-7,9) by (simp add: clock_start_def c icons ntp_init_def request Let_def ntp_state_zero_def)
qed

lemma sample_main_start:
  obtains s1 v1 where "main_start sample_assets sample_boot True sample_start sample_stored
      = Done (\<lparr>clock = s1, startup_led_active = True\<rparr>, v1)"
    "ntp_status (ntp_state s1) = NTP_PENDING" "request_start_ms (ntp_state s1) = 1000" "flash_config s1 = flash sample_stored"
    "\<not> ap_mode_triggered s1"
proof -
  have m: "magic_marker (flash sample_stored) = CONFIG_MAGIC" "be_watchdog_caused_reboot sample_boot"
    by (simp_all add: sample_stored_def sample_boot_def)
  obtain s v where i: "clock_init sample_assets sample_boot (reset_world sample_stored) = Done (s, v)" "clock_inv (s, v)"
    "flash_config s = flash sample_stored" "\<not> ap_mode_triggered s"
    using warm_boot [OF sample_assets_wf sample_stored_ok m(2) sample_boot_ok(2) m(1)] by blast
  have "clock_inv (s, snd (init_diagnostic_led True v))"
    using i(2) by (simp add: init_diagnostic_led_def clock_inv_def flash_ok_def)
  from clock_start_pending [OF sample_assets_wf this, of sample_start]
  obtain s1 v1 where st: "clock_start sample_assets sample_start s (snd (init_diagnostic_led True v)) = Done (s1, v1)"
    "ntp_status (ntp_state s1) = NTP_PENDING" "request_start_ms (ntp_state s1) = 1000" "flash_config s1 = flash_config s"
    "\<not> ap_mode_triggered s1"
    using i(4) by (auto simp: sample_start_def sample_request_def)
  have "main_start sample_assets sample_boot True sample_start sample_stored
      = Done (\<lparr>clock = s1, startup_led_active = True\<rparr>, v1)"
    using i(1) st(1) by (simp add: main_start_def init_diagnostic_led_def)
  then show thesis using that st(2-5) i(3) by simp
qed

theorem clock_shows_local_time_witness:
  "\<exists>m w'. device_life sample_assets sample_boot True sample_start ([] @ [TimerTick True, MainLoop (sample_request 2000)])
      sample_stored = Done (m, w')
    \<and> panel_shows sample_assets 3 (lcd w') (shown_digits (local_time_of (flash_config (clock m)) (tod w')) ! 3)"
proof -
  let ?life = "device_life sample_assets sample_boot True sample_start ([] @ [TimerTick True, MainLoop (sample_request 2000)]) sample_stored"
  obtain s1 v1 where start: "main_start sample_assets sample_boot True sample_start sample_stored
      = Done (\<lparr>clock = s1, startup_led_active = True\<rparr>, v1)"
    and st: "ntp_status (ntp_state s1) = NTP_PENDING" "request_start_ms (ntp_state s1) = 1000"
      "flash_config s1 = flash sample_stored" "\<not> ap_mode_triggered s1"
    by (rule sample_main_start)
  have "clock_inv (s1, v1)"
    using main_start_device_inv [OF sample_assets_wf sample_boot_ok(1) sample_start_ok sample_stored_ok, of True] start
    by (simp add: device_inv_def)
  then have inv: "clock_inv (clock_timer_callback True s1 v1)" by (rule clock_timer_callback_inv)
  obtain s2 v2 where tick: "clock_timer_callback True s1 v1 = (s2, v2)" "clock_tick_updated s2"
      "ntp_state s2 = ntp_state s1" "flash_config s2 = flash sample_stored" "\<not> ap_mode_triggered s2"
    using st(3,4) by (simp add: clock_timer_callback_def)
  have "reset_reason (sample_request 2000) (s2, v2) = None"
    using st(1,2) tick(3,4) by (simp add: reset_reason_def sample_request_def sample_stored_def sample_config_valid_def sync_due_def)
  then obtain s3 v3 where task: "clock_task sample_assets (sample_request 2000) (s2, v2) = Done (s3, v3)"
    using clock_task_outcome_cases [OF sample_assets_wf inv [unfolded tick(1)] tick(2), of "sample_request 2000"] by auto
  have "\<not> ap_mode_triggered s3" using clock_task_done [OF sample_assets_wf inv [unfolded tick(1)] tick(2) task] tick(5) by simp
  then have "\<exists>mw. ?life = Done mw"
    using start tick(1) task by (simp add: device_life_def main_iteration_def after_task_def)
  then obtain m' w' where "?life = Done (m', w')" by auto
  then show ?thesis
    using clock_shows_local_time [OF sample_assets_wf sample_boot_ok(1) sample_start_ok sample_stored_ok,
        of 3 True "[]" True "sample_request 2000"] by (auto simp: NUM_LCDS_def)
qed

end
