(* ===== verification/Preemption.thy ===== *)
theory Preemption
  imports Device
begin

text \<open>
  The task of src/src/clock.c under interruption: the callbacks of the timers and of the network stack run
  in interrupt context, so they may come between any two accesses that \<open>clock_task\<close> makes to the state
  they share with it. The task is cut at these accesses into phases; it is shown to be
  \<open>clock_task\<close> when nothing interrupts, and its properties are shown for every interleaving.
\<close>

section \<open>The phases of the task\<close>

text \<open>
  A phase holds the local variables that later phases read: the snapshot of the NTP client,
  \<open>utc_now\<close>, and while the digits are drawn the characters wanted and the loop's index. A digit
  is one phase: the panel's bus is not touched by a callback. \<open>RequestStatus\<close>, \<open>Resolve\<close> and
  \<open>SendRequest\<close> are \<open>ntp_request_async\<close>; the last two each hold the lock of the stack.
\<close>

datatype phase = Ready | TakeTime ntp_atomic_state_t | CopyTime ntp_atomic_state_t | DateSync ntp_atomic_state_t
  | TestTick ntp_atomic_state_t | ReadTime ntp_atomic_state_t | LocalTime ntp_atomic_state_t int
  | DrawDigit ntp_atomic_state_t int "char list" nat | HandleStatus ntp_atomic_state_t int
  | AckStatus ntp_atomic_state_t int | RequestDue ntp_atomic_state_t int
  | RequestStatus int | Resolve int | SendRequest int | ClearFirst int | Returned

definition local_digits :: "clock_state_t \<Rightarrow> int \<Rightarrow> (clock_state_t \<times> char list) option" where
  "local_digits state utc_now = do {
     local_epoch \<leftarrow> calculate_local_time utc_now (flash_config state);
     let state = (if local_epoch > last_watchdog_error_time state + WATCHDOG_ICON_INTERVAL
       then state\<lparr>watchdog_reset_error := WATCHDOG_OK\<rparr> else state);
     lcd_digits \<leftarrow> lcd_digits_of (gmtime_r local_epoch);
     Some (state, lcd_digits) }"

definition idle_status :: "clock_state_t \<Rightarrow> clock_state_t" where
  "idle_status s = s\<lparr>ntp_state := fst (ntp_atomic_status (ntp_state s) NTP_IDLE NTP_NULL_ERROR 0)\<rparr>"

fun task_step ::
  "lcd_assets \<Rightarrow> request_env \<Rightarrow> phase \<times> clock_state_t \<times> clock_world \<Rightarrow> (phase \<times> clock_state_t \<times> clock_world) outcome" where
  "task_step a re (Ready, s, w) =
     Done (TakeTime (snd (ntp_atomic_status (ntp_state s) NTP_NULL_STATUS NTP_NULL_ERROR 0)), s, w)"
| "task_step a re (TakeTime snap, s, w) =
     (if ntp_time_updated s then Done (CopyTime snap, s\<lparr>ntp_time_updated := False\<rparr>, w) else Done (TestTick snap, s, w))"
| "task_step a re (CopyTime snap, s, w) = Done (DateSync snap, s, set_time_of_day s w)"
| "task_step a re (DateSync snap, s, w) = Done (TestTick snap, s\<lparr>ntp_last_sync := tod w\<rparr>, w)"
| "task_step a re (TestTick snap, s, w) =
     (if clock_tick_updated s then Done (ReadTime snap, s\<lparr>clock_tick_updated := False\<rparr>, w) else Done (Returned, s, w))"
| "task_step a re (ReadTime snap, s, w) = Done (LocalTime snap (tod w), s, w)"
| "task_step a re (LocalTime snap utc_now, s, w) = or_fault (local_digits s utc_now) (\<lambda>(s, lcd_digits).
     Done (if list_ex (digit_changed s lcd_digits) [0..<NUM_LCDS] then DrawDigit snap utc_now lcd_digits 0
       else HandleStatus snap utc_now, s, w))"
| "task_step a re (DrawDigit snap utc_now lcd_digits ii, s, w) =
     (if ii < NUM_LCDS then or_fault (draw_digit a (as_error snap) lcd_digits ii (s, w))
        (\<lambda>sw. Done (DrawDigit snap utc_now lcd_digits (Suc ii), sw))
      else Done (HandleStatus snap utc_now, s, w))"
| "task_step a re (HandleStatus snap utc_now, s, w) =
     (if as_status snap = NTP_PENDING then
        (if re_now_ms re - as_request_start_ms snap > ntp_timeout (flash_config s)
         then fatal_reset a s NTP_TIMEOUT_ERROR WIFI_OK w else Done (RequestDue snap utc_now, s, w))
      else if as_status snap = NTP_FAILED then fatal_reset a s (as_error snap) WIFI_OK w
      else if as_status snap = NTP_KOD then Done (AckStatus snap utc_now, s\<lparr>ntp_interval := ntp_interval s * 2\<rparr>, w)
      else if as_status snap = NTP_SUCCESS then Done (AckStatus snap utc_now, s, w)
      else Done (RequestDue snap utc_now, s, w))"
| "task_step a re (AckStatus snap utc_now, s, w) = Done (RequestDue snap utc_now, idle_status s, w)"
| "task_step a re (RequestDue snap utc_now, s, w) =
     (if as_status snap = NTP_IDLE \<and> utc_now - ntp_last_sync s \<ge> uint (ntp_interval s)
      then Done (RequestStatus utc_now, s\<lparr>ntp_last_sync := utc_now\<rparr>, w) else Done (ClearFirst utc_now, s, w))"
| "task_step a re (RequestStatus utc_now, s, w) =
     Done (Resolve utc_now, s\<lparr>ntp_state := fst (ntp_atomic_status (ntp_state s) NTP_PENDING NTP_OK (re_now_ms re))\<rparr>, w)"
| "task_step a re (Resolve utc_now, s, w) =
     (let (dns_status, ipaddr) = re_gethostbyname re (c_str (ntp_server (flash_config s)));
          s = (case ipaddr of None \<Rightarrow> s | Some ip \<Rightarrow> s\<lparr>ntp_state := (ntp_state s)\<lparr>ntp_server_address := ip\<rparr>\<rparr>)
      in if dns_status = ERR_OK then Done (SendRequest utc_now, s, w)
         else if dns_status \<noteq> ERR_INPROGRESS then fatal_reset a s NTP_DNS_ERROR WIFI_OK w
         else Done (ClearFirst utc_now, s, w))"
| "task_step a re (SendRequest utc_now, s, w) =
     (let (ntp, sent) = ntp_start_udp_request (re_pbuf_alloc re) (re_udp_sendto re) (ntp_state s)
      in Done (ClearFirst utc_now, s\<lparr>ntp_state := ntp\<rparr>, w\<lparr>net_sent := net_sent w @ sent\<rparr>))"
| "task_step a re (ClearFirst utc_now, s, w) = Done (Returned, s\<lparr>first_clock_tick := False\<rparr>, w)"
| "task_step a re (Returned, s, w) = Done (Returned, s, w)"

fun task_steps ::
  "lcd_assets \<Rightarrow> request_env \<Rightarrow> nat \<Rightarrow> phase \<times> clock_state_t \<times> clock_world \<Rightarrow> (phase \<times> clock_state_t \<times> clock_world) outcome" where
  "task_steps a re 0 x = Done x"
| "task_steps a re (Suc n) x = and_then (task_step a re x) (task_steps a re n)"

lemma task_steps_returned [simp]: "task_steps a re n (Returned, s, w) = Done (Returned, s, w)"
  by (induction n) simp_all

lemma and_then_assoc: "and_then (and_then r f) g = and_then r (\<lambda>x. and_then (f x) g)"
  by (cases r) simp_all

lemma or_fault_and_then: "and_then (or_fault r f) g = or_fault r (\<lambda>x. and_then (f x) g)"
  by (cases r) simp_all

lemma fatal_reset_and_then:
  "and_then (fatal_reset a s ne fe w :: 'b outcome) g = (fatal_reset a s ne fe w :: 'c outcome)"
  by (simp add: fatal_reset_def or_fault_and_then)

lemma or_fault_bind: "or_fault (Option.bind r f) g = or_fault r (\<lambda>x. or_fault (f x) g)"
  by (cases r) simp_all

lemma task_steps_pos: "0 < n \<Longrightarrow> task_steps a re n x = and_then (task_step a re x) (task_steps a re (n - 1))"
  by (cases n) simp_all

text \<open>The steps from a phase on, as the operations of the model that they cut.\<close>

abbreviation task_end :: "clock_state_t \<times> clock_world \<Rightarrow> (phase \<times> clock_state_t \<times> clock_world) outcome" where
  "task_end sw \<equiv> Done (Returned, (fst sw)\<lparr>first_clock_tick := False\<rparr>, snd sw)"

lemma steps_request:
  assumes "4 \<le> n"
  shows "task_steps a re n (RequestStatus utc_now, sw) = and_then (clock_request a re sw) task_end"
  using assms by (cases sw) (auto simp: task_steps_pos clock_request_def ntp_request_async_def Let_def case_prod_unfold
      fatal_reset_and_then split: option.split)

lemma steps_due:
  assumes "5 \<le> n"
  shows "task_steps a re n (RequestDue snap utc_now, sw) = and_then (request_if_due a re snap utc_now sw) task_end"
proof -
  have "task_steps a re (n - 1) (ClearFirst utc_now, s, w) = task_end (s, w)" for s w
    using assms by (simp add: task_steps_pos)
  then show ?thesis
    using assms by (cases sw) (simp add: task_steps_pos [of n] request_if_due_def steps_request)
qed

lemma steps_status:
  assumes "7 \<le> n"
  shows "task_steps a re n (HandleStatus snap utc_now, sw) = and_then (handle_ntp_status a (re_now_ms re) snap sw)
    (\<lambda>sw. and_then (request_if_due a re snap utc_now sw) task_end)"
proof -
  have "task_steps a re (n - 1) (AckStatus snap utc_now, s, w) = and_then (request_if_due a re snap utc_now (idle_status s, w)) task_end"
    for s w using assms task_steps_pos [of "n - 1" a re "(AckStatus snap utc_now, s, w)"] by (simp add: steps_due)
  then show ?thesis
    using assms by (cases sw) (simp add: task_steps_pos [of n] handle_ntp_status_def fatal_reset_and_then steps_due idle_status_def)
qed

lemma steps_draw:
  "ii + k = NUM_LCDS \<Longrightarrow> task_steps a re (Suc k + n) (DrawDigit snap utc_now lcd_digits ii, s, w)
     = or_fault (fold_opt (draw_digit a (as_error snap) lcd_digits) [ii..<NUM_LCDS] (s, w))
        (\<lambda>sw. task_steps a re n (HandleStatus snap utc_now, sw))"
proof (induction k arbitrary: ii s w)
  case 0
  then show ?case by simp
next
  case (Suc k)
  then have "ii < NUM_LCDS" "[ii..<NUM_LCDS] = ii # [Suc ii..<NUM_LCDS]" by (simp_all add: upt_conv_Cons)
  then show ?case using Suc by (cases "draw_digit a (as_error snap) lcd_digits ii (s, w)") (auto simp: or_fault_bind)
qed

lemma update_display_local_digits:
  "update_display a err utc_now (s, w) = Option.bind (local_digits s utc_now) (\<lambda>(s, lcd_digits).
     if list_ex (digit_changed s lcd_digits) [0..<NUM_LCDS]
     then fold_opt (draw_digit a err lcd_digits) [0..<NUM_LCDS] (s, w) else Some (s, w))"
  by (cases "calculate_local_time utc_now (flash_config s)")
    (auto simp: update_display_def local_digits_def Let_def bind_assoc split: bind_split)

lemma steps_local:
  assumes "16 \<le> n"
  shows "task_steps a re n (LocalTime snap utc_now, sw) = or_fault (update_display a (as_error snap) utc_now sw)
     (\<lambda>sw. and_then (handle_ntp_status a (re_now_ms re) snap sw) (\<lambda>sw. and_then (request_if_due a re snap utc_now sw) task_end))"
proof -
  have draw: "task_steps a re (n - 1) (DrawDigit snap utc_now d 0, s, w)
      = or_fault (fold_opt (draw_digit a (as_error snap) d) [0..<NUM_LCDS] (s, w))
        (\<lambda>sw. task_steps a re (n - 9) (HandleStatus snap utc_now, sw))" for d s w
    using steps_draw [of 0 NUM_LCDS a re "n - 9" snap utc_now d s w] assms by (simp add: NUM_LCDS_def)
  obtain s w where sw: "sw = (s, w)" by (cases sw)
  show ?thesis
    using assms by (cases "local_digits s utc_now") (auto simp: task_steps_pos [of n] draw [simplified] steps_status
        update_display_local_digits sw case_prod_unfold simp del: list_ex_iff)
qed

text \<open>The longest path: seven phases before the digits, eight for them, seven after.\<close>

lemma task_steps_eq: "task_steps a re 22 (Ready, s, w) = and_then (clock_task a re (s, w)) (\<lambda>sw. Done (Returned, sw))"
  by (cases "ntp_time_updated s"; cases "clock_tick_updated s")
    (simp_all add: task_steps_pos [of 22] task_steps_pos [of 21] task_steps_pos [of 20] task_steps_pos [of 19]
      task_steps_pos [of 18] task_steps_pos [of 17] clock_task_def process_ntp_time_def Let_def and_then_assoc
      or_fault_and_then case_prod_unfold set_time_of_day_def steps_local)

section \<open>Interleaving with the callbacks\<close>

text \<open>The NTP client accepts a packet when it calls its time handler.\<close>

definition accepted :: "main_state \<Rightarrow> device_event \<Rightarrow> bool" where
  "accepted m e = (case e of
     NtpPacket p addr port \<Rightarrow> snd (ntp_recv_callback (\<lambda>_ _. True) p addr port (ntp_state (clock m), False))
   | _ \<Rightarrow> False)"

text \<open>
  The seconds since the last accepted reply, if there was one, kept beside the state: they count on with
  the time of day.
\<close>

definition reply_age :: "main_state \<Rightarrow> device_event \<Rightarrow> nat option \<Rightarrow> nat option" where
  "reply_age m e age = (if accepted m e then Some 0
     else case e of Elapse n \<Rightarrow> map_option (\<lambda>k. k + n) age | _ \<Rightarrow> age)"

text \<open>
  One step: a callback or a second passing at any phase, one phase of the task with whatever the stack
  answers to it, or the rest of the loop's turn.
\<close>

inductive preempt ::
  "lcd_assets \<Rightarrow> boot_env \<Rightarrow> phase \<times> main_state \<times> clock_world \<times> nat option
   \<Rightarrow> phase \<times> main_state \<times> clock_world \<times> nat option \<Rightarrow> bool"
  for a :: lcd_assets and be :: boot_env where
  interrupt: "(\<And>re. e \<noteq> MainLoop re) \<Longrightarrow> device_step a be (m, w) e = Done (m', w')
    \<Longrightarrow> preempt a be (ph, m, w, age) (ph, m', w', reply_age m e age)"
| task: "task_step a re (ph, clock m, w) = Done (ph', s', w')
    \<Longrightarrow> preempt a be (ph, m, w, age) (ph', m\<lparr>clock := s'\<rparr>, w', age)"
| turn: "after_task be m (clock m, w) = Done (m', w') \<Longrightarrow> preempt a be (Returned, m, w, age) (Ready, m', w', age)"

text \<open>What the task has read and done when it is at a phase: \<open>utc_now\<close>, and whether the digits are drawn.\<close>

fun utc_now_of :: "phase \<Rightarrow> int option" where
  "utc_now_of (LocalTime snap t) = Some t"
| "utc_now_of (DrawDigit snap t d ii) = Some t"
| "utc_now_of (HandleStatus snap t) = Some t"
| "utc_now_of (AckStatus snap t) = Some t"
| "utc_now_of (RequestDue snap t) = Some t"
| "utc_now_of (RequestStatus t) = Some t"
| "utc_now_of (Resolve t) = Some t"
| "utc_now_of (SendRequest t) = Some t"
| "utc_now_of (ClearFirst t) = Some t"
| "utc_now_of _ = None"

fun digits_drawn :: "phase \<Rightarrow> bool" where
  "digits_drawn (HandleStatus snap t) = True"
| "digits_drawn (AckStatus snap t) = True"
| "digits_drawn (RequestDue snap t) = True"
| "digits_drawn (RequestStatus t) = True"
| "digits_drawn (Resolve t) = True"
| "digits_drawn (SendRequest t) = True"
| "digits_drawn (ClearFirst t) = True"
| "digits_drawn _ = False"

text \<open>The first \<open>k\<close> panels show the characters of \<open>digits\<close>, and the state records them.\<close>

definition drawn :: "lcd_assets \<Rightarrow> nat \<Rightarrow> char list \<Rightarrow> clock_state_t \<times> clock_world \<Rightarrow> bool" where
  "drawn a k digits = (\<lambda>(s, w). \<forall>n < k. current_lcd_digits s ! n = digits ! n \<and> panel_shows a n (lcd w) (digits ! n))"

definition digits_at :: "clock_state_t \<Rightarrow> int \<Rightarrow> char list" where
  "digits_at s t = shown_digits (local_time_of (flash_config s) t) @ [NUL]"

definition phase_ok :: "lcd_assets \<Rightarrow> phase \<Rightarrow> clock_state_t \<times> clock_world \<Rightarrow> bool" where
  "phase_ok a ph = (\<lambda>(s, w).
     (case utc_now_of ph of None \<Rightarrow> True
      | Some t \<Rightarrow> 0 \<le> t \<and> t \<le> tod w \<and> (digits_drawn ph \<longrightarrow> drawn a NUM_LCDS (digits_at s t) (s, w)))
     \<and> (case ph of DrawDigit snap t d ii \<Rightarrow> d = digits_at s t \<and> ii \<le> NUM_LCDS \<and> drawn a ii d (s, w) | _ \<Rightarrow> True))"

text \<open>The time of an accepted reply is waiting, being copied, or the time of day up to the delay of the copy.\<close>

definition sync_kept :: "phase \<Rightarrow> clock_state_t \<times> clock_world \<Rightarrow> nat option \<Rightarrow> bool" where
  "sync_kept ph = (\<lambda>(s, w) age. case age of None \<Rightarrow> True
     | Some k \<Rightarrow> ntp_time_updated s \<or> (\<exists>snap. ph = CopyTime snap) \<or> (\<exists>d \<le> k. tod w = ntp_time s + int (k - d)))"

definition preempt_inv :: "lcd_assets \<Rightarrow> boot_env \<Rightarrow> phase \<times> main_state \<times> clock_world \<times> nat option \<Rightarrow> bool" where
  "preempt_inv a be = (\<lambda>(ph, m, w, age). device_inv a be (m, w) \<and> phase_ok a ph (clock m, w)
     \<and> sync_kept ph (clock m, w) age)"

lemma ntp_recv_callback_accepts:
  "snd (ntp_recv_callback (\<lambda>_ _. True) p addr port (ns, False))
    \<Longrightarrow> ntp_time_updated (snd (ntp_recv_callback ntp_timer_callback p addr port (ns, s)))"
  "\<not> snd (ntp_recv_callback (\<lambda>_ _. True) p addr port (ns, False))
    \<Longrightarrow> snd (ntp_recv_callback ntp_timer_callback p addr port (ns, s)) = s"
  by (auto simp: ntp_recv_callback_def ntp_timer_callback_def Let_def split: if_split_asm)

text \<open>What a callback leaves alone.\<close>

lemma interrupt_fields:
  assumes "\<And>re. e \<noteq> MainLoop re" "device_step a be (m, w) e = Done (m', w')" "lcd_inv (lcd w)"
  shows "current_lcd_digits (clock m') = current_lcd_digits (clock m) \<and> flash_config (clock m') = flash_config (clock m)"
    and "n < NUM_LCDS \<Longrightarrow> received n (lcd w') = received n (lcd w)"
    and "accepted m e \<Longrightarrow> ntp_time_updated (clock m')"
    and "\<not> accepted m e \<Longrightarrow> ntp_time_updated (clock m') = ntp_time_updated (clock m) \<and> ntp_time (clock m') = ntp_time (clock m)"
    and "tod w' = tod w + (case e of Elapse n \<Rightarrow> int n | _ \<Rightarrow> 0)"
proof -
  have bl: "received n (lcd_set_backlight l level (lcd w)) = received n (lcd w)" if "n < NUM_LCDS" for l level n
    using lcd_set_backlight_draws [OF lcd_inv_linebuf [OF assms(3)], of 0 l level] received_delivers [OF assms(3) _ that]
    by (auto simp: draws_def)
  show "current_lcd_digits (clock m') = current_lcd_digits (clock m) \<and> flash_config (clock m') = flash_config (clock m)"
    using assms(2) by (cases e) (auto simp: assms(1) clock_timer_callback_def backlight_timer_callback_def Let_def
        split: if_split_asm prod.split_asm dest: ntp_recv_callback_clock)
  show "n < NUM_LCDS \<Longrightarrow> received n (lcd w') = received n (lcd w)"
  proof (cases e)
    case (BacklightTick raw)
    then show "n < NUM_LCDS \<Longrightarrow> received n (lcd w') = received n (lcd w)"
      using assms(2) bl by (auto simp: backlight_timer_callback_def Let_def)
  qed (use assms(1,2) in \<open>auto simp: clock_timer_callback_def Let_def startup_led_callback_def
      split: if_split_asm prod.split_asm\<close>)
  show "accepted m e \<Longrightarrow> ntp_time_updated (clock m')"
    using assms(2) by (cases e) (auto simp: accepted_def ntp_recv_callback_accepts Let_def case_prod_unfold)
  show "\<not> accepted m e \<Longrightarrow> ntp_time_updated (clock m') = ntp_time_updated (clock m) \<and> ntp_time (clock m') = ntp_time (clock m)"
    using assms(2) by (cases e) (auto simp: assms(1) accepted_def ntp_recv_callback_accepts clock_timer_callback_def
        backlight_timer_callback_def Let_def case_prod_unfold split: if_split_asm)
  show "tod w' = tod w + (case e of Elapse n \<Rightarrow> int n | _ \<Rightarrow> 0)"
    using assms(2) by (cases e) (auto simp: assms(1) clock_timer_callback_def backlight_timer_callback_def Let_def
        startup_led_callback_def split: if_split_asm prod.split_asm)
qed

text \<open>What the display and a phase's facts rest on.\<close>

definition display_kept :: "clock_state_t \<times> clock_world \<Rightarrow> clock_state_t \<times> clock_world \<Rightarrow> bool" where
  "display_kept = (\<lambda>(s, w) (s', w'). current_lcd_digits s' = current_lcd_digits s \<and> flash_config s' = flash_config s
     \<and> tod w \<le> tod w' \<and> (\<forall>n < NUM_LCDS. received n (lcd w') = received n (lcd w)))"

lemma display_kept_drawn:
  "display_kept (s, w) (s', w') \<Longrightarrow> k \<le> NUM_LCDS \<Longrightarrow> drawn a k d (s, w) \<Longrightarrow> drawn a k d (s', w')"
  by (auto simp: display_kept_def drawn_def intro: panel_shows_same)

lemma display_kept_digits: "display_kept (s, w) (s', w') \<Longrightarrow> digits_at s' = digits_at s"
  by (auto simp: display_kept_def digits_at_def intro!: ext)

lemma phase_ok_kept:
  assumes "phase_ok a ph (s, w)" and kept: "display_kept (s, w) (s', w')"
  shows "phase_ok a ph (s', w')"
proof -
  have "tod w \<le> tod w'" using kept by (simp add: display_kept_def)
  moreover note display_kept_digits [OF kept] display_kept_drawn [OF kept order_refl]
  ultimately have "case utc_now_of ph of None \<Rightarrow> True
      | Some t \<Rightarrow> 0 \<le> t \<and> t \<le> tod w' \<and> (digits_drawn ph \<longrightarrow> drawn a NUM_LCDS (digits_at s' t) (s', w'))"
    using assms(1) by (auto simp: phase_ok_def split: option.splits)
  moreover have "d = digits_at s' t \<and> ii \<le> NUM_LCDS \<and> drawn a ii d (s', w')" if "ph = DrawDigit snap t d ii" for snap t d ii
    using assms(1) that display_kept_digits [OF kept] display_kept_drawn [OF kept] by (auto simp: phase_ok_def)
  ultimately show ?thesis by (simp add: phase_ok_def split: phase.split)
qed

lemma drawn_display_inv:
  "drawn a NUM_LCDS d (s, w) \<Longrightarrow> display_inv a (s, w)"
  by (auto simp: drawn_def display_inv_def)

lemma same_display_kept: "same_display (s, w) (s', w') \<Longrightarrow> display_kept (s, w) (s', w')"
  by (auto simp: same_display_def display_kept_def)

lemma digits_drawn_cases [consumes 1]:
  assumes "digits_drawn ph"
  obtains (HandleStatus) snap t where "ph = HandleStatus snap t" | (AckStatus) snap t where "ph = AckStatus snap t"
    | (RequestDue) snap t where "ph = RequestDue snap t" | (RequestStatus) t where "ph = RequestStatus t"
    | (Resolve) t where "ph = Resolve t" | (SendRequest) t where "ph = SendRequest t" | (ClearFirst) t where "ph = ClearFirst t"
  using assms by (cases ph) simp_all

lemma phase_ok_drawn:
  assumes "digits_drawn ph"
  obtains t where "utc_now_of ph = Some t"
    and "\<forall>s w. phase_ok a ph (s, w) \<longleftrightarrow> 0 \<le> t \<and> t \<le> tod w \<and> drawn a NUM_LCDS (digits_at s t) (s, w)"
proof -
  from assms obtain t where "utc_now_of ph = Some t" by (cases rule: digits_drawn_cases) simp_all
  moreover have "(case ph of DrawDigit snap t d ii \<Rightarrow> P snap t d ii | _ \<Rightarrow> True)" for P
    using assms by (cases rule: digits_drawn_cases) simp_all
  ultimately show ?thesis using assms by (intro that [of t]) (auto simp: phase_ok_def)
qed

section \<open>The phases after the digits\<close>

lemma idle_status_consistent: "ntp_consistent (ntp_state s) \<Longrightarrow> ntp_consistent (ntp_state (idle_status s))"
  by (simp add: idle_status_def ntp_consistent_def)

lemma status_phase_same:
  assumes "digits_drawn ph" "task_step a re (ph, s, w) = Done (ph', s', w')" "ph' \<noteq> Returned"
  shows "same_display (s, w) (s', w')" and "digits_drawn ph'" and "utc_now_of ph' = utc_now_of ph"
proof -
  have "same_display (s, w) (s', w') \<and> digits_drawn ph' \<and> utc_now_of ph' = utc_now_of ph"
    using assms
  proof (cases rule: digits_drawn_cases)
    case (Resolve t)
    then show ?thesis using assms(2)
      by (auto simp: same_display_def Let_def split: if_split_asm prod.split_asm option.split_asm)
  qed (auto simp: same_display_def idle_status_def case_prod_unfold Let_def split: if_split_asm)
  then show "same_display (s, w) (s', w')" "digits_drawn ph'" "utc_now_of ph' = utc_now_of ph" by simp_all
qed

lemma status_phase_ok:
  assumes a: "wf_assets a" and inv: "clock_inv (s, w)" and "digits_drawn ph"
  shows "outcome_ok False (\<lambda>(ph', sw). clock_inv sw) (task_step a re (ph, s, w))"
proof -
  note upd = inv [unfolded clock_inv_def, simplified]
  have ntp: "clock_inv (s\<lparr>ntp_state := ntp\<rparr>, w\<lparr>net_sent := sent\<rparr>)" if "ntp_consistent ntp" for ntp sent
    using upd that by (simp add: clock_inv_def flash_ok_def)
  have ntp': "clock_inv (s\<lparr>ntp_state := ntp\<rparr>, w)" if "ntp_consistent ntp" for ntp
    using upd that by (simp add: clock_inv_def)
  have reset: "outcome_ok False P (fatal_reset a s' ne fe w)" if "clock_inv (s', w)"
    for s' ne fe and P :: "phase \<times> clock_state_t \<times> clock_world \<Rightarrow> bool"
    by (rule fatal_reset_ok [OF a that])
  obtain k where "ntp_interval s = NTP_SYNC_INTERVAL_SEC * 2 ^ k" using upd by blast
  then have "\<exists>k. ntp_interval s * 2 = NTP_SYNC_INTERVAL_SEC * 2 ^ k" by (intro exI [of _ "Suc k"]) simp
  then have kod: "clock_inv (s\<lparr>ntp_interval := ntp_interval s * 2\<rparr>, w)" using upd by (simp add: clock_inv_def)
  have cons: "ntp_consistent (ntp_state s)" using upd by simp
  from assms(3) show ?thesis
  proof (cases rule: digits_drawn_cases)
    case (AckStatus snap t)
    then show ?thesis using ntp' [OF idle_status_consistent [OF cons]] by (simp add: idle_status_def)
  next
    case (RequestStatus t)
    then show ?thesis using ntp' cons by (simp add: ntp_consistent_def)
  next
    case (Resolve t)
    have "ntp_consistent ((ntp_state s)\<lparr>ntp_server_address := ip\<rparr>)" for ip using cons by (simp add: ntp_consistent_def)
    then show ?thesis using ntp' inv reset by (auto simp: Resolve Let_def split: prod.split option.split)
  next
    case (SendRequest t)
    then show ?thesis using ntp ntp_start_udp_request_consistent [OF cons] by (simp add: case_prod_unfold Let_def)
  qed (use inv kod reset upd in \<open>auto simp: clock_inv_def\<close>)
qed

section \<open>One phase\<close>

text \<open>One phase of the task neither leaves an array nor breaks an invariant.\<close>

definition task_result_ok :: "lcd_assets \<Rightarrow> phase \<times> clock_state_t \<times> clock_world \<Rightarrow> bool" where
  "task_result_ok a = (\<lambda>(ph, sw). clock_inv sw \<and> display_inv a sw \<and> phase_ok a ph sw)"

lemma local_digits_of:
  "0 \<le> t \<Longrightarrow> local_digits s t = Some (s\<lparr>watchdog_reset_error := watchdog_after s (local_time_of (flash_config s) t)\<rparr>, digits_at s t)"
  by (simp add: local_digits_def calculate_local_time_of lcd_digits_of_gmtime watchdog_after_def digits_at_def Let_def)

lemma digits_at_length: "length (digits_at s t) = NUM_LCDS + 1"
  by (simp add: digits_at_def shown_digits_length)

lemma unchanged_drawn:
  assumes "display_inv a (s, w)" "\<forall>n < NUM_LCDS. \<not> digit_changed s d n"
  shows "drawn a NUM_LCDS d (s, w)"
  using assms by (auto simp: drawn_def display_inv_def digit_changed_def NUM_LCDS_def)

lemma draw_phase_ok:
  assumes a: "wf_assets a" and inv: "clock_inv (s, w)" "display_inv a (s, w)" and d: "length d = NUM_LCDS + 1" "ii < NUM_LCDS"
    and drawn: "drawn a ii d (s, w)"
  obtains g where "draw_digit a err d ii (s, w)
      = Some (s\<lparr>current_lcd_digits := (current_lcd_digits s)[ii := d ! ii]\<rparr>, w\<lparr>lcd := g\<rparr>)"
    and "clock_inv (s\<lparr>current_lcd_digits := (current_lcd_digits s)[ii := d ! ii]\<rparr>, w\<lparr>lcd := g\<rparr>)"
    and "display_inv a (s\<lparr>current_lcd_digits := (current_lcd_digits s)[ii := d ! ii]\<rparr>, w\<lparr>lcd := g\<rparr>)"
    and "drawn a (Suc ii) d (s\<lparr>current_lcd_digits := (current_lcd_digits s)[ii := d ! ii]\<rparr>, w\<lparr>lcd := g\<rparr>)"
proof -
  note i = inv(1) [unfolded clock_inv_def, simplified]
  obtain g where g: "draw_digit a err d ii (s, w)
      = Some (s\<lparr>current_lcd_digits := (current_lcd_digits s)[ii := d ! ii]\<rparr>, w\<lparr>lcd := g\<rparr>)" "lcd_inv g"
    "delivers ii (panel_bytes a s d ii @ (if ii = 0 then status_icon_bytes a (watchdog_reset_error s) err WIFI_OK else []))
      (lcd w) g"
    using draw_digit_ok [OF a _ _ d(2), of w s err d] i by blast
  have r: "received n g = received n (lcd w) @ (if n = ii then panel_bytes a s d ii
      @ (if ii = 0 then status_icon_bytes a (watchdog_reset_error s) err WIFI_OK else []) else [])" if "n < NUM_LCDS" for n
    using received_delivers [OF _ g(3) that] i by simp
  have this_one: "panel_shows a ii g (d ! ii)"
    by (rule panel_shows_after [OF inv(2) d(2), where b = True]) (use r [OF d(2)] in simp)
  have others: "panel_shows a n g c" if "n < NUM_LCDS" "n \<noteq> ii" "panel_shows a n (lcd w) c" for n c
    by (rule panel_shows_same [OF that(3)]) (use r [OF that(1)] that(2) in simp)
  have len: "ii < length (current_lcd_digits s)" using i d(2) by simp
  let ?s = "s\<lparr>current_lcd_digits := (current_lcd_digits s)[ii := d ! ii]\<rparr>" and ?w = "w\<lparr>lcd := g\<rparr>"
  show ?thesis
  proof (rule that [OF g(1)])
    show "clock_inv (?s, ?w)" using i g(2) by (simp add: clock_inv_def flash_ok_def)
    have "panel_shows a n g ((current_lcd_digits s)[ii := d ! ii] ! n)" if "n < NUM_LCDS" "\<not> first_clock_tick s" for n
      using that inv(2) others this_one len by (cases "n = ii") (auto simp: display_inv_def)
    then show "display_inv a (?s, ?w)" by (auto simp: display_inv_def)
    show "drawn a (Suc ii) d (?s, ?w)"
      using drawn others this_one len d(2) by (auto simp: drawn_def less_Suc_eq)
  qed
qed

lemma task_step_ok:
  assumes a: "wf_assets a" and inv: "clock_inv (s, w)" "display_inv a (s, w)" "phase_ok a ph (s, w)"
  shows "outcome_ok False (task_result_ok a) (task_step a re (ph, s, w))"
proof (cases "digits_drawn ph")
  case True
  then obtain t where t: "utc_now_of ph = Some t"
    "\<forall>s w. phase_ok a ph (s, w) \<longleftrightarrow> 0 \<le> t \<and> t \<le> tod w \<and> drawn a NUM_LCDS (digits_at s t) (s, w)"
    by (rule phase_ok_drawn [of ph a])
  show ?thesis
  proof (cases "task_step a re (ph, s, w)")
    case (Done x)
    obtain ph' s' w' where x: "x = (ph', s', w')" by (cases x)
    have c: "clock_inv (s', w')" using status_phase_ok [OF a inv(1) True, of re] by (simp add: Done x)
    show ?thesis
    proof (cases "ph' = Returned")
      case False
      note same = status_phase_same [OF True Done [unfolded x] False]
      have "phase_ok a ph (s', w')" by (rule phase_ok_kept [OF inv(3) same_display_kept [OF same(1)]])
      moreover obtain t' where "utc_now_of ph' = Some t'"
        "\<forall>s w. phase_ok a ph' (s, w) \<longleftrightarrow> 0 \<le> t' \<and> t' \<le> tod w \<and> drawn a NUM_LCDS (digits_at s t') (s, w)"
        using phase_ok_drawn [OF same(2)] .
      ultimately have "phase_ok a ph' (s', w')" "drawn a NUM_LCDS (digits_at s' t) (s', w')"
        using t same(3) by simp_all
      then show ?thesis using c drawn_display_inv by (auto simp: Done x task_result_ok_def)
    next
      case r: True
      from True Done x r have "s' = s\<lparr>first_clock_tick := False\<rparr> \<and> w' = w"
        by (cases rule: digits_drawn_cases) (auto simp: Let_def split: if_split_asm prod.split_asm)
      then have "drawn a NUM_LCDS (digits_at s t) (s', w')" using inv(3) t(2) by (simp add: drawn_def)
      then show ?thesis using c drawn_display_inv by (auto simp: Done x r task_result_ok_def phase_ok_def)
    qed
  qed (use status_phase_ok [OF a inv(1) True, of re] in simp_all)
next
  case False
  then show ?thesis
  proof (cases ph)
    case (CopyTime snap)
    then show ?thesis using inv
      by (simp add: task_result_ok_def phase_ok_def clock_inv_def display_inv_def set_time_of_day_def get_atomic_time_def flash_ok_def)
  next
    case (LocalTime snap t)
    then have t: "0 \<le> t" "t \<le> tod w" using inv(3) by (simp_all add: phase_ok_def)
    let ?s = "s\<lparr>watchdog_reset_error := watchdog_after s (local_time_of (flash_config s) t)\<rparr>"
    have i: "clock_inv (?s, w)" "display_inv a (?s, w)" "digits_at ?s = digits_at s"
      using inv(1,2) by (auto simp: clock_inv_def display_inv_def digits_at_def)
    then show ?thesis
      using t unchanged_drawn [OF i(2), of "digits_at s t"]
      by (auto simp: LocalTime local_digits_of task_result_ok_def phase_ok_def drawn_def list_ex_iff)
  next
    case (DrawDigit snap t d ii)
    then have ph: "0 \<le> t" "t \<le> tod w" "d = digits_at s t" "ii \<le> NUM_LCDS" "drawn a ii d (s, w)"
      using inv(3) by (auto simp: phase_ok_def)
    show ?thesis
    proof (cases "ii < NUM_LCDS")
      case True
      show ?thesis
        by (rule draw_phase_ok [OF a inv(1,2) _ True ph(5), of "as_error snap"])
          (use ph True in \<open>auto simp: DrawDigit digits_at_def shown_digits_length task_result_ok_def phase_ok_def\<close>)
    next
      case False
      have "ii = NUM_LCDS" using False ph(4) by simp
      then show ?thesis using ph inv(1,2) by (auto simp: DrawDigit task_result_ok_def phase_ok_def)
    qed
  qed (use inv in \<open>auto simp: task_result_ok_def phase_ok_def clock_inv_def display_inv_def\<close>)
qed

text \<open>What no phase but the first ones touches.\<close>

lemma draw_digit_frame:
  "draw_digit a err d ii (s, w) = Some (s', w') \<Longrightarrow> ntp_time s' = ntp_time s \<and> ntp_time_updated s' = ntp_time_updated s \<and> tod w' = tod w"
  by (auto simp: draw_digit_def Let_def split: bind_split_asm if_split_asm)

lemma task_step_sync:
  assumes k: "sync_kept ph (s, w) age" and step: "task_step a re (ph, s, w) = Done (ph', s', w')"
  shows "sync_kept ph' (s', w') age"
proof (cases age)
  case None
  then show ?thesis by (simp add: sync_kept_def)
next
  case (Some n)
  have same: "sync_kept ph' (s', w') age"
    if "ntp_time s' = ntp_time s" "ntp_time_updated s' = ntp_time_updated s" "tod w' = tod w" "\<And>snap. ph \<noteq> CopyTime snap"
    using k that Some by (auto simp: sync_kept_def)
  show ?thesis
  proof (cases ph)
    case (TakeTime snap)
    then show ?thesis using step k Some by (auto simp: sync_kept_def split: if_split_asm)
  next
    case (CopyTime snap)
    then have "tod w' = ntp_time s' + int (n - n)" "s' = s"
      using step by (auto simp: set_time_of_day_def get_atomic_time_def)
    then show ?thesis using Some by (auto simp: sync_kept_def)
  next
    case (DrawDigit snap t d ii)
    then show ?thesis using step
      by (intro same) (auto simp: or_fault_def dest!: draw_digit_frame split: if_split_asm option.split_asm)
  qed (use step k Some in \<open>auto simp: sync_kept_def or_fault_def local_digits_def idle_status_def Let_def
      split: if_split_asm option.split_asm prod.split_asm bind_split_asm\<close>)
qed

inductive_cases preempt_elim: "preempt a be (ph, m, w, age) y"

lemma after_task_same:
  "after_task be m (s, w) = Done (m', w') \<Longrightarrow> clock m' = s \<and> lcd w' = lcd w \<and> tod w' = tod w"
  by (auto simp: after_task_def split: if_split_asm)

lemma preempt_step_inv:
  assumes "preempt a be (ph, m, w, age) y" "preempt_inv a be (ph, m, w, age)"
  shows "preempt_inv a be y"
proof -
  from assms(1) consider
      (interrupt) e m' w' where "y = (ph, m', w', reply_age m e age)" "\<forall>re. e \<noteq> MainLoop re"
        "device_step a be (m, w) e = Done (m', w')"
    | (task) re ph' s' w' where "y = (ph', m\<lparr>clock := s'\<rparr>, w', age)" "task_step a re (ph, clock m, w) = Done (ph', s', w')"
    | (turn) m' w' where "y = (Ready, m', w', age)" "ph = Returned" "after_task be m (clock m, w) = Done (m', w')"
    by (elim preempt_elim) blast+
  then show ?thesis
  proof cases
    case (interrupt e m' w')
    have inv: "device_inv a be (m, w)" and ph: "phase_ok a ph (clock m, w)" and k: "sync_kept ph (clock m, w) age"
      using assms(2) by (simp_all add: preempt_inv_def)
    have "lcd_inv (lcd w)" using inv by (simp add: device_inv_def clock_inv_def)
    note f = interrupt_fields [OF interrupt(2) [rule_format] interrupt(3) this]
    have 1: "device_inv a be (m', w')" using device.step_ok [OF inv, of e] interrupt(3) by simp
    have "display_kept (clock m, w) (clock m', w')"
      using f(1,2,5) by (auto simp: display_kept_def split: device_event.splits)
    then have 2: "phase_ok a ph (clock m', w')" by (rule phase_ok_kept [OF ph])
    have 3: "sync_kept ph (clock m', w') (reply_age m e age)"
    proof (cases "accepted m e")
      case True
      then show ?thesis using f(3) by (simp add: sync_kept_def reply_age_def)
    next
      case no: False
      show ?thesis
      proof (cases "\<exists>n. e = Elapse n")
        case True
        then obtain n where e: "e = Elapse n" by blast
        have shift: "\<exists>d' \<le> j + n. tod w + int n = t + int (j + n - d')" if "d \<le> j" "tod w = t + int (j - d)" for d j t
          using that by (intro exI [of _ d]) simp
        show ?thesis using k f(4) [OF no] f(5) shift no
          by (auto simp: e sync_kept_def reply_age_def split: option.split_asm option.split)
      next
        case False
        then have "reply_age m e age = age" "tod w' = tod w" using no f(5) by (auto simp: reply_age_def split: device_event.splits)
        then show ?thesis using k f(4) [OF no] by (auto simp: sync_kept_def)
      qed
    qed
    show ?thesis using 1 2 3 by (simp add: interrupt(1) preempt_inv_def)
  next
    case (task re ph' s' w')
    have inv: "wf_assets a" "boot_env_ok be" "clock_inv (clock m, w)" "display_inv a (clock m, w)" "phase_ok a ph (clock m, w)"
      "sync_kept ph (clock m, w) age"
      using assms(2) by (simp_all add: preempt_inv_def device_inv_def)
    have "task_result_ok a (ph', s', w')"
      using task_step_ok [OF inv(1,3-5), of re] task(2) by simp
    then show ?thesis
      using task_step_sync [OF inv(6) task(2)] inv(1,2)
      by (simp add: task(1) preempt_inv_def task_result_ok_def device_inv_def)
  next
    case (turn m' w')
    have inv: "device_inv a be (m, w)" "sync_kept ph (clock m, w) age" using assms(2) by (simp_all add: preempt_inv_def)
    have "main_inv (m', w')"
      using after_task_ok [of be "(clock m, w)" m] inv(1) turn(3) by (simp add: device_inv_def)
    then show ?thesis
      using after_task_same [OF turn(3)] inv
      by (auto simp: turn(1,2) preempt_inv_def device_inv_def main_inv_def display_inv_def phase_ok_def sync_kept_def
          split: option.splits)
  qed
qed

lemma preempt_reach_inv:
  assumes "(preempt a be)\<^sup>*\<^sup>* x y" "preempt_inv a be x"
  shows "preempt_inv a be y"
  using assms
proof (induction rule: rtranclp_induct)
  case (step y z)
  then show ?case using preempt_step_inv by (cases y) blast
qed

lemma preempt_start: "device_inv a be (m, w) \<Longrightarrow> preempt_inv a be (Ready, m, w, None)"
  by (simp add: preempt_inv_def phase_ok_def sync_kept_def)

section \<open>Properties\<close>

text \<open>
  C12: The phases are the task: run without interruption, 22 of them have the effect of
  \<open>clock_task\<close> in every case, a reset and an access outside an array included.
\<close>

theorem clock_task_phases:
  "task_steps a re 22 (Ready, s, w) = and_then (clock_task a re (s, w)) (\<lambda>sw. Done (Returned, sw))"
  by (rule task_steps_eq)

text \<open>
  C4: The task is safe under interruption. However the callbacks of the timers and of the network stack
  interleave with its phases, between two digits and in the middle of a request too, turn after turn,
  the invariant of the running clock holds and the next phase neither leaves an array nor stops. After the
  first turn each panel shows at every moment the character that the state records for it; once
  the digits of a turn are drawn they are, on all seven panels, those of the local time at the one instant
  that the turn has read, which is not ahead of the time of day.
\<close>

theorem preempted_clock_safe:
  assumes "device_inv a be (m, w)" and "(preempt a be)\<^sup>*\<^sup>* (Ready, m, w, None) (ph, m', w', age)"
  shows "clock_inv (clock m', w') \<and> outcome_ok False (\<lambda>_. True) (task_step a re (ph, clock m', w'))
    \<and> (\<not> first_clock_tick (clock m') \<longrightarrow> (\<forall>n < NUM_LCDS. panel_shows a n (lcd w') (current_lcd_digits (clock m') ! n)))
    \<and> (\<forall>t. utc_now_of ph = Some t \<and> digits_drawn ph \<longrightarrow> t \<le> tod w' \<and> (\<forall>n < NUM_LCDS.
        panel_shows a n (lcd w') (shown_digits (local_time_of (flash_config (clock m')) t) ! n)))"
proof -
  have inv: "preempt_inv a be (ph, m', w', age)" by (rule preempt_reach_inv [OF assms(2) preempt_start [OF assms(1)]])
  then have i: "wf_assets a" "clock_inv (clock m', w')" "display_inv a (clock m', w')" "phase_ok a ph (clock m', w')"
    by (simp_all add: preempt_inv_def device_inv_def)
  have "outcome_ok False (\<lambda>_. True) (task_step a re (ph, clock m', w'))"
    using task_step_ok [OF i, of re] by (cases "task_step a re (ph, clock m', w')") simp_all
  then show ?thesis
    using i(2-4) by (auto simp: display_inv_def phase_ok_def drawn_def digits_at_def shown_digits_nth)
qed

text \<open>
  C5: No synchronisation is lost to the interleaving. Whenever the NTP client has accepted a reply
  \<open>k\<close> seconds ago, its time is still flagged, or being copied, or the time of day is that time plus
  \<open>k\<close> seconds, less the delay \<open>d\<close> with which the main loop copied it; and three phases of a turn
  that starts with the flag set make the time of the reply the time of day.
\<close>

theorem sync_never_lost:
  assumes "device_inv a be (m, w)" and "(preempt a be)\<^sup>*\<^sup>* (Ready, m, w, None) (ph, m', w', Some k)"
  shows "(ntp_time_updated (clock m') \<or> (\<exists>snap. ph = CopyTime snap)
      \<or> (\<exists>d \<le> k. tod w' = ntp_time (clock m') + int (k - d)))
    \<and> (ntp_time_updated (clock m') \<longrightarrow> (\<exists>snap s v. task_steps a re 3 (Ready, clock m', w') = Done (DateSync snap, s, v)
      \<and> tod v = ntp_time (clock m') \<and> \<not> ntp_time_updated s))"
proof -
  have "preempt_inv a be (ph, m', w', Some k)" by (rule preempt_reach_inv [OF assms(2) preempt_start [OF assms(1)]])
  then have "sync_kept ph (clock m', w') (Some k)" by (simp add: preempt_inv_def)
  moreover have "\<exists>snap s v. task_steps a re 3 (Ready, clock m', w') = Done (DateSync snap, s, v)
      \<and> tod v = ntp_time (clock m') \<and> \<not> ntp_time_updated s" if "ntp_time_updated (clock m')"
    using that by (simp add: numeral_eq_Suc set_time_of_day_def get_atomic_time_def)
  ultimately show ?thesis by (simp add: sync_kept_def)
qed

section \<open>Examples\<close>

definition sample_running :: main_state where
  "sample_running = \<lparr>clock = sample_clock, startup_led_active = True\<rparr>"

lemma sample_device_inv: "device_inv sample_assets sample_boot (sample_running, sample_world)"
  using sample_assets_wf sample_boot_ok sample_clock_inv
  by (simp add: device_inv_def sample_running_def display_inv_def sample_clock_def)

definition sample_reply :: device_event where
  "sample_reply = NtpPacket (pbuf_of_bytes ([0x24, 1] @ replicate 46 0)) 0 0"

lemma sample_reply_accepted: "accepted sample_running sample_reply"
  by (simp add: accepted_def sample_reply_def ntp_recv_callback_def pbuf_of_bytes_def Let_def ip_addr_cmp_def
      sample_running_def sample_clock_def clock_state_zero_def ntp_state_zero_def NTP_MSG_LEN_def)

theorem preempted_clock_safe_witness:
  "\<exists>ph m' w'. (preempt sample_assets sample_boot)\<^sup>*\<^sup>* (Ready, sample_running, sample_world, None) (ph, m', w', None)
    \<and> ph \<noteq> Ready \<and> clock_inv (clock m', w')"
proof -
  obtain s v where t: "task_step sample_assets (sample_request 0) (Ready, clock sample_running, sample_world)
      = Done (TakeTime (snd (ntp_atomic_status (ntp_state (clock sample_running)) NTP_NULL_STATUS NTP_NULL_ERROR 0)), s, v)"
    by simp
  from r_into_rtranclp [where r = "preempt sample_assets sample_boot", OF task [OF t]]
  show ?thesis using preempted_clock_safe [OF sample_device_inv] by blast
qed

theorem sync_never_lost_witness:
  "\<exists>m' w'. (preempt sample_assets sample_boot)\<^sup>*\<^sup>* (Ready, sample_running, sample_world, None) (Ready, m', w', Some 0)
    \<and> (ntp_time_updated (clock m') \<or> tod w' = ntp_time (clock m'))"
proof -
  obtain m' w' where d: "device_step sample_assets sample_boot (sample_running, sample_world) sample_reply = Done (m', w')"
    by (cases "ntp_recv_callback ntp_timer_callback (pbuf_of_bytes ([0x24, 1] @ replicate 46 0)) 0 0
        (ntp_state (clock sample_running), clock sample_running)") (simp add: sample_reply_def)
  have e: "sample_reply \<noteq> MainLoop re" for re by (simp add: sample_reply_def)
  have "reply_age sample_running sample_reply None = Some 0" by (simp add: reply_age_def sample_reply_accepted)
  then have r: "(preempt sample_assets sample_boot)\<^sup>*\<^sup>* (Ready, sample_running, sample_world, None) (Ready, m', w', Some 0)"
    using r_into_rtranclp [where r = "preempt sample_assets sample_boot", OF interrupt [OF e d]] by metis
  from sync_never_lost [OF sample_device_inv r] show ?thesis using r by auto
qed

end
