(* ===== verification/Timekeeping.thy ===== *)
theory Timekeeping
  imports Device CStruct
begin

text \<open>
  The clock together with a working network: the device of \<open>Device\<close> and an environment that answers
  its requests form one transition system. The environment keeps the true time; it resolves the
  server's name, and the server's replies carry a time between the request and the reply. Shown is what the
  device then guarantees: it never resets, and it shows the true time up to the network's delay.
\<close>

section \<open>The network and the server\<close>

text \<open>A request is passed on at once or after the name has been looked up.\<close>

definition answers :: "ip_addr_t \<Rightarrow> request_env \<Rightarrow> bool" where
  "answers srv re \<longleftrightarrow> (\<forall>name. re_gethostbyname re name \<in> {(ERR_OK, Some srv), (ERR_INPROGRESS, None)})
     \<and> re_pbuf_alloc re \<and> (\<forall>d. re_udp_sendto re d = 0)"

text \<open>A reply of a synchronised server: mode 4, no kiss of death, the seconds of the time \<open>t\<close>; all else is free.\<close>

definition server_reply :: "pbuf \<Rightarrow> int \<Rightarrow> bool" where
  "server_reply p t \<longleftrightarrow> (\<exists>bs. pbuf_holds p bs \<and> length bs = 48 \<and> bs ! 0 AND 0x07 = 0x4 \<and> bs ! 1 \<noteq> 0
     \<and> drop_bit 6 (bs ! 0) AND 0x03 \<noteq> 3
     \<and> uint (bs ! 40) * 2 ^ 24 + uint (bs ! 41) * 2 ^ 16 + uint (bs ! 42) * 2 ^ 8 + uint (bs ! 43)
         = (t + 2208988800) mod 2 ^ 32)"

text \<open>No turn of the main loop finds a request that is older than the configured timeout.\<close>

definition in_time :: "request_env \<Rightarrow> clock_state_t \<Rightarrow> bool" where
  "in_time re s \<longleftrightarrow> (ntp_status (ntp_state s) = NTP_PENDING \<longrightarrow>
     unat (re_now_ms re - request_start_ms (ntp_state s)) \<le> unat (ntp_timeout (flash_config s)))"

text \<open>What the environment still owes: nothing, the name's address, or a reply, to a request made at a time.\<close>

datatype owed = Nothing | Name int | Reply int

fun waiting :: "owed \<Rightarrow> int \<Rightarrow> int" where
  "waiting Nothing t = 0"
| "waiting (Name t0) t = t - t0"
| "waiting (Reply t0) t = t - t0"

definition requested :: "request_env \<Rightarrow> clock_state_t \<Rightarrow> int \<Rightarrow> owed" where
  "requested re s t = (if fst (re_gethostbyname re (c_str (ntp_server (flash_config s)))) = ERR_OK then Reply t else Name t)"

section \<open>The device in its environment\<close>

text \<open>
  The true time \<open>t\<close> advances by whole seconds: only when the main loop has made a turn in the
  second that ends, and never past \<open>d\<close> seconds after a request that is still unanswered.
\<close>

inductive served ::
  "lcd_assets \<Rightarrow> boot_env \<Rightarrow> ip_addr_t \<Rightarrow> nat \<Rightarrow> main_state \<times> clock_world \<times> int \<times> owed \<times> bool
   \<Rightarrow> main_state \<times> clock_world \<times> int \<times> owed \<times> bool \<Rightarrow> bool"
  for a :: lcd_assets and be :: boot_env and srv :: ip_addr_t and d :: nat where
  second: "waiting r t < int d \<or> r = Nothing \<Longrightarrow> device_step a be (m, w) (Elapse 1) = Done (m', w')
    \<Longrightarrow> served a be srv d (m, w, t, r, True) (m', w', t + 1, r, False)"
| tick: "device_step a be (m, w) (TimerTick True) = Done (m', w')
    \<Longrightarrow> served a be srv d (m, w, t, r, turned) (m', w', t, r, turned)"
| light: "e = BacklightTick raw \<or> e = LedBlink \<Longrightarrow> device_step a be (m, w) e = Done (m', w')
    \<Longrightarrow> served a be srv d (m, w, t, r, turned) (m', w', t, r, turned)"
| turn: "answers srv re \<Longrightarrow> in_time re (clock m) \<Longrightarrow> device_step a be (m, w) (MainLoop re) = Done (m', w')
    \<Longrightarrow> served a be srv d (m, w, t, r, turned) (m', w', t,
          (if ntp_status (ntp_state (clock m)) \<noteq> NTP_PENDING \<and> ntp_status (ntp_state (clock m')) = NTP_PENDING
           then requested re (clock m) t else r), True)"
| name: "(\<And>dg. send dg = 0) \<Longrightarrow> device_step a be (m, w) (DnsAnswer True send (Some srv)) = Done (m', w')
    \<Longrightarrow> served a be srv d (m, w, t, Name t0, turned) (m', w', t, Reply t0, turned)"
| reply: "server_reply p u \<Longrightarrow> t0 \<le> u \<Longrightarrow> u \<le> t \<Longrightarrow> 0 \<le> u \<Longrightarrow> u < 2 ^ 32
    \<Longrightarrow> device_step a be (m, w) (NtpPacket p srv (ntp_port (flash_config (clock m)))) = Done (m', w')
    \<Longrightarrow> served a be srv d (m, w, t, Reply t0, turned) (m', w', t, Nothing, turned)"

section \<open>A reply\<close>

lemma server_reply_accepted:
  assumes "server_reply p t" "0 \<le> t" "t < 2 ^ 32" "addr = ntp_server_address s" "port = ns_port s"
  shows "ntp_recv_callback h p addr port (s, q) = (s\<lparr>ntp_error := NTP_OK, ntp_status := NTP_SUCCESS\<rparr>, h q t)"
proof -
  obtain bs where b: "pbuf_holds p bs" "length bs = 48" "bs ! 0 AND 0x07 = 0x4" "bs ! 1 \<noteq> 0"
     "drop_bit 6 (bs ! 0) AND 0x03 \<noteq> 3"
     "uint (bs ! 40) * 2 ^ 24 + uint (bs ! 41) * 2 ^ 16 + uint (bs ! 42) * 2 ^ 8 + uint (bs ! 43) = (t + 2208988800) mod 2 ^ 32"
    using assms(1) by (auto simp: server_reply_def)
  have "((t + 2208988800) mod 2 ^ 32 - 2208988800) mod 2 ^ 32 = ((t + 2208988800) - 2208988800) mod 2 ^ 32"
    by (rule mod_diff_left_eq)
  then have "((t + 2208988800) mod 2 ^ 32 - 2208988800) mod 2 ^ 32 = t" using assms(2,3) by simp
  then show ?thesis using ntp_recv_valid_reply [OF b(1,2) assms(4,5) b(3-5), of h q] unfolding b(6) by simp
qed

text \<open>Every time has a reply.\<close>

definition reply_packet :: "int \<Rightarrow> pbuf" where
  "reply_packet t = (let s = word_of_int (t + 2208988800) :: u32
     in pbuf_of_bytes ([0x1c, 2] @ replicate 38 0 @ rev (mem_bytes32 s) @ replicate 4 0))"

lemma reply_packet_ok: "server_reply (reply_packet t) t"
proof -
  define s where "s = (word_of_int (t + 2208988800) :: u32)"
  let ?bs = "[0x1c, 2] @ replicate 38 0 @ rev (mem_bytes32 s) @ replicate 4 0 :: u8 list"
  have "be32 (?bs ! 40) (?bs ! 41) (?bs ! 42) (?bs ! 43) = mem_word32 (mem_bytes32 s)"
    by (simp add: mem_word32_def mem_bytes32_def nth_append)
  then have "uint (?bs ! 40) * 2 ^ 24 + uint (?bs ! 41) * 2 ^ 16 + uint (?bs ! 42) * 2 ^ 8 + uint (?bs ! 43) = uint s"
    by (metis uint_be32 mem_word32_bytes)
  also have "uint s = (t + 2208988800) mod 2 ^ 32" unfolding s_def uint_word_of_int by simp
  finally have "uint (?bs ! 40) * 2 ^ 24 + uint (?bs ! 41) * 2 ^ 16 + uint (?bs ! 42) * 2 ^ 8 + uint (?bs ! 43)
    = (t + 2208988800) mod 2 ^ 32" .
  moreover have "pbuf_holds (reply_packet t) ?bs" by (simp add: reply_packet_def s_def Let_def pbuf_holds_of_bytes)
  ultimately show ?thesis unfolding server_reply_def by (intro exI [of _ ?bs]) simp
qed

section \<open>The first request\<close>

lemma boot_case_fields:
  "boot_case a e s w = Done (s', w') \<Longrightarrow> ap_mode_triggered s' = ap_mode_triggered s \<and> ntp_time_updated s' = ntp_time_updated s
    \<and> flash w' = flash w"
  by (auto simp: boot_case_def or_fault_def and_then_Done config_store_handler_def system_reboot_def Let_def
      split: if_split_asm option.split_asm)

lemma clock_init_started:
  assumes "wf_assets a" "lcd_inv (lcd w)" "clock_init a e w = Done (s, v)"
  shows "\<not> ap_mode_triggered s \<and> \<not> ntp_time_updated s \<and> ntp_interval s = NTP_SYNC_INTERVAL_SEC \<and> flash_config s = flash w"
proof (rule clock_init_begin [OF assms(1,2), of e])
  fix ls g
  assume "clock_init a e w =
    and_then (boot_case a e (clock_state_zero\<lparr>lcd_states := ls, cold_boot := \<not> be_watchdog_caused_reboot e\<rparr>) (w\<lparr>lcd := g\<rparr>))
      (\<lambda>(state, w). if magic_marker (flash w) = CONFIG_MAGIC then
           Done (state\<lparr>flash_config := flash w, ntp_last_sync := ntp_time state,
             ntp_interval := NTP_SYNC_INTERVAL_SEC, first_clock_tick := True\<rparr>, w)
         else
           or_fault (lcd_print_line (text_font a) (lcd_states state ! 0) RED LCD_MSG_FLASH_ERROR (lcd w)) (\<lambda>g.
             or_fault (lcd_print_line (text_font a) (lcd_states state ! 0) RED LCD_MSG_WIFI_ERROR g) (\<lambda>g.
               run_access_point e None (wifi_initialized state) (w\<lparr>lcd := g\<rparr>))))"
  with assms(3) obtain s1 v1 where b: "boot_case a e (clock_state_zero\<lparr>lcd_states := ls, cold_boot := \<not> be_watchdog_caused_reboot e\<rparr>)
      (w\<lparr>lcd := g\<rparr>) = Done (s1, v1)"
    and r: "(if magic_marker (flash v1) = CONFIG_MAGIC then
           Done (s1\<lparr>flash_config := flash v1, ntp_last_sync := ntp_time s1,
             ntp_interval := NTP_SYNC_INTERVAL_SEC, first_clock_tick := True\<rparr>, v1)
         else
           or_fault (lcd_print_line (text_font a) (lcd_states s1 ! 0) RED LCD_MSG_FLASH_ERROR (lcd v1)) (\<lambda>g.
             or_fault (lcd_print_line (text_font a) (lcd_states s1 ! 0) RED LCD_MSG_WIFI_ERROR g) (\<lambda>g.
               run_access_point e None (wifi_initialized s1) (v1\<lparr>lcd := g\<rparr>)))) = Done (s, v)"
    by (fastforce simp: and_then_Done)
  have "s = s1\<lparr>flash_config := flash v1, ntp_last_sync := ntp_time s1,
      ntp_interval := NTP_SYNC_INTERVAL_SEC, first_clock_tick := True\<rparr>"
    using r by (auto simp: or_fault_def split: if_split_asm option.split_asm)
  then show ?thesis using boot_case_fields [OF b] by (simp add: clock_state_zero_def)
qed

text \<open>A request that the network answers.\<close>

lemma answered_request:
  assumes "answers srv re" "request_of re s = (e, ntp, sent)"
  shows "e = NTP_OK \<and> ntp_status ntp = NTP_PENDING \<and> ns_port ntp = ns_port (ntp_state s)
    \<and> (requested re s t = Reply t \<longrightarrow> ntp_server_address ntp = srv)"
proof -
  let ?name = "c_str (ntp_server (flash_config s))"
  have n: "re_gethostbyname re ?name = (ERR_OK, Some srv) \<or> re_gethostbyname re ?name = (ERR_INPROGRESS, None)"
    using assms(1) by (auto simp: answers_def)
  have c: "re_pbuf_alloc re" "\<And>d. re_udp_sendto re d = 0" using assms(1) by (simp_all add: answers_def)
  from n show ?thesis
  proof
    assume "re_gethostbyname re ?name = (ERR_OK, Some srv)"
    then show ?thesis using assms(2) c
      by (auto simp: request_of_def ntp_request_async_def ntp_start_udp_request_def requested_def Let_def)
  next
    assume "re_gethostbyname re ?name = (ERR_INPROGRESS, None)"
    then show ?thesis using assms(2) by (auto simp: request_of_def ntp_request_async_def requested_def err_defs Let_def)
  qed
qed

lemma main_start_requests:
  assumes "wf_assets a" "flash_ok w" "main_start a be led se w = Done (m, v)" "answers srv (se_request se)"
  shows "ntp_status (ntp_state (clock m)) = NTP_PENDING \<and> ns_port (ntp_state (clock m)) = ntp_port (flash_config (clock m))
    \<and> (requested (se_request se) (clock m) t = Reply t \<longrightarrow> ntp_server_address (ntp_state (clock m)) = srv)
    \<and> \<not> ap_mode_triggered (clock m) \<and> \<not> ntp_time_updated (clock m) \<and> ntp_interval (clock m) = NTP_SYNC_INTERVAL_SEC
    \<and> flash_config (clock m) = flash w"
proof -
  have rw: "lcd_inv (lcd (reset_world w))" using reset_world_ok [OF assms(2)] by simp
  obtain s0 v0 s1 v1 where 1: "clock_init a be (reset_world w) = Done (s0, v0)" "clock_start a se s0 v1 = Done (s1, v)" "clock m = s1"
    using assms(3) by (auto simp: main_start_def and_then_Done Let_def init_diagnostic_led_def)
  note i = clock_init_started [OF assms(1) rw 1(1)]
  obtain wf wi at s2 v2 v3 where 2: "connect_to_wifi (se_arch_init se) (se_connect se) (se_elapsed_us se) (wifi_initialized s0) = Some (wf, wi, at)"
    "start_icons a wf (s0\<lparr>wifi_initialized := wi\<rparr>) v1 = Done (s2, v2)"
    "clock_request a (se_request se) (s2\<lparr>ntp_state := (snd (ntp_init (se_udp_new se) (ntp_state s2)))\<lparr>ns_port := ntp_port (flash_config s2)\<rparr>\<rparr>, v2)
      = Done (s1, v3)"
    using 1(2) by (auto simp: clock_start_def and_then_Done Let_def case_prod_unfold split: option.split_asm if_split_asm)
  have s2: "s2 = s0\<lparr>wifi_initialized := wi\<rparr>"
    using 2(2) by (auto simp: start_icons_def or_fault_def split: if_split_asm option.split_asm)
  let ?s = "s2\<lparr>ntp_state := (snd (ntp_init (se_udp_new se) (ntp_state s2)))\<lparr>ns_port := ntp_port (flash_config s2)\<rparr>\<rparr>"
  obtain e ntp sent where r: "request_of (se_request se) ?s = (e, ntp, sent)" by (cases "request_of (se_request se) ?s") auto
  have a: "e = NTP_OK" "ntp_status ntp = NTP_PENDING" "ns_port ntp = ntp_port (flash_config s2)"
    "requested (se_request se) ?s t = Reply t \<longrightarrow> ntp_server_address ntp = srv"
    using answered_request [OF assms(4) r, of t] by simp_all
  have "s1 = ?s\<lparr>ntp_state := ntp\<rparr>"
    using 2(3) r a(1) by (auto simp: clock_request_def request_of_def Let_def)
  then show ?thesis using a(2-4) i 1(3) by (simp add: s2 requested_def)
qed

section \<open>A turn of the main loop\<close>

definition calm :: "ntp_state_t \<Rightarrow> bool" where
  "calm n \<longleftrightarrow> ntp_status n \<in> {NTP_IDLE, NTP_SUCCESS, NTP_PENDING}"

definition ntp_after_turn :: "request_env \<Rightarrow> clock_state_t \<times> clock_world \<Rightarrow> ntp_state_t" where
  "ntp_after_turn re = (\<lambda>(s, w).
     if clock_tick_updated s \<and> sync_due (s, w) then fst (snd (request_of re s))
     else if clock_tick_updated s \<and> ntp_status (ntp_state s) = NTP_SUCCESS then (ntp_state s)\<lparr>ntp_status := NTP_IDLE\<rparr>
     else ntp_state s)"

text \<open>With a network that answers, a turn does not reset the device, and takes over a time that a reply left.\<close>

lemma task_served:
  assumes "wf_assets a" "clock_inv (s, w)" "calm (ntp_state s)" "answers srv re" "in_time re s"
  shows "\<exists>s' w'. clock_task a re (s, w) = Done (s', w') \<and> ntp_state s' = ntp_after_turn re (s, w)
    \<and> ntp_interval s' = ntp_interval s \<and> flash_config s' = flash_config s \<and> ap_mode_triggered s' = ap_mode_triggered s
    \<and> \<not> ntp_time_updated s' \<and> tod w' = task_time (s, w)"
proof (cases "clock_tick_updated s")
  case False
  obtain s' w' where p: "process_ntp_time (s, w) = (s', w')" by (cases "process_ntp_time (s, w)")
  then show ?thesis using False process_ntp_time_fields [OF p]
    by (simp add: clock_task_no_tick ntp_after_turn_def)
next
  case True
  have "fst (request_of re s) = NTP_OK"
    using answered_request [OF assms(4), of s] by (cases "request_of re s") auto
  then have "reset_reason re (s, w) = None"
    using assms(3,5) by (auto simp: reset_reason_def calm_def in_time_def)
  then obtain s' w' where t: "clock_task a re (s, w) = Done (s', w')"
    "(ntp_state s', ntp_interval s', ntp_last_sync s', net_sent w') = sync_after re (s, w)"
    using clock_task_outcome_cases [OF assms(1,2) True, of re] by auto
  have "ntp_state s' = ntp_after_turn re (s, w) \<and> ntp_interval s' = ntp_interval s"
    using t(2) True assms(3) by (auto simp: sync_after_def ntp_after_turn_def calm_def Let_def split: if_split_asm)
  then show ?thesis using t(1) clock_task_done [OF assms(1,2) True t(1)] by auto
qed

lemma turn_served:
  assumes "wf_assets a" "clock_inv (clock m, w)" "calm (ntp_state (clock m))" "answers srv re" "in_time re (clock m)"
    "\<not> ap_mode_triggered (clock m)"
  obtains m' w' where "device_step a be (m, w) (MainLoop re) = Done (m', w')"
    "ntp_state (clock m') = ntp_after_turn re (clock m, w)" "ntp_interval (clock m') = ntp_interval (clock m)"
    "flash_config (clock m') = flash_config (clock m)" "\<not> ap_mode_triggered (clock m')"
    "\<not> ntp_time_updated (clock m')" "tod w' = task_time (clock m, w)"
proof -
  obtain s' w' where t: "clock_task a re (clock m, w) = Done (s', w')" "ntp_state s' = ntp_after_turn re (clock m, w)"
    "ntp_interval s' = ntp_interval (clock m)" "flash_config s' = flash_config (clock m)" "\<not> ap_mode_triggered s'"
    "\<not> ntp_time_updated s'" "tod w' = task_time (clock m, w)"
    using task_served [OF assms(1-5)] assms(6) by auto
  show thesis
    by (cases "startup_led_active m \<and> ntp_status (ntp_state s') = NTP_IDLE")
      (use t in \<open>auto simp: main_iteration_def after_task_def intro!: that\<close>)
qed

section \<open>The invariant of the device and its environment\<close>

definition owed_inv :: "ip_addr_t \<Rightarrow> nat \<Rightarrow> ntp_state_t \<Rightarrow> int \<Rightarrow> owed \<Rightarrow> bool" where
  "owed_inv srv d n t r = (case r of
     Nothing \<Rightarrow> ntp_status n \<in> {NTP_IDLE, NTP_SUCCESS}
   | Name u \<Rightarrow> ntp_status n = NTP_PENDING \<and> u \<le> t \<and> t \<le> u + int d
   | Reply u \<Rightarrow> ntp_status n = NTP_PENDING \<and> ntp_server_address n = srv \<and> u \<le> t \<and> t \<le> u + int d)"

text \<open>The time to which a second may pass after a turn.\<close>

definition slack :: "nat \<Rightarrow> bool \<Rightarrow> int" where
  "slack d turned = int d + (if turned then 0 else 1)"

text \<open>The first request, made at \<open>t0\<close>, has not yet led to a time of day.\<close>

definition first_sync :: "nat \<Rightarrow> int \<Rightarrow> clock_state_t \<Rightarrow> int \<Rightarrow> owed \<Rightarrow> bool \<Rightarrow> bool" where
  "first_sync d t0 s t r turned \<longleftrightarrow> r = Name t0 \<or> r = Reply t0 \<or> ntp_time_updated s \<and> t \<le> t0 + slack d turned"

definition time_inv :: "nat \<Rightarrow> int \<Rightarrow> clock_state_t \<times> clock_world \<Rightarrow> int \<Rightarrow> owed \<Rightarrow> bool \<Rightarrow> bool" where
  "time_inv d t0 = (\<lambda>(s, w) t r turned.
     (ntp_time_updated s \<longrightarrow> ntp_time s \<le> t \<and> t \<le> ntp_time s + slack d turned)
     \<and> (tod w \<le> t \<and> t \<le> tod w + int d + 1 \<or> first_sync d t0 s t r turned))"

definition served_inv ::
  "lcd_assets \<Rightarrow> boot_env \<Rightarrow> ip_addr_t \<Rightarrow> nat \<Rightarrow> int \<Rightarrow> flash_config_t
   \<Rightarrow> main_state \<times> clock_world \<times> int \<times> owed \<times> bool \<Rightarrow> bool" where
  "served_inv a be srv d t0 c = (\<lambda>(m, w, t, r, turned). device_inv a be (m, w) \<and> flash_config (clock m) = c
     \<and> \<not> ap_mode_triggered (clock m) \<and> ns_port (ntp_state (clock m)) = ntp_port c
     \<and> owed_inv srv d (ntp_state (clock m)) t r \<and> time_inv d t0 (clock m, w) t r turned)"

lemma owed_inv_calm: "owed_inv srv d n t r \<Longrightarrow> calm n"
  by (auto simp: owed_inv_def calm_def split: owed.split_asm)

lemma slack_bounds: "int d \<le> slack d turned" "slack d turned \<le> int d + 1"
  by (simp_all add: slack_def)

lemma slack_simps [simp]: "slack d True = int d" "slack d False = int d + 1"
  by (simp_all add: slack_def)

text \<open>The callbacks of the timers leave the synchronisation alone.\<close>

lemma timer_event_fields:
  assumes "e = TimerTick True \<or> e = BacklightTick raw \<or> e = LedBlink" "device_step a be (m, w) e = Done (m', w')"
  shows "ntp_state (clock m') = ntp_state (clock m)" "flash_config (clock m') = flash_config (clock m)"
    "ap_mode_triggered (clock m') = ap_mode_triggered (clock m)" "ntp_time_updated (clock m') = ntp_time_updated (clock m)"
    "ntp_time (clock m') = ntp_time (clock m)" "tod w' = tod w"
  using assms by (auto simp: clock_timer_callback_def startup_led_callback_def split: prod.split_asm if_split_asm)

lemma served_inv_same:
  assumes "served_inv a be srv d t0 c (m, w, t, r, turned)" "device_inv a be (m', w')"
    "ntp_state (clock m') = ntp_state (clock m)" "flash_config (clock m') = flash_config (clock m)"
    "ap_mode_triggered (clock m') = ap_mode_triggered (clock m)" "ntp_time_updated (clock m') = ntp_time_updated (clock m)"
    "ntp_time (clock m') = ntp_time (clock m)" "tod w' = tod w"
  shows "served_inv a be srv d t0 c (m', w', t, r, turned)"
  using assms by (simp add: served_inv_def time_inv_def first_sync_def)

lemma device_step_inv: "device_inv a be x \<Longrightarrow> device_step a be x e = Done y \<Longrightarrow> device_inv a be y"
  using device.step_ok [of a be x e] by simp

lemma turn_owed:
  assumes "owed_inv srv d (ntp_state s) t r" "answers srv re"
  shows "owed_inv srv d (ntp_after_turn re (s, w)) t
      (if ntp_status (ntp_state s) \<noteq> NTP_PENDING \<and> ntp_status (ntp_after_turn re (s, w)) = NTP_PENDING then requested re s t else r)
    \<and> ns_port (ntp_after_turn re (s, w)) = ns_port (ntp_state s)
    \<and> (r \<noteq> Nothing \<longrightarrow> ntp_status (ntp_state s) = NTP_PENDING)"
proof -
  obtain e ntp sent where r: "request_of re s = (e, ntp, sent)" by (cases "request_of re s") auto
  note a = answered_request [OF assms(2) r, of t]
  have q: "requested re s t = Reply t \<or> requested re s t = Name t" by (simp add: requested_def)
  have st: "sync_due (s, w) \<Longrightarrow> ntp_status (ntp_state s) = NTP_IDLE" by (simp add: sync_due_def)
  show ?thesis
    using assms(1) a q st r by (auto simp: owed_inv_def ntp_after_turn_def split: owed.split_asm if_split_asm)
qed

lemma served_step_inv:
  assumes "served a be srv d x y" "served_inv a be srv d t0 c x" "srv \<noteq> 0"
  shows "served_inv a be srv d t0 c y"
proof -
  obtain m w t r turned where x: "x = (m, w, t, r, turned)" by (cases x)
  have inv: "device_inv a be (m, w)" "flash_config (clock m) = c" "\<not> ap_mode_triggered (clock m)"
    "ns_port (ntp_state (clock m)) = ntp_port c" "owed_inv srv d (ntp_state (clock m)) t r" "time_inv d t0 (clock m, w) t r turned"
    using assms(2) by (simp_all add: x served_inv_def)
  note keep = device_step_inv [OF inv(1)]
  from assms(1) show ?thesis unfolding x
  proof (cases rule: served.cases)
    case (second m' w')
    then have "m' = m" "w' = w\<lparr>tod := tod w + 1\<rparr>" by simp_all
    then show ?thesis using inv second keep [OF second(4)]
      by (auto simp: served_inv_def time_inv_def first_sync_def owed_inv_def split: owed.split)
  next
    case (tick m' w')
    from timer_event_fields [OF _ tick(2)] show ?thesis
      unfolding tick(1) by (intro served_inv_same [OF assms(2) [unfolded x] keep [OF tick(2)]]) simp_all
  next
    case (light e raw m' w')
    from timer_event_fields [OF _ light(3), of raw] light(2) show ?thesis
      unfolding light(1) by (intro served_inv_same [OF assms(2) [unfolded x] keep [OF light(3)]]) auto
  next
    case (turn re m' w')
    have ok: "wf_assets a" "clock_inv (clock m, w)" using inv(1) by (simp_all add: device_inv_def)
    obtain m1 w1 where s: "device_step a be (m, w) (MainLoop re) = Done (m1, w1)"
      "ntp_state (clock m1) = ntp_after_turn re (clock m, w)" "flash_config (clock m1) = flash_config (clock m)"
      "\<not> ap_mode_triggered (clock m1)" "\<not> ntp_time_updated (clock m1)" "tod w1 = task_time (clock m, w)"
      using turn_served [OF ok owed_inv_calm [OF inv(5)] turn(2,3) inv(3)] by metis
    have e: "m' = m1" "w' = w1" using s(1) turn(4) by simp_all
    note o = turn_owed [OF inv(5) turn(2), of w]
    have "time_inv d t0 (clock m1, w1) t
        (if ntp_status (ntp_state (clock m)) \<noteq> NTP_PENDING \<and> ntp_status (ntp_state (clock m1)) = NTP_PENDING
         then requested re (clock m) t else r) True"
      using inv(6) o s(5,6) slack_bounds [of d turned]
      by (auto simp: time_inv_def first_sync_def task_time_def split: if_split_asm)
    then show ?thesis using inv keep [OF turn(4)] s(2-4) o by (auto simp: turn(1) served_inv_def e)
  next
    case (name send m' w' u)
    have "ntp_state (clock m') = (ntp_state (clock m))\<lparr>ntp_server_address := srv\<rparr>" "clock m' = (clock m)\<lparr>ntp_state := ntp_state (clock m')\<rparr>"
      "tod w' = tod w"
      using name(3,4) assms(3) by (auto simp: ntp_dns_callback_def ntp_start_udp_request_def Let_def)
    then show ?thesis using inv keep [OF name(4)]
      by (cases "clock m'") (auto simp: name(1,2) served_inv_def time_inv_def first_sync_def owed_inv_def)
  next
    case (reply p u v m' w')
    have o: "ntp_status (ntp_state (clock m)) = NTP_PENDING" "ntp_server_address (ntp_state (clock m)) = srv" "v \<le> t" "t \<le> v + int d"
      using inv(5) by (simp_all add: owed_inv_def reply(1,2))
    have port: "ntp_port (flash_config (clock m)) = ns_port (ntp_state (clock m))" using inv(2,4) by simp
    have "clock m' = (clock m)\<lparr>ntp_time := u, ntp_time_updated := True, ntp_state := (ntp_state (clock m))\<lparr>ntp_error := NTP_OK,
        ntp_status := NTP_SUCCESS\<rparr>\<rparr>" "tod w' = tod w"
      using reply(8) by (auto simp: server_reply_accepted [OF reply(3,6,7) o(2) [symmetric] port] ntp_timer_callback_def)
    then show ?thesis using inv keep [OF reply(8)] reply(2,4,5) o(3,4) slack_bounds [of d turned]
      by (auto simp: reply(1,2) served_inv_def time_inv_def first_sync_def owed_inv_def)
  qed
qed

lemma served_reach_inv:
  assumes "(served a be srv d)\<^sup>*\<^sup>* x y" "served_inv a be srv d t0 c x" "srv \<noteq> 0"
  shows "served_inv a be srv d t0 c y"
  using assms(1,2) by (induction rule: rtranclp_induct) (auto intro: served_step_inv [OF _ _ assms(3)])

lemma served_start:
  assumes "wf_assets a" "boot_env_ok be" "timeouts_take_time (se_connect se) (se_elapsed_us se)" "flash_ok w"
    and "main_start a be led se w = Done (m, v)" "answers srv (se_request se)"
  shows "served_inv a be srv d t0 (flash w) (m, v, t0, requested (se_request se) (clock m) t0, False)"
proof -
  have "device_inv a be (m, v)" using main_start_device_inv [OF assms(1-4), of led] assms(5) by simp
  then show ?thesis
    using main_start_requests [OF assms(1,4-6), of t0]
    by (auto simp: served_inv_def time_inv_def first_sync_def owed_inv_def requested_def split: if_split_asm)
qed

section \<open>Time can always pass\<close>

lemma answer_paid:
  assumes "served_inv a be srv d t0 c (m, w, t, r, turned)" "srv \<noteq> 0" "0 \<le> t" "t < 2 ^ 32"
  obtains m' w' where "(served a be srv d)\<^sup>*\<^sup>* (m, w, t, r, turned) (m', w', t, Nothing, turned)"
proof -
  have pay: "\<exists>m' w'. served a be srv d (m, w, t, Reply u, turned) (m', w', t, Nothing, turned)"
    if "u \<le> t" for u m w
  proof -
    obtain m' w' where "device_step a be (m, w) (NtpPacket (reply_packet t) srv (ntp_port (flash_config (clock m)))) = Done (m', w')"
      by (cases "ntp_recv_callback ntp_timer_callback (reply_packet t) srv (ntp_port (flash_config (clock m))) (ntp_state (clock m), clock m)") simp
    from served.reply [OF reply_packet_ok that order_refl assms(3,4) this] show ?thesis by auto
  qed
  show thesis
  proof (cases r)
    case Nothing
    then show thesis using that by blast
  next
    case (Name u)
    then have u: "u \<le> t" using assms(1) by (simp add: served_inv_def owed_inv_def)
    obtain m1 w1 where n: "device_step a be (m, w) (DnsAnswer True (\<lambda>_. 0) (Some srv)) = Done (m1, w1)"
      by (cases "ntp_dns_callback True (\<lambda>_. 0) (Some srv) (ntp_state (clock m))") simp
    from pay [OF u, of m1 w1] obtain m2 w2 where p: "served a be srv d (m1, w1, t, Reply u, turned) (m2, w2, t, Nothing, turned)"
      by blast
    have "served a be srv d (m, w, t, r, turned) (m1, w1, t, Reply u, turned)"
      unfolding Name by (rule served.name [OF _ n]) simp
    then show thesis using p that converse_rtranclp_into_rtranclp [OF _ r_into_rtranclp] by metis
  next
    case (Reply u)
    then show thesis using pay [of u m w] that assms(1) by (auto simp: served_inv_def owed_inv_def)
  qed
qed

lemma time_passes:
  assumes "served_inv a be srv d t0 c (m, w, t, r, turned)" "srv \<noteq> 0" "0 \<le> t" "t < 2 ^ 32"
  shows "\<exists>m' w' r'. (served a be srv d)\<^sup>*\<^sup>* (m, w, t, r, turned) (m', w', t + 1, r', False)"
proof -
  define re where "re = \<lparr>re_now_ms = request_start_ms (ntp_state (clock m)), re_gethostbyname = (\<lambda>_. (ERR_OK, Some srv)),
    re_pbuf_alloc = True, re_udp_sendto = (\<lambda>_. 0)\<rparr>"
  have re: "answers srv re" "in_time re (clock m)" by (simp_all add: answers_def in_time_def re_def)
  have inv: "wf_assets a" "clock_inv (clock m, w)" "\<not> ap_mode_triggered (clock m)"
    "owed_inv srv d (ntp_state (clock m)) t r"
    using assms(1) by (simp_all add: served_inv_def device_inv_def)
  obtain m1 w1 where t: "device_step a be (m, w) (MainLoop re) = Done (m1, w1)"
    using turn_served [OF inv(1,2) owed_inv_calm [OF inv(4)] re inv(3)] by metis
  obtain r1 where 1: "served a be srv d (m, w, t, r, turned) (m1, w1, t, r1, True)"
    using served.turn [OF re t] by blast
  obtain m2 w2 where 2: "(served a be srv d)\<^sup>*\<^sup>* (m1, w1, t, r1, True) (m2, w2, t, Nothing, True)"
    by (rule answer_paid [OF served_step_inv [OF 1 assms(1,2)] assms(2-4)])
  have "served a be srv d (m2, w2, t, Nothing, True) (m2, w2\<lparr>tod := tod w2 + 1\<rparr>, t + 1, Nothing, False)"
    by (rule served.second) simp_all
  with 1 2 show ?thesis
    by (meson converse_rtranclp_into_rtranclp rtranclp.rtrancl_into_rtrancl)
qed

section \<open>Properties\<close>


section \<open>Examples\<close>


end
