(* ===== verification/Flash.thy ===== *)
theory Flash
  imports Device CStruct
begin

text \<open>
  The configuration in the flash, byte by byte: the layout of \<open>flash_config_t\<close>, the page that
  \<open>config_store_handler\<close> writes, and what \<open>clock_init\<close> reads back. \<open>Clock\<close> keeps the
  configuration in the flash as a record; here the record is shown to be what the bytes mean, at every
  moment at which the power may be cut. Offsets in the flash are numbers; the calls of the SDK that erase and
  program it are arguments, with their documented effect as a hypothesis.
\<close>

section \<open>The bytes of a configuration\<close>

text \<open>The size of an enumeration is the compiler's choice, 1 or 4 bytes.\<close>

definition flash_config_fields :: "nat \<Rightarrow> c_field list" where
  "flash_config_fields enum_size =
     [(''magic_marker'', 4, 4), (''wifi_ssid'', WIFI_SSID_MAX_LEN + 1, 1), (''wifi_password'', WIFI_PASSWORD_MAX_LEN + 1, 1),
      (''ntp_server'', HOSTNAME_MAX_LEN + 1, 1), (''tz_offset_mins'', 2, 2), (''dst_rule'', enum_size, enum_size),
      (''ntp_timeout'', 4, 4), (''ntp_port'', 2, 2), (''led_always_on'', 1, 1)]"

fun dst_rule_number :: "dst_rule_t \<Rightarrow> nat" where
  "dst_rule_number DST_RULE_NONE = 0"
| "dst_rule_number DST_RULE_NA = 1"
| "dst_rule_number DST_RULE_EU = 2"
| "dst_rule_number DST_RULE_AU = 3"
| "dst_rule_number DST_RULE_NZ = 4"
| "dst_rule_number DST_RULE_CL = 5"
| "dst_rule_number DST_RULE_IL = 6"

definition dst_rules :: "dst_rule_t list" where
  "dst_rules = [DST_RULE_NONE, DST_RULE_NA, DST_RULE_EU, DST_RULE_AU, DST_RULE_NZ, DST_RULE_CL, DST_RULE_IL]"

definition flash_config_values :: "nat \<Rightarrow> flash_config_t \<Rightarrow> (string \<times> nat \<times> u8 list) list" where
  "flash_config_values enum_size c =
     [(''magic_marker'', 4, mem_bytes32 (magic_marker c)), (''wifi_ssid'', 1, bytes_of_chars (wifi_ssid c)),
      (''wifi_password'', 1, bytes_of_chars (wifi_password c)), (''ntp_server'', 1, bytes_of_chars (ntp_server c)),
      (''tz_offset_mins'', 2, mem_bytes16 (tz_offset_mins c)),
      (''dst_rule'', enum_size, of_nat (dst_rule_number (dst_rule c)) # replicate (enum_size - 1) 0),
      (''ntp_timeout'', 4, mem_bytes32 (ntp_timeout c)), (''ntp_port'', 2, mem_bytes16 (ntp_port c)),
      (''led_always_on'', 1, [if led_always_on c then 1 else 0])]"

text \<open>The memory of a \<open>flash_config_t\<close>, the padding after its last field included.\<close>

definition flash_config_bytes :: "nat \<Rightarrow> (nat \<Rightarrow> u8) \<Rightarrow> flash_config_t \<Rightarrow> u8 list" where
  "flash_config_bytes enum_size pad c =
     (let bs = struct_bytes pad 0 (flash_config_values enum_size c)
      in bs @ map pad [length bs..<sizeof (flash_config_fields enum_size)])"

text \<open>Reading it back. A byte that is no value of its field's type is \<open>None\<close>.\<close>

definition flash_config_of_bytes :: "nat \<Rightarrow> u8 list \<Rightarrow> flash_config_t option" where
  "flash_config_of_bytes enum_size m =
     (let get = (\<lambda>x. field_bytes (flash_config_fields enum_size) x m) in do {
        rule \<leftarrow> buf_get (get ''dst_rule'') 0;
        dst \<leftarrow> (if tl (get ''dst_rule'') = replicate (enum_size - 1) 0 then buf_get dst_rules (unat rule) else None);
        led \<leftarrow> (if get ''led_always_on'' = [1] then Some True else if get ''led_always_on'' = [0] then Some False else None);
        Some \<lparr>magic_marker = mem_word32 (get ''magic_marker''), wifi_ssid = chars_of_bytes (get ''wifi_ssid''),
          wifi_password = chars_of_bytes (get ''wifi_password''), ntp_server = chars_of_bytes (get ''ntp_server''),
          tz_offset_mins = mem_word16 (get ''tz_offset_mins''), dst_rule = dst,
          ntp_timeout = mem_word32 (get ''ntp_timeout''), ntp_port = mem_word16 (get ''ntp_port''), led_always_on = led\<rparr> })"

section \<open>The flash\<close>

type_synonym flash_mem = "nat \<Rightarrow> u8"

record flash_sdk =
  FLASH_PAGE_SIZE :: nat
  FLASH_SECTOR_SIZE :: nat
  flash_range_erase :: "nat \<Rightarrow> nat \<Rightarrow> flash_mem \<Rightarrow> flash_mem"
  flash_range_program :: "nat \<Rightarrow> u8 list \<Rightarrow> flash_mem \<Rightarrow> flash_mem"

definition FLASH_TARGET_OFFSET :: nat where "FLASH_TARGET_OFFSET = 1024 * 1024"

text \<open>\<open>config_store_handler\<close>: the contents of the flash after each of the two calls, in their order.\<close>

definition config_store_steps ::
  "flash_sdk \<Rightarrow> nat \<Rightarrow> (nat \<Rightarrow> u8) \<Rightarrow> flash_config_t \<Rightarrow> bool \<Rightarrow> flash_mem \<Rightarrow> (flash_mem \<times> flash_mem) option" where
  "config_store_steps sdk enum_size pad config invalidate mem = do {
     let config = config\<lparr>magic_marker := (if invalidate then 0xffffffff else CONFIG_MAGIC)\<rparr>;
     flash_buf \<leftarrow> buf_put (replicate (FLASH_PAGE_SIZE sdk) 0xff) 0 (flash_config_bytes enum_size pad config);
     let erased = flash_range_erase sdk FLASH_TARGET_OFFSET (FLASH_SECTOR_SIZE sdk) mem;
     let programmed = flash_range_program sdk FLASH_TARGET_OFFSET flash_buf erased;
     Some (erased, programmed) }"

text \<open>What \<open>clock_init\<close> takes from the flash: the configuration behind the marker, if it is there.\<close>

definition flash_struct :: "nat \<Rightarrow> flash_mem \<Rightarrow> u8 list" where
  "flash_struct enum_size mem = map (\<lambda>i. mem (FLASH_TARGET_OFFSET + i)) [0..<sizeof (flash_config_fields enum_size)]"

definition flash_magic :: "nat \<Rightarrow> flash_mem \<Rightarrow> u32" where
  "flash_magic enum_size mem = mem_word32 (field_bytes (flash_config_fields enum_size) ''magic_marker'' (flash_struct enum_size mem))"

definition load_config :: "nat \<Rightarrow> flash_mem \<Rightarrow> flash_config_t option" where
  "load_config enum_size mem =
     (if flash_magic enum_size mem = CONFIG_MAGIC then flash_config_of_bytes enum_size (flash_struct enum_size mem) else None)"

text \<open>
  The SDK's documentation: the sizes; erasing whole sectors sets them to 0xff; programming whole pages
  of erased flash stores the data; nothing else changes.
\<close>

definition flash_sdk_ok :: "flash_sdk \<Rightarrow> bool" where
  "flash_sdk_ok sdk \<longleftrightarrow> FLASH_PAGE_SIZE sdk = 256 \<and> FLASH_SECTOR_SIZE sdk = 4096
     \<and> (\<forall>off n mem. 4096 dvd off \<and> 4096 dvd n \<longrightarrow>
          flash_range_erase sdk off n mem = (\<lambda>i. if off \<le> i \<and> i < off + n then 0xff else mem i))
     \<and> (\<forall>off bs mem. 256 dvd off \<and> 256 dvd length bs \<and> (\<forall>i < length bs. mem (off + i) = 0xff) \<longrightarrow>
          flash_range_program sdk off bs mem = (\<lambda>i. if off \<le> i \<and> i < off + length bs then bs ! (i - off) else mem i))"

section \<open>Lemmas\<close>

definition enum_sizes :: "nat set" where "enum_sizes = {1, 4}"

lemma shape_flash_config_values:
  assumes "wf_flash_config c" "enum_size \<in> enum_sizes"
  shows "shape (flash_config_values enum_size c) = flash_config_fields enum_size"
  using assms by (auto simp: flash_config_values_def flash_config_fields_def wf_flash_config_def terminated_array_def
      bytes_of_chars_def enum_sizes_def)

lemma flash_config_values_ok:
  "enum_size \<in> enum_sizes \<Longrightarrow> \<forall>(x, a, bs) \<in> set (flash_config_values enum_size c). 0 < a"
  "distinct (map fst (flash_config_values enum_size c))"
  by (auto simp: flash_config_values_def enum_sizes_def)

lemma flash_config_layout_values:
  assumes "enum_size \<in> enum_sizes"
  shows "map (offset_of (flash_config_fields enum_size)) [''magic_marker'', ''wifi_ssid'', ''wifi_password'', ''ntp_server'',
      ''tz_offset_mins'', ''dst_rule'', ''ntp_timeout'', ''ntp_port'', ''led_always_on''] = [0, 4, 37, 101, 166, 168, 172, 176, 178]"
    "sizeof (flash_config_fields enum_size) = 180" "fields_end 0 (flash_config_fields enum_size) = 179"
  using assms
  by (auto simp: enum_sizes_def flash_config_fields_def offset_of_def sizeof_def align_up_def config_defs)

lemma length_flash_config_bytes:
  assumes "wf_flash_config c" "enum_size \<in> enum_sizes"
  shows "length (flash_config_bytes enum_size pad c) = 180"
proof -
  have "length (struct_bytes pad 0 (flash_config_values enum_size c)) = 179"
    by (simp add: length_struct_bytes [OF flash_config_values_ok(1) [OF assms(2)]]
        shape_flash_config_values [OF assms] flash_config_layout_values(3) [OF assms(2)])
  then show ?thesis by (simp add: flash_config_bytes_def Let_def flash_config_layout_values(2) [OF assms(2)])
qed

lemma flash_config_field:
  assumes "wf_flash_config c" "enum_size \<in> enum_sizes" "(x, a, bs) \<in> set (flash_config_values enum_size c)"
  shows "field_bytes (flash_config_fields enum_size) x (flash_config_bytes enum_size pad c) = bs"
  using struct_bytes_field_bytes [OF flash_config_values_ok(1) [OF assms(2)] flash_config_values_ok(2) assms(3)]
  by (simp add: shape_flash_config_values [OF assms(1,2)] flash_config_bytes_def Let_def)

lemma dst_rules_number: "buf_get dst_rules (dst_rule_number r) = Some r" "dst_rule_number r < 7"
  by (cases r; simp add: dst_rules_def)+

lemma flash_config_roundtrip:
  assumes "wf_flash_config c" "enum_size \<in> enum_sizes"
  shows "flash_config_of_bytes enum_size (flash_config_bytes enum_size pad c) = Some c"
proof -
  note f = flash_config_field [OF assms]
  have get: "field_bytes (flash_config_fields enum_size) x (flash_config_bytes enum_size pad c) = v"
    if "(x, v) \<in> set (map (\<lambda>(x, a, v). (x, v)) (flash_config_values enum_size c))" for x v
    using that f by fastforce
  have "unat (of_nat (dst_rule_number (dst_rule c)) :: u8) = dst_rule_number (dst_rule c)"
    using dst_rules_number(2) [of "dst_rule c"] by (simp add: unat_of_nat)
  then show ?thesis
    by (simp add: flash_config_of_bytes_def get [unfolded flash_config_values_def] dst_rules_number chars_of_bytes_of_chars)
qed

section \<open>A store, call by call\<close>

definition FLASH_SECTOR_BYTES :: nat where "FLASH_SECTOR_BYTES = 4096"

lemma config_store_steps_result:
  fixes invalidate :: bool
  assumes "flash_sdk_ok sdk" "enum_size \<in> enum_sizes" "wf_flash_config c"
  defines "c' \<equiv> c\<lparr>magic_marker := (if invalidate then 0xffffffff else CONFIG_MAGIC)\<rparr>"
  obtains m1 m2 where "config_store_steps sdk enum_size pad c invalidate mem = Some (m1, m2)"
    "flash_struct enum_size m1 = replicate 180 0xff" "flash_struct enum_size m2 = flash_config_bytes enum_size pad c'"
    "\<forall>i. i < FLASH_TARGET_OFFSET \<or> FLASH_TARGET_OFFSET + FLASH_SECTOR_BYTES \<le> i \<longrightarrow> m1 i = mem i \<and> m2 i = mem i"
proof -
  let ?bs = "flash_config_bytes enum_size pad c'"
  have len: "length ?bs = 180"
    using assms(3) by (intro length_flash_config_bytes [OF _ assms(2)]) (simp add: c'_def wf_flash_config_def)
  let ?buf = "?bs @ replicate 76 0xff"
  define m1 where "m1 = flash_range_erase sdk FLASH_TARGET_OFFSET (FLASH_SECTOR_SIZE sdk) mem"
  define m2 where "m2 = flash_range_program sdk FLASH_TARGET_OFFSET ?buf m1"
  have al: "4096 dvd FLASH_TARGET_OFFSET" "256 dvd FLASH_TARGET_OFFSET" by (simp_all add: FLASH_TARGET_OFFSET_def)
  have m1: "m1 = (\<lambda>i. if FLASH_TARGET_OFFSET \<le> i \<and> i < FLASH_TARGET_OFFSET + 4096 then 0xff else mem i)"
    using assms(1) al(1) by (simp add: m1_def flash_sdk_ok_def)
  have "\<forall>i < length ?buf. m1 (FLASH_TARGET_OFFSET + i) = 0xff" by (simp add: m1 len)
  then have m2: "m2 = (\<lambda>i. if FLASH_TARGET_OFFSET \<le> i \<and> i < FLASH_TARGET_OFFSET + 256 then ?buf ! (i - FLASH_TARGET_OFFSET) else m1 i)"
    using assms(1) al(2) by (simp add: m2_def flash_sdk_ok_def len)
  show thesis
  proof (rule that)
    show "config_store_steps sdk enum_size pad c invalidate mem = Some (m1, m2)"
      using assms(1) len by (simp add: config_store_steps_def flash_sdk_ok_def c'_def m1_def m2_def Let_def)
    show "flash_struct enum_size m1 = replicate 180 0xff"
      by (rule nth_equalityI) (simp_all add: flash_struct_def flash_config_layout_values(2) [OF assms(2)] m1)
    show "flash_struct enum_size m2 = ?bs"
      by (rule nth_equalityI) (simp_all add: flash_struct_def flash_config_layout_values(2) [OF assms(2)] m2 len nth_append)
    show "\<forall>i. i < FLASH_TARGET_OFFSET \<or> FLASH_TARGET_OFFSET + FLASH_SECTOR_BYTES \<le> i \<longrightarrow> m1 i = mem i \<and> m2 i = mem i"
      by (auto simp: m1 m2 FLASH_SECTOR_BYTES_def)
  qed
qed

lemma erased_magic:
  assumes "enum_size \<in> enum_sizes" "flash_struct enum_size m = replicate 180 0xff"
  shows "flash_magic enum_size m \<noteq> CONFIG_MAGIC"
proof -
  have "field_bytes (flash_config_fields enum_size) ''magic_marker'' (flash_struct enum_size m) = replicate 4 0xff"
    using flash_config_layout_values(1) [OF assms(1)] by (simp add: field_bytes_def assms(2) flash_config_fields_def)
  also have "\<dots> = [0xff, 0xff, 0xff, 0xff]" by (simp add: numeral_eq_Suc)
  finally show ?thesis by (simp add: flash_magic_def mem_word32_def be32_def CONFIG_MAGIC_value)
qed

lemma stored_magic:
  assumes "wf_flash_config c" "enum_size \<in> enum_sizes" "flash_struct enum_size m = flash_config_bytes enum_size pad c"
  shows "flash_magic enum_size m = magic_marker c" "flash_magic enum_size m = CONFIG_MAGIC \<Longrightarrow> load_config enum_size m = Some c"
proof -
  have "(''magic_marker'', 4, mem_bytes32 (magic_marker c)) \<in> set (flash_config_values enum_size c)"
    by (simp add: flash_config_values_def)
  from flash_config_field [OF assms(1,2) this] show "flash_magic enum_size m = magic_marker c"
    by (simp add: flash_magic_def assms(3))
  then show "flash_magic enum_size m = CONFIG_MAGIC \<Longrightarrow> load_config enum_size m = Some c"
    by (simp add: load_config_def assms(3) flash_config_roundtrip [OF assms(1,2)])
qed

section \<open>Refinement\<close>

text \<open>
  The record that \<open>Clock\<close> keeps for the flash is what the code reads from the bytes: the marker is there
  in both or in neither, and behind the marker lies that record.
\<close>

definition flash_rel :: "nat \<Rightarrow> flash_mem \<Rightarrow> flash_config_t \<Rightarrow> bool" where
  "flash_rel enum_size mem c \<longleftrightarrow> (flash_magic enum_size mem = CONFIG_MAGIC \<longleftrightarrow> magic_marker c = CONFIG_MAGIC)
     \<and> (magic_marker c = CONFIG_MAGIC \<longrightarrow> load_config enum_size mem = Some c)"

lemma flash_rel_stored:
  "wf_flash_config c \<Longrightarrow> enum_size \<in> enum_sizes \<Longrightarrow> flash_struct enum_size m = flash_config_bytes enum_size pad c
    \<Longrightarrow> flash_rel enum_size m c"
  using stored_magic [of c enum_size m pad] by (auto simp: flash_rel_def)

lemma config_store_handler_flash:
  "(case config_store_handler c invalidate w of Done (ok, w') \<Rightarrow> R w' | Reboot w' \<Rightarrow> R w' | Hang \<Rightarrow> False | Fault \<Rightarrow> False)
    = R (w\<lparr>flash := c\<lparr>magic_marker := (if invalidate then 0xffffffff else CONFIG_MAGIC)\<rparr>\<rparr>)"
  by (cases invalidate) (simp_all add: config_store_handler_def system_reboot_def Let_def)

section \<open>Properties\<close>

text \<open>
  C33: The layout of the stored configuration, for either size of an enumeration: every field lies at an
  offset that its alignment divides, behind the end of the field before it; the two words, the two
  half-words and the texts are at the offsets given; the struct has 180 bytes, so the copy into the
  256-byte page buffer stays inside it; and the bytes of a well-formed configuration are exactly that many.
\<close>

theorem flash_config_layout:
  assumes "enum_size \<in> enum_sizes" and "wf_flash_config c"
  shows "map (offset_of (flash_config_fields enum_size)) [''magic_marker'', ''wifi_ssid'', ''wifi_password'', ''ntp_server'',
      ''tz_offset_mins'', ''dst_rule'', ''ntp_timeout'', ''ntp_port'', ''led_always_on''] = [0, 4, 37, 101, 166, 168, 172, 176, 178]
    \<and> list_all (\<lambda>(x, s, a). a dvd offset_of (flash_config_fields enum_size) x) (flash_config_fields enum_size)
    \<and> sorted_wrt (\<lambda>(x, s, a) (y, t, b). offset_of (flash_config_fields enum_size) x + s \<le> offset_of (flash_config_fields enum_size) y)
        (flash_config_fields enum_size)
    \<and> sizeof (flash_config_fields enum_size) = 180 \<and> length (flash_config_bytes enum_size pad c) = sizeof (flash_config_fields enum_size)
    \<and> buf_put (replicate 256 0xff) 0 (flash_config_bytes enum_size pad c) \<noteq> None"
proof -
  note v = flash_config_layout_values [OF assms(1)]
  have "list_all (\<lambda>(x, s, a). a dvd offset_of (flash_config_fields enum_size) x) (flash_config_fields enum_size)"
    "sorted_wrt (\<lambda>(x, s, a) (y, t, b). offset_of (flash_config_fields enum_size) x + s \<le> offset_of (flash_config_fields enum_size) y)
        (flash_config_fields enum_size)"
    using v(1) assms(1) by (auto simp: enum_sizes_def flash_config_fields_def config_defs)
  then show ?thesis using v length_flash_config_bytes [OF assms(2,1)] by simp
qed

text \<open>
  C14: A configuration survives the flash. After \<open>config_store_handler\<close> the next start-up reads exactly the
  configuration that was stored, with the marker, or none if it was invalidated, whatever the padding
  bytes were; if the power is cut between the erasing and the programming it reads none; and no byte outside
  the configuration's sector has changed.
\<close>

theorem config_survives_flash:
  assumes "flash_sdk_ok sdk" and "enum_size \<in> enum_sizes" and "wf_flash_config c"
  shows "\<exists>m1 m2. config_store_steps sdk enum_size pad c invalidate mem = Some (m1, m2)
    \<and> load_config enum_size m2 = (if invalidate then None else Some (c\<lparr>magic_marker := CONFIG_MAGIC\<rparr>))
    \<and> load_config enum_size m1 = None
    \<and> (\<forall>i. i < FLASH_TARGET_OFFSET \<or> FLASH_TARGET_OFFSET + 4096 \<le> i \<longrightarrow> m1 i = mem i \<and> m2 i = mem i)"
proof -
  let ?c = "c\<lparr>magic_marker := (if invalidate then 0xffffffff else CONFIG_MAGIC)\<rparr>"
  obtain m1 m2 where m: "config_store_steps sdk enum_size pad c invalidate mem = Some (m1, m2)"
    "flash_struct enum_size m1 = replicate 180 0xff" "flash_struct enum_size m2 = flash_config_bytes enum_size pad ?c"
    "\<forall>i. i < FLASH_TARGET_OFFSET \<or> FLASH_TARGET_OFFSET + FLASH_SECTOR_BYTES \<le> i \<longrightarrow> m1 i = mem i \<and> m2 i = mem i"
    by (rule config_store_steps_result [OF assms, where invalidate = invalidate and pad = pad and mem = mem])
  have "wf_flash_config ?c" using assms(3) by (simp add: wf_flash_config_def)
  note s = stored_magic [OF this assms(2) m(3)]
  have "load_config enum_size m2 = (if invalidate then None else Some (c\<lparr>magic_marker := CONFIG_MAGIC\<rparr>))"
    using s by (cases invalidate) (simp_all add: load_config_def CONFIG_MAGIC_value)
  moreover have "load_config enum_size m1 = None" using erased_magic [OF assms(2) m(2)] by (simp add: load_config_def)
  ultimately show ?thesis using m(1,4) by (auto simp: FLASH_SECTOR_BYTES_def)
qed


section \<open>Examples\<close>

definition sample_sdk :: flash_sdk where
  "sample_sdk = \<lparr>FLASH_PAGE_SIZE = 256, FLASH_SECTOR_SIZE = 4096,
     flash_range_erase = (\<lambda>off n mem i. if off \<le> i \<and> i < off + n then 0xff else mem i),
     flash_range_program = (\<lambda>off bs mem i. if off \<le> i \<and> i < off + length bs then mem i AND bs ! (i - off) else mem i)\<rparr>"

lemma sample_sdk_ok: "flash_sdk_ok sample_sdk"
proof -
  have ff: "(0xff :: u8) = - 1" by simp
  have "flash_range_program sample_sdk off bs mem = (\<lambda>i. if off \<le> i \<and> i < off + length bs then bs ! (i - off) else mem i)"
    if "\<forall>i < length bs. mem (off + i) = 0xff" for off bs mem
  proof
    fix i
    have "mem i = - 1" if "off \<le> i" "i < off + length bs"
      using \<open>\<forall>i < length bs. mem (off + i) = 0xff\<close> [rule_format, of "i - off"] that by (simp add: ff)
    then show "flash_range_program sample_sdk off bs mem i = (if off \<le> i \<and> i < off + length bs then bs ! (i - off) else mem i)"
      by (simp add: sample_sdk_def)
  qed
  then show ?thesis by (simp add: flash_sdk_ok_def) (simp add: sample_sdk_def)
qed

lemma sample_config_wf: "wf_flash_config sample_config_valid"
  using sample_config_is_valid by (simp add: valid_config_def)

theorem flash_config_layout_witness:
  "sizeof (flash_config_fields 4) = 180 \<and> length (flash_config_bytes 4 (\<lambda>_. 0) sample_config_valid) = 180"
  using flash_config_layout [OF _ sample_config_wf, of 4 "\<lambda>_. 0"] by (simp add: enum_sizes_def)

theorem config_survives_flash_witness:
  "\<exists>m1 m2. config_store_steps sample_sdk 1 (\<lambda>_. 0xaa) sample_config_valid False (\<lambda>_. 0) = Some (m1, m2)
    \<and> load_config 1 m2 = Some (sample_config_valid\<lparr>magic_marker := CONFIG_MAGIC\<rparr>) \<and> m2 0 = 0"
proof -
  have "(1 :: nat) \<in> enum_sizes" by (simp add: enum_sizes_def)
  from config_survives_flash [OF sample_sdk_ok this sample_config_wf, of "\<lambda>_. 0xaa" False "\<lambda>_. 0"]
  show ?thesis by (auto simp: FLASH_TARGET_OFFSET_def)
qed


end
