(* ===== verification/HttpServe.thy ===== *)
theory HttpServe
  imports TcpServer
begin

text \<open>
  The life of a connection of the configuration web server: from the packet that completes a GET request
  over the acknowledgements of the response to the release of its slot, with the bounds of the stack's send
  queue (src/src/lwipopts.h).
\<close>

section \<open>The response to a GET request\<close>

definition get_writes :: "tcp_env \<Rightarrow> string \<Rightarrow> tcp_server_t \<Rightarrow> string list" where
  "get_writes env request s =
     (if is_config_page request then [HTTP_RESPONSE_OK_HEADER, c_str (html_form_expanded s)]
      else [HTTP_RESPONSE_REDIRECT_HEADER (env_ntoa env (gw s))])"

definition response_length :: "string list \<Rightarrow> nat" where
  "response_length ts = sum_list (map length ts)"

text \<open>The segments that \<open>tcp_write\<close> makes of the texts.\<close>

definition segments :: "string list \<Rightarrow> nat" where
  "segments ts = sum_list (map (\<lambda>t. (length t + TCP_MSS - 1) div TCP_MSS) ts)"

text \<open>A dotted address has at most 15 characters.\<close>

definition page_bounds :: "tcp_env \<Rightarrow> tcp_server_t \<Rightarrow> bool" where
  "page_bounds env s \<longleftrightarrow> length (html_form_expanded s) \<le> 8192 \<and> (\<forall>ip. length (env_ntoa env ip) \<le> 15)"

lemma redirect_length: "length (HTTP_RESPONSE_REDIRECT_HEADER ip) = 73 + length ip"
  by (simp add: HTTP_RESPONSE_REDIRECT_HEADER_def HTTP_CONFIG_URL_def CRLF_def)

lemma get_writes_bounds:
  assumes "page_bounds env s"
  shows "0 < response_length (get_writes env request s)" "response_length (get_writes env request s) \<le> TCP_SND_BUF"
    "TCP_IP_MAX_CONNECTIONS * segments (get_writes env request s) \<le> MEMP_NUM_TCP_SEG"
    "segments (get_writes env request s) \<le> TCP_SND_QUEUELEN"
proof -
  have page: "length (c_str (html_form_expanded s)) \<le> 8192"
    using assms c_str_length [of "html_form_expanded s"] by (simp add: page_bounds_def)
  have ip: "length (env_ntoa env (gw s)) \<le> 15" using assms by (simp add: page_bounds_def)
  have "(length (c_str (html_form_expanded s)) + 1460 - 1) div 1460 \<le> (8192 + 1460 - 1) div 1460"
    using page by (intro div_le_mono) simp
  moreover have "(73 + length (env_ntoa env (gw s)) + 1460 - 1) div 1460 \<le> (73 + 15 + 1460 - 1) div 1460"
    using ip by (intro div_le_mono) simp
  ultimately have seg: "segments (get_writes env request s) \<le> 7"
    by (simp add: segments_def get_writes_def header_lengths redirect_length TCP_MSS_def)
  then show "TCP_IP_MAX_CONNECTIONS * segments (get_writes env request s) \<le> MEMP_NUM_TCP_SEG"
    "segments (get_writes env request s) \<le> TCP_SND_QUEUELEN"
    by (simp_all add: TCP_IP_MAX_CONNECTIONS_def lwip_options)
  show "0 < response_length (get_writes env request s)" "response_length (get_writes env request s) \<le> TCP_SND_BUF"
    using page ip by (simp_all add: response_length_def get_writes_def header_lengths redirect_length lwip_options)
qed

text \<open>The packet that completes the request has the response written, whole, and the lengths kept.\<close>

lemma recv_get:
  assumes "tcp_inv s" "pcb_arg s p = Some i" "page_bounds env s" "result_len (connections s ! i) = 0"
    and "append_packet (headers (connections s ! i)) pb = Some h" "buffer_ok h"
    and "check_request (c_str h) = Proceed" "\<not> is_post (c_str h)"
  obtains s' c where "tcp_dispatch s (env, Recv p (Some pb)) = Some s'"
    "s' = emit (map (TcpWrite p) (get_writes env (c_str h) s)) (set_con i c s)"
    "sent_len c = sent_len (connections s ! i)" "header_len c + result_len c = int (response_length (get_writes env (c_str h) s))"
    "take (length (hd (get_writes env (c_str h) s))) (headers c) = hd (get_writes env (c_str h) s)"
proof -
  have i: "i < 4" "i < length (connections s)"
    using assms(1,2) by (simp_all add: tcp_inv_def TCP_IP_MAX_CONNECTIONS_def)
  have gw: "con_gw (connections s ! i) = Some (gw s)"
    using assms(1,2) tcp_inv_nth [OF assms(1) i(1)] by (simp add: con_ok_def tcp_inv_def)
  have html: "arr_string (html_form_expanded s) = Some (c_str (html_form_expanded s))"
    using assms(1) by (simp add: tcp_inv_def arr_string_def)
  have bounds: "length (c_str (html_form_expanded s)) \<le> 8192" "length (env_ntoa env (gw s)) \<le> 15"
    using assms(3) c_str_length [of "html_form_expanded s"] by (simp_all add: page_bounds_def)
  have r: "tcp_dispatch s (env, Recv p (Some pb)) = map_option fst
      (if is_config_page (c_str h) then handle_page env i p (set_con i ((connections s ! i)\<lparr>headers := h\<rparr>) s)
       else handle_redirect env i p (set_con i ((connections s ! i)\<lparr>headers := h\<rparr>) s))"
    using assms(2,5,7,8) buffer_ok_string [OF assms(6)] by (simp add: tcp_dispatch_def tcp_server_recv_def Let_def)
  show thesis
  proof (cases "is_config_page (c_str h)")
    case True
    obtain h1 where h1: "snprintf h HTTP_RESPONSE_OK_HEADER = Some h1" "buffer_ok h1"
      "take (length HTTP_RESPONSE_OK_HEADER) h1 = HTTP_RESPONSE_OK_HEADER"
      using snprintf_result [OF assms(6), of HTTP_RESPONSE_OK_HEADER]
      by (metis header_lengths TCP_IP_BUFFER_SIZE_def numeral_less_iff semiring_norm(76,78,80,81))
    let ?c = "(connections s ! i)\<lparr>headers := h1, header_len := int (length HTTP_RESPONSE_OK_HEADER),
        result_len := int (length (c_str (html_form_expanded s)))\<rparr>"
    show thesis
    proof (rule that [of _ ?c])
      show "tcp_dispatch s (env, Recv p (Some pb)) = Some (emit (map (TcpWrite p) (get_writes env (c_str h) s)) (set_con i ?c s))"
        using i h1 bounds(1) by (simp add: r True handle_page_def html set_con_def Let_def header_lengths get_writes_def
            buffer_ok_def TCP_IP_BUFFER_SIZE_def)
    qed (simp_all add: True get_writes_def response_length_def h1(3))
  next
    case False
    let ?t = "HTTP_RESPONSE_REDIRECT_HEADER (env_ntoa env (gw s))"
    have len: "length ?t < TCP_IP_BUFFER_SIZE" using bounds(2) by (simp add: redirect_length TCP_IP_BUFFER_SIZE_def)
    have ne: "?t \<noteq> []" by (simp add: HTTP_RESPONSE_REDIRECT_HEADER_def)
    obtain h1 where h1: "snprintf h ?t = Some h1" "buffer_ok h1" "take (length ?t) h1 = ?t"
      using snprintf_result [OF assms(6), of ?t] len by metis
    let ?c = "(connections s ! i)\<lparr>headers := h1, header_len := int (length ?t)\<rparr>"
    show thesis
    proof (rule that [of _ ?c])
      show "tcp_dispatch s (env, Recv p (Some pb)) = Some (emit (map (TcpWrite p) (get_writes env (c_str h) s)) (set_con i ?c s))"
        using i h1 gw len ne by (simp add: r False handle_redirect_def set_con_def Let_def get_writes_def buffer_ok_def redirect_length)
    qed (simp_all add: False get_writes_def response_length_def assms(4) h1(3))
  qed
qed

section \<open>Acknowledgements\<close>

text \<open>An acknowledgement is counted; the one that completes the response closes the connection.\<close>

lemma sent_step:
  assumes "tcp_inv s" "pcb_arg s p = Some i" and c: "c = connections s ! i"
  shows "tcp_dispatch s (env, Sent p n) = Some
    (if sent_len c + int n < header_len c + result_len c then set_con i (c\<lparr>sent_len := sent_len c + int n\<rparr>) s
     else emit (if env_close env \<noteq> ERR_OK then [TcpClose p, TcpAbort p] else [TcpClose p]) (release i p s))"
proof -
  have i: "i < 4" "i < length (connections s)" "con_pcb (connections s ! i) = Some p"
    using assms(1,2) by (simp_all add: tcp_inv_def TCP_IP_MAX_CONNECTIONS_def)
  let ?c = "c\<lparr>sent_len := sent_len c + int n\<rparr>"
  have inv: "tcp_inv (set_con i ?c s)"
    using tcp_inv_nth [OF assms(1) i(1)] by (intro tcp_inv_set_con [OF assms(1) i(1)]) (simp_all add: c con_ok_def)
  have pcb: "con_pcb (connections (set_con i ?c s) ! i) = Some p" using i by (simp add: set_con_def c)
  have "release i p (set_con i ?c s) = release i p s" by (simp add: release_def set_con_def)
  then show ?thesis
    using tcp_close_client [OF inv i(1) pcb, of env ERR_OK] assms(2)
    by (simp add: tcp_dispatch_def tcp_server_sent_def Let_def c [symmetric])
qed

text \<open>The acknowledged lengths make up \<open>n\<close> bytes, and not before the last of them.\<close>

definition acks_of :: "nat \<Rightarrow> nat list \<Rightarrow> bool" where
  "acks_of n ls \<longleftrightarrow> sum_list ls = n \<and> (\<forall>k < length ls. sum_list (take k ls) < n)"

lemma acks_of_Cons: "acks_of n (l # ls) \<Longrightarrow> l < n \<Longrightarrow> acks_of (n - l) ls"
proof -
  assume a: "acks_of n (l # ls)" "l < n"
  have "sum_list (take k ls) < n - l" if "k < length ls" for k
    using a(1) [unfolded acks_of_def, THEN conjunct2, rule_format, of "Suc k"] that by simp
  moreover have "sum_list ls = n - l" using a(1) by (auto simp: acks_of_def)
  ultimately show ?thesis by (simp add: acks_of_def)
qed

lemma acks_close:
  assumes "tcp_inv s" "pcb_arg s p = Some i" "acks_of n ls" "0 < n"
    and "sent_len (connections s ! i) + int n = header_len (connections s ! i) + result_len (connections s ! i)"
  shows "tcp_machine.run s (map (\<lambda>l. (env, Sent p l)) ls) =
    Some (emit (if env_close env \<noteq> ERR_OK then [TcpClose p, TcpAbort p] else [TcpClose p]) (release i p s))"
  using assms
proof (induction ls arbitrary: s n)
  case Nil
  then show ?case by (simp add: acks_of_def)
next
  case (Cons l ls)
  let ?c = "connections s ! i"
  have i: "i < 4" "i < length (connections s)" "con_pcb ?c = Some p"
    using Cons.prems(1,2) by (simp_all add: tcp_inv_def TCP_IP_MAX_CONNECTIONS_def)
  note step = sent_step [OF Cons.prems(1,2) refl, of env l]
  show ?case
  proof (cases "l < n")
    case True
    define s1 where "s1 = set_con i (?c\<lparr>sent_len := sent_len ?c + int l\<rparr>) s"
    have 1: "tcp_dispatch s (env, Sent p l) = Some s1" using step True Cons.prems(5) by (simp add: s1_def)
    have inv: "tcp_inv s1" "pcb_arg s1 p = Some i"
      using tcp_machine.handle_safe [OF Cons.prems(1), of "(env, Sent p l)"] 1 Cons.prems(2)
      by (simp_all add: tcp_event_ok_def s1_def set_con_def)
    have c: "connections s1 ! i = ?c\<lparr>sent_len := sent_len ?c + int l\<rparr>" using i(2) by (simp add: s1_def set_con_def)
    have "tcp_machine.run s1 (map (\<lambda>l. (env, Sent p l)) ls) =
        Some (emit (if env_close env \<noteq> ERR_OK then [TcpClose p, TcpAbort p] else [TcpClose p]) (release i p s1))"
      using Cons.IH [OF inv acks_of_Cons [OF Cons.prems(3) True]] True Cons.prems(5) by (simp add: c)
    moreover have "release i p s1 = release i p s" by (simp add: release_def s1_def set_con_def)
    ultimately show ?thesis using 1 by simp
  next
    case False
    have "ls = []"
    proof (rule ccontr)
      assume "ls \<noteq> []"
      then have "sum_list (take 1 (l # ls)) < n" using Cons.prems(3) unfolding acks_of_def by (metis length_Cons length_greater_0_conv
            One_nat_def Suc_less_eq)
      then show False using False by simp
    qed
    then show ?thesis using step False Cons.prems(5) by simp
  qed
qed

text \<open>Until then only the count in the slot changes.\<close>

lemma acks_so_far:
  assumes "tcp_inv s" "pcb_arg s p = Some i"
    and "sent_len (connections s ! i) + int (sum_list ls) < header_len (connections s ! i) + result_len (connections s ! i)"
  shows "\<exists>s'. tcp_machine.run s (map (\<lambda>l. (env, Sent p l)) ls) = Some s'
    \<and> headers (connections s' ! i) = headers (connections s ! i) \<and> html_form_expanded s' = html_form_expanded s"
  using assms
proof (induction ls arbitrary: s)
  case (Cons l ls)
  let ?c = "connections s ! i"
  have i: "i < length (connections s)" using Cons.prems(1,2) by (simp add: tcp_inv_def TCP_IP_MAX_CONNECTIONS_def)
  define s1 where "s1 = set_con i (?c\<lparr>sent_len := sent_len ?c + int l\<rparr>) s"
  have 1: "tcp_dispatch s (env, Sent p l) = Some s1"
    using sent_step [OF Cons.prems(1,2) refl, of env l] Cons.prems(3) by (simp add: s1_def)
  have inv: "tcp_inv s1" "pcb_arg s1 p = Some i"
    using tcp_machine.handle_safe [OF Cons.prems(1), of "(env, Sent p l)"] 1 Cons.prems(2)
    by (simp_all add: tcp_event_ok_def s1_def set_con_def)
  have c: "connections s1 ! i = ?c\<lparr>sent_len := sent_len ?c + int l\<rparr>" "html_form_expanded s1 = html_form_expanded s"
    using i by (simp_all add: s1_def set_con_def)
  then show ?case using Cons.IH [OF inv] Cons.prems(3) 1 by simp
qed simp

section \<open>Properties\<close>

text \<open>
  C15: A GET request is served and its connection released. When the packet arrives that completes a request
  other than a form, on a connection that has had no response yet, the server writes the
  configuration page (header and the whole expanded form), or for any other path the redirect to it, and
  nothing more; acknowledgements that add up to exactly the response's length close the connection,
  not before the last of them, clear its slot for a new client and take it off the count. The stack was given
  the texts without a copy: until the response is acknowledged they stay where they were. The
  response fits the stack's send buffer and queue, and the responses of all four connections together fit the
  segments the stack has.
\<close>

theorem http_get_lifecycle:
  assumes "tcp_inv s" and "pcb_arg s p = Some i" and "page_bounds env s"
    and "sent_len (connections s ! i) = 0" and "result_len (connections s ! i) = 0"
    and "pbuf_holds pb bs" and "0 \<notin> set bs" and "length (c_str (headers (connections s ! i))) + length bs < TCP_IP_BUFFER_SIZE"
    and "request = c_str (headers (connections s ! i)) @ chars_of_bytes bs"
    and "check_request request = Proceed" and "\<not> is_post request"
    and "acks_of (response_length (get_writes env request s)) ls"
  shows "\<exists>s'. tcp_machine.run s ((env, Recv p (Some pb)) # map (\<lambda>l. (env, Sent p l)) ls) = Some s'
    \<and> effects s' = effects s @ map (TcpWrite p) (get_writes env request s)
        @ (if env_close env \<noteq> ERR_OK then [TcpClose p, TcpAbort p] else [TcpClose p])
    \<and> connections s' = (connections s)[i := con_zero] \<and> pcb_arg s' = (pcb_arg s)(p := None)
    \<and> active_connections s' = active_connections s - 1 \<and> tcp_inv s'
    \<and> (\<forall>k < length ls. \<exists>v. tcp_machine.run s ((env, Recv p (Some pb)) # map (\<lambda>l. (env, Sent p l)) (take k ls)) = Some v
         \<and> take (length (hd (get_writes env request s))) (headers (connections v ! i)) = hd (get_writes env request s)
         \<and> html_form_expanded v = html_form_expanded s)
    \<and> response_length (get_writes env request s) \<le> TCP_SND_BUF
    \<and> segments (get_writes env request s) \<le> TCP_SND_QUEUELEN
    \<and> TCP_IP_MAX_CONNECTIONS * segments (get_writes env request s) \<le> MEMP_NUM_TCP_SEG"
proof -
  have i: "i < 4" "i < length (connections s)"
    using assms(1,2) by (simp_all add: tcp_inv_def TCP_IP_MAX_CONNECTIONS_def)
  have buf: "buffer_ok (headers (connections s ! i))" using tcp_inv_nth [OF assms(1) i(1)] by (simp add: con_ok_def)
  obtain h where h: "append_packet (headers (connections s ! i)) pb = Some h" "buffer_ok h" "c_str h = request"
    using append_packet_fits [OF buf assms(6-8)] assms(9) by blast
  obtain s1 c where s1: "tcp_dispatch s (env, Recv p (Some pb)) = Some s1"
    "s1 = emit (map (TcpWrite p) (get_writes env request s)) (set_con i c s)"
    "sent_len c = sent_len (connections s ! i)" "header_len c + result_len c = int (response_length (get_writes env request s))"
    "take (length (hd (get_writes env request s))) (headers c) = hd (get_writes env request s)"
    using recv_get [OF assms(1-3,5) h(1,2)] assms(10,11) h(3) by metis
  have ok: "tcp_event_ok (env, e)" if "e = Recv p (Some pb) \<or> (\<exists>l. e = Sent p l)" for e
    using that pbuf_holds_sane [OF assms(6)] by (auto simp: tcp_event_ok_def)
  have inv: "tcp_inv s1" using tcp_machine.handle_safe [OF assms(1) ok, of "Recv p (Some pb)"] s1(1) by auto
  have p: "pcb_arg s1 p = Some i" "connections s1 ! i = c" using assms(2) i(2) by (simp_all add: s1(2) set_con_def)
  have "tcp_machine.run s1 (map (\<lambda>l. (env, Sent p l)) ls) =
      Some (emit (if env_close env \<noteq> ERR_OK then [TcpClose p, TcpAbort p] else [TcpClose p]) (release i p s1))"
    using acks_close [OF inv p(1) assms(12) get_writes_bounds(1) [OF assms(3)]] s1(3,4) assms(4) by (simp add: p(2))
  then have run: "tcp_machine.run s ((env, Recv p (Some pb)) # map (\<lambda>l. (env, Sent p l)) ls) =
      Some (emit (if env_close env \<noteq> ERR_OK then [TcpClose p, TcpAbort p] else [TcpClose p]) (release i p s1))"
    using s1(1) by simp
  have kept: "\<exists>v. tcp_machine.run s ((env, Recv p (Some pb)) # map (\<lambda>l. (env, Sent p l)) (take k ls)) = Some v
         \<and> take (length (hd (get_writes env request s))) (headers (connections v ! i)) = hd (get_writes env request s)
         \<and> html_form_expanded v = html_form_expanded s" if "k < length ls" for k
  proof -
    have "int (sum_list (take k ls)) < header_len c + result_len c" using assms(12) that s1(4) by (simp add: acks_of_def)
    then obtain v where v: "tcp_machine.run s1 (map (\<lambda>l. (env, Sent p l)) (take k ls)) = Some v"
      "headers (connections v ! i) = headers c" "html_form_expanded v = html_form_expanded s1"
      using acks_so_far [OF inv p(1), of "take k ls" env] s1(3) assms(4) by (auto simp: p(2))
    have "html_form_expanded s1 = html_form_expanded s" by (simp add: s1(2) set_con_def)
    then show ?thesis using v s1(1,5) by simp
  qed
  have "tcp_inv (release i p s1)"
    using inv p(1) tcp_inv_release [OF inv i(1)] by (simp add: tcp_inv_def)
  then have "tcp_inv (emit es (release i p s1))" for es by simp
  then show ?thesis
    unfolding run using kept get_writes_bounds(2-4) [OF assms(3)] by (simp add: release_def s1(2) set_con_def emit_def)
qed

section \<open>Examples\<close>

text \<open>The page to a client that acknowledges the header in two parts; the expanded form of the sample is empty.\<close>

theorem http_get_lifecycle_witness:
  "\<exists>s'. tcp_machine.run sample_connected ((sample_env, Recv 7 (Some (pbuf_of_bytes [71, 69, 84, 32, 47, 32, 13, 10])))
        # map (\<lambda>l. (sample_env, Sent 7 l)) [50, 28]) = Some s'
    \<and> pcb_arg s' 7 = None \<and> active_connections s' = active_connections sample_connected - 1
    \<and> TcpWrite 7 HTTP_RESPONSE_OK_HEADER \<in> set (effects s')"
proof -
  have r: "''GET / '' @ CRLF = c_str (headers (connections sample_connected ! 0)) @ chars_of_bytes [71, 69, 84, 32, 47, 32, 13, 10]"
  proof -
    have "chars_of_bytes [71, 69, 84, 32, 47, 32, 13, 10] = ''GET / '' @ CRLF" by code_simp
    then show ?thesis by (simp add: sample_connected_string)
  qed
  have checks: "check_request (''GET / '' @ CRLF) = Proceed" "\<not> is_post (''GET / '' @ CRLF)" "is_config_page (''GET / '' @ CRLF)"
    by code_simp+
  have c: "sent_len (connections sample_connected ! 0) = 0" "result_len (connections sample_connected ! 0) = 0"
    "html_form_expanded sample_connected = [NUL]"
    by (simp_all add: sample_connected_def tcp_server_accept_def tcp_server_zero_def Let_def TCP_IP_MAX_CONNECTIONS_def
        set_con_def con_zero_def eval_nat_numeral)
  have b: "page_bounds sample_env sample_connected" by (simp add: page_bounds_def c sample_env_def)
  have w: "get_writes sample_env (''GET / '' @ CRLF) sample_connected = [HTTP_RESPONSE_OK_HEADER, []]"
    using checks(3) by (simp add: get_writes_def c c_str_def)
  have acks: "acks_of (response_length (get_writes sample_env (''GET / '' @ CRLF) sample_connected)) [50, 28]"
    unfolding w by (simp add: response_length_def header_lengths acks_of_def less_Suc_eq)
  show ?thesis
    using http_get_lifecycle [OF sample_connected_inv(1,2) b c(1,2) pbuf_holds_of_bytes _ _ r checks(1,2) acks, unfolded w]
    by (auto simp: sample_connected_string TCP_IP_BUFFER_SIZE_def)
qed

end
