(* ===== verification/Portal.thy ===== *)
theory Portal
  imports AccessPoint HttpServe
begin

text \<open>
  Configuration mode as its clients see it: the three servers of src/src/wifi.c, dhcpserver.c and dnsserver.c run
  side by side and all of them lead to one address. The first part is what the access point can send at all,
  the second the session of a phone that joins, looks up a name and is given the configuration page,
  while other clients do what they like.
\<close>

section \<open>What a callback of the web server changes\<close>

text \<open>
  A callback for the control block \<open>q\<close> with the slot \<open>i\<close>: it leaves the other blocks and slots alone and
  writes only texts with \<open>P\<close>.
\<close>

definition slot_change :: "(string \<Rightarrow> bool) \<Rightarrow> nat \<Rightarrow> nat \<Rightarrow> tcp_server_t \<Rightarrow> tcp_server_t \<Rightarrow> bool" where
  "slot_change P i q s s' \<longleftrightarrow> gw s' = gw s \<and> html_form_expanded s' = html_form_expanded s
     \<and> (\<forall>p. p \<noteq> q \<longrightarrow> pcb_arg s' p = pcb_arg s p) \<and> (\<forall>j. j \<noteq> i \<longrightarrow> connections s' ! j = connections s ! j)
     \<and> active_connections s' \<le> active_connections s
     \<and> (\<exists>es. effects s' = effects s @ es \<and> (\<forall>p t. TcpWrite p t \<in> set es \<longrightarrow> P t))"

lemma slot_change_refl [simp]: "slot_change P i q s s"
  by (simp add: slot_change_def)

lemma slot_change_trans: "slot_change P i q s t \<Longrightarrow> slot_change P i q t u \<Longrightarrow> slot_change P i q s u"
  unfolding slot_change_def by (elim conjE exE, intro conjI) (auto intro!: exI [of _ "_ @ _"])

lemma slot_change_set_con [simp]: "slot_change P i q s (set_con i c s)"
  by (simp add: slot_change_def set_con_def)

lemma slot_change_emit: "\<forall>p t. TcpWrite p t \<in> set es \<longrightarrow> P t \<Longrightarrow> slot_change P i q s (emit es s)"
  by (simp add: slot_change_def)

lemma slot_change_store [simp]: "slot_change P i q s (s\<lparr>stored := cs\<rparr>)" "slot_change P i q s (s\<lparr>complete := b\<rparr>)"
  by (simp_all add: slot_change_def)

lemma slot_change_release [simp]: "slot_change P i p s (release i p s)"
  by (simp add: slot_change_def release_def)

lemma slot_change_close:
  "slot_change P i q s t \<Longrightarrow> slot_change P i q s (fst (tcp_close_client_connection env (Some i) (Some q) e t))"
  by (erule slot_change_trans) (auto simp: slot_change_def tcp_close_client_connection_def close_slot_def zero_slot_def
      set_con_def emit_def Let_def)

lemma slot_change_close_Some:
  "tcp_close_client_connection env (Some i) (Some q) e t = (s', e') \<Longrightarrow> slot_change P i q s t \<Longrightarrow> slot_change P i q s s'"
  using slot_change_close [of P i q s t env e] by simp

text \<open>The texts of the web server at the address \<open>ip\<close>.\<close>

definition site_text :: "(ip_addr_t \<Rightarrow> string) \<Rightarrow> ip_addr_t \<Rightarrow> string \<Rightarrow> string \<Rightarrow> bool" where
  "site_text ntoa ip page t \<longleftrightarrow> t \<in> {HTTP_RESPONSE_OK_HEADER, page, HTTP_RESPONSE_REDIRECT_HEADER (ntoa ip),
     bad_req_msg, success_msg, fail_msg}"

lemma slot_change_say:
  assumes "slot_change P i q s u" "\<forall>t \<in> set ts. P t"
  shows "slot_change P i q s (emit (map (TcpWrite q) ts) u)"
  using assms by (intro slot_change_trans [OF assms(1)] slot_change_emit) auto

lemma handle_post_result:
  assumes "handle_post env i q request s = Some (s', e)"
  obtains (close) "s' = fst (tcp_close_client_connection env (Some i) (Some q) ERR_MEM s)"
    | (bad) "s' = emit [TcpWrite q bad_req_msg] s"
    | (ok) cs where "s' = (emit [TcpWrite q success_msg] (s\<lparr>stored := cs\<rparr>))\<lparr>complete := True\<rparr>"
    | (fail) cs where "s' = emit [TcpWrite q fail_msg] (s\<lparr>stored := cs\<rparr>)"
proof -
  obtain cfg where cfg: "form_base (con_flash_config (connections s ! i)) = Some cfg"
    using assms by (auto simp: handle_post_def bind_eq_Some_conv)
  show thesis
  proof (cases "strstr request (CRLF @ CRLF)")
    case None
    then show thesis using assms cfg ok fail by (auto simp: handle_post_def Let_def split: if_split_asm)
  next
    case (Some b)
    show thesis
    proof (cases "length (drop (b + 4) request) \<ge> TCP_IP_BUFFER_SIZE")
      case True
      then have "s' = fst (tcp_close_client_connection env (Some i) (Some q) ERR_MEM s)"
        using assms cfg Some by (simp add: handle_post_def Let_def)
      then show thesis by (rule close)
    next
      case False
      then obtain c inv where "form_loop cfg (drop (b + 4) request) = Some (c, inv)"
        using assms cfg Some by (auto simp: handle_post_def Let_def bind_eq_Some_conv)
      then show thesis
        using assms cfg Some False bad ok fail by (auto simp: handle_post_def Let_def split: if_split_asm)
    qed
  qed
qed

lemma handle_post_change:
  assumes "handle_post env i q request s = Some (s', e)"
  shows "slot_change (site_text ntoa ip page) i q s s'"
  using assms
proof (cases rule: handle_post_result)
  case close
  then show ?thesis by (simp add: slot_change_close)
next
  case bad
  then show ?thesis using slot_change_say [OF slot_change_refl, of "[bad_req_msg]"] by (simp add: site_text_def)
next
  case (ok cs)
  have "slot_change (site_text ntoa ip page) i q s (emit (map (TcpWrite q) [success_msg]) (s\<lparr>stored := cs\<rparr>))"
    by (rule slot_change_say) (simp_all add: site_text_def)
  then show ?thesis unfolding ok by (intro slot_change_trans [OF _ slot_change_store(2)]) simp
next
  case (fail cs)
  have "slot_change (site_text ntoa ip page) i q s (emit (map (TcpWrite q) [fail_msg]) (s\<lparr>stored := cs\<rparr>))"
    by (rule slot_change_say) (simp_all add: site_text_def)
  then show ?thesis by (simp add: fail)
qed

lemma handle_page_change:
  assumes "handle_page env i q s = Some (s', e)" "buffer_ok (headers (connections s ! i))"
    and "c_str (html_form_expanded s) = page" "length page < 65536"
  shows "slot_change (site_text ntoa ip page) i q s s'"
proof -
  let ?t = HTTP_RESPONSE_OK_HEADER
  obtain h where h: "snprintf (headers (connections s ! i)) ?t = Some h" "take (length ?t) h = ?t"
    using snprintf_result [OF assms(2), of ?t] by (metis header_lengths TCP_IP_BUFFER_SIZE_def
        numeral_less_iff semiring_norm(76,78,80,81))
  let ?c = "(connections s ! i)\<lparr>headers := h, header_len := int (length ?t)\<rparr>"
  let ?d = "?c\<lparr>result_len := int (length page)\<rparr>"
  have "slot_change (site_text ntoa ip page) i q s (emit (map (TcpWrite q) [?t, page]) (set_con i ?d (set_con i ?c s)))"
    by (intro slot_change_say slot_change_trans [OF slot_change_set_con slot_change_set_con]) (simp add: site_text_def)
  moreover have "slot_change (site_text ntoa ip page) i q s
      (fst (tcp_close_client_connection env (Some i) (Some q) ERR_MEM (set_con i ?c s)))"
    by (rule slot_change_close) simp
  moreover have "NUL \<in> set (html_form_expanded s)"
    using assms(1) by (auto simp: handle_page_def arr_string_def split: if_split_asm)
  ultimately show ?thesis
    using assms(1,3,4) by (simp add: handle_page_def Let_def arr_string_def h split: if_split_asm)
qed

lemma handle_redirect_change:
  assumes "handle_redirect env i q s = Some (s', e)" "buffer_ok (headers (connections s ! i))"
    and "con_gw (connections s ! i) = Some ip" "env_ntoa env = ntoa"
  shows "slot_change (site_text ntoa ip page) i q s s'"
proof -
  let ?t = "HTTP_RESPONSE_REDIRECT_HEADER (ntoa ip)"
  obtain h where h: "snprintf (headers (connections s ! i)) ?t = Some h" "buffer_ok h"
    "length ?t < TCP_IP_BUFFER_SIZE \<Longrightarrow> take (length ?t) h = ?t"
    using snprintf_result [OF assms(2), of ?t] by metis
  let ?c = "(connections s ! i)\<lparr>headers := h, header_len := int (length ?t)\<rparr>"
  have "slot_change (site_text ntoa ip page) i q s (emit (map (TcpWrite q) [?t]) (set_con i ?c s))"
    by (intro slot_change_say slot_change_set_con) (simp add: site_text_def)
  moreover have "slot_change (site_text ntoa ip page) i q s
      (fst (tcp_close_client_connection env (Some i) (Some q) ERR_MEM (set_con i ?c s)))"
    by (rule slot_change_close) simp
  moreover have "length h = TCP_IP_BUFFER_SIZE" using h(2) by (simp add: buffer_ok_def)
  ultimately show ?thesis
    using assms(1,3,4) h(1,3) by (simp add: handle_redirect_def Let_def not_le split: if_split_asm)
qed

lemma recv_change:
  assumes "tcp_inv s" "pcb_arg s q = Some i" "\<And>b. pb = Some b \<Longrightarrow> pbuf_sane b"
    and "tcp_server_recv env i q pb s = Some (s', e)"
    and "env_ntoa env = ntoa" "gw s = ip" "c_str (html_form_expanded s) = page" "length page < 65536"
  shows "slot_change (site_text ntoa ip page) i q s s'"
proof (cases pb)
  case None
  have "slot_change (site_text ntoa ip page) i q s (fst (tcp_close_client_connection env (Some i) (Some q) ERR_OK s))"
    by (rule slot_change_close) simp
  then show ?thesis using assms(4) by (simp add: None tcp_server_recv_def)
next
  case (Some b)
  have i: "i < 4" "i < length (connections s)" "con_pcb (connections s ! i) = Some q"
    using assms(1,2) by (simp_all add: tcp_inv_def TCP_IP_MAX_CONNECTIONS_def)
  have con: "buffer_ok (headers (connections s ! i))" "con_gw (connections s ! i) = Some ip"
    using tcp_inv_nth [OF assms(1) i(1)] i(3) assms(6) by (simp_all add: con_ok_def)
  obtain h where h: "append_packet (headers (connections s ! i)) b = Some h" "buffer_ok h"
    by (rule append_packet_result [OF con(1) assms(3) [OF Some]])
  define s1 where "s1 = set_con i ((connections s ! i)\<lparr>headers := h\<rparr>) s"
  have s1: "slot_change (site_text ntoa ip page) i q s s1" "buffer_ok (headers (connections s1 ! i))"
    "con_gw (connections s1 ! i) = Some ip" "c_str (html_form_expanded s1) = page"
    using h(2) con(2) i(2) assms(7) unfolding s1_def by (simp, simp_all add: set_con_def)
  have r: "tcp_server_recv env i q pb s = (case check_request (c_str h) of
      Reject \<Rightarrow> Some (tcp_close_client_connection env (Some i) (Some q) ERR_VAL s1)
    | Incomplete \<Rightarrow> Some (s1, ERR_OK)
    | Proceed \<Rightarrow> if is_post (c_str h) then handle_post env i q (c_str h) s1
        else if is_config_page (c_str h) then handle_page env i q s1 else handle_redirect env i q s1)"
    by (simp add: tcp_server_recv_def Some h(1) buffer_ok_string [OF h(2)] s1_def Let_def cong: request_check.case_cong)
  have closed: "slot_change (site_text ntoa ip page) i q s (fst (tcp_close_client_connection env (Some i) (Some q) ERR_VAL s1))"
    by (rule slot_change_close [OF s1(1)])
  show ?thesis
  proof (cases "check_request (c_str h)")
    case Proceed
    have "slot_change (site_text ntoa ip page) i q s1 s'"
      using assms(4) handle_post_change [of env i q "c_str h" s1 s' e ntoa ip page]
        handle_page_change [OF _ s1(2,4) assms(8), of env q s' e ntoa ip]
        handle_redirect_change [OF _ s1(2,3) assms(5), of q s' e page]
      by (simp add: r Proceed split: if_split_asm)
    then show ?thesis by (rule slot_change_trans [OF s1(1)])
  next
    case Incomplete
    then show ?thesis using assms(4) s1(1) by (simp add: r)
  next
    case Reject
    then show ?thesis using assms(4) closed by (simp add: r)
  qed
qed

text \<open>The control block a callback is for.\<close>

fun event_pcb :: "tcp_event \<Rightarrow> nat option" where
  "event_pcb (Accept client err) = client"
| "event_pcb (Recv p pb) = Some p"
| "event_pcb (Sent p len) = Some p"
| "event_pcb (Poll p) = Some p"
| "event_pcb (Err p err) = Some p"

fun is_accept :: "tcp_event \<Rightarrow> bool" where
  "is_accept (Accept client err) = True"
| "is_accept _ = False"

text \<open>What every callback keeps, and what one for another block than \<open>p\<close> keeps of \<open>p\<close>'s connection.\<close>

definition web_keeps :: "(ip_addr_t \<Rightarrow> string) \<Rightarrow> tcp_event \<Rightarrow> tcp_server_t \<Rightarrow> tcp_server_t \<Rightarrow> bool" where
  "web_keeps ntoa ev s s' \<longleftrightarrow> gw s' = gw s \<and> html_form_expanded s' = html_form_expanded s
     \<and> active_connections s' \<le> active_connections s + (if is_accept ev then 1 else 0)
     \<and> (\<exists>es. effects s' = effects s @ es
          \<and> (\<forall>p t. TcpWrite p t \<in> set es \<longrightarrow> site_text ntoa (gw s) (c_str (html_form_expanded s)) t))
     \<and> (\<forall>p. event_pcb ev \<noteq> Some p \<longrightarrow> pcb_arg s' p = pcb_arg s p
          \<and> (\<forall>i. pcb_arg s p = Some i \<longrightarrow> connections s' ! i = connections s ! i))"

lemma slot_change_keeps:
  assumes "tcp_inv s" "pcb_arg s q = Some i" "event_pcb ev = Some q"
    and "slot_change (site_text ntoa (gw s) (c_str (html_form_expanded s))) i q s s'"
  shows "web_keeps ntoa ev s s'"
proof -
  have "j \<noteq> i" if "pcb_arg s p = Some j" "p \<noteq> q" for p j
    using assms(1,2) that by (auto simp: tcp_inv_def)
  then show ?thesis using assms(3,4) by (auto simp: web_keeps_def slot_change_def)
qed

lemma accept_keeps:
  assumes "tcp_inv s" "\<And>p. client = Some p \<Longrightarrow> pcb_arg s p = None"
  shows "web_keeps ntoa (Accept client err) s (fst (tcp_server_accept client err s))"
proof (cases "\<exists>p. client = Some p \<and> err = ERR_OK \<and> used s < 4")
  case False
  then show ?thesis
    using tcp_server_accept_cases [OF assms(1)]
    by (cases client; cases "err = ERR_OK") (auto simp: tcp_server_accept_def web_keeps_def)
next
  case True
  then obtain p where p: "client = Some p" "err = ERR_OK" "used s < 4" by blast
  have len: "length (connections s) = 4" using assms(1) by (simp add: tcp_inv_def TCP_IP_MAX_CONNECTIONS_def)
  then obtain k where k: "free_slot (connections s) 0 = Some k"
    using free_slot_None [of "connections s" 0] p(3) by (auto simp: used_def)
  then have "con_pcb (connections s ! k) = None" using free_slot_Some [OF k] by simp
  then have "k \<noteq> j" if "pcb_arg s q = Some j" for q j
    using assms(1) that by (auto simp: tcp_inv_def)
  then have "(connections s)[k := c] ! j = connections s ! j" if "pcb_arg s q = Some j" for q j c
    using that by simp
  then show ?thesis
    using p k by (auto simp: tcp_server_accept_cases [OF assms(1)] web_keeps_def Let_def)
qed

lemma dispatch_keeps:
  assumes "tcp_inv s" "tcp_event_ok (env, ev)" "tcp_dispatch s (env, ev) = Some s'"
    and "env_ntoa env = ntoa" "length (c_str (html_form_expanded s)) < 65536"
  shows "web_keeps ntoa ev s s'"
proof -
  have same: "web_keeps ntoa ev s s" by (simp add: web_keeps_def)
  note change = slot_change_keeps [OF assms(1), of _ _ ev ntoa s']
  show ?thesis
  proof (cases ev)
    case (Accept client err)
    then show ?thesis
      using assms(3) accept_keeps [OF assms(1), of client ntoa err] same
      by (cases client) (auto simp: tcp_dispatch_def split: if_split_asm)
  next
    case (Recv q pb)
    show ?thesis
    proof (cases "pcb_arg s q")
      case (Some i)
      then obtain e where r: "tcp_server_recv env i q pb s = Some (s', e)"
        using assms(3) Recv by (auto simp: tcp_dispatch_def)
      have "pbuf_sane b" if "pb = Some b" for b using assms(2) that by (simp add: Recv tcp_event_ok_def)
      from recv_change [OF assms(1) Some this r assms(4) refl refl assms(5)]
      show ?thesis by (intro change [OF Some]) (simp_all add: Recv)
    qed (use assms(3) same Recv in \<open>simp add: tcp_dispatch_def\<close>)
  next
    case (Sent q n)
    show ?thesis
    proof (cases "pcb_arg s q")
      case (Some i)
      have "slot_change P i q s (fst (tcp_server_sent env i q n s))" for P
        by (simp add: tcp_server_sent_def Let_def slot_change_close)
      then show ?thesis using assms(3) Some Sent by (intro change [OF Some]) (auto simp: tcp_dispatch_def)
    qed (use assms(3) same Sent in \<open>simp add: tcp_dispatch_def\<close>)
  next
    case (Poll q)
    show ?thesis
    proof (cases "pcb_arg s q")
      case (Some i)
      have "slot_change P i q s (fst (tcp_server_poll env i q s))" for P
        by (simp add: tcp_server_poll_def slot_change_close)
      then show ?thesis using assms(3) Some Poll by (intro change [OF Some]) (auto simp: tcp_dispatch_def)
    qed (use assms(3) same Poll in \<open>simp add: tcp_dispatch_def\<close>)
  next
    case (Err q e)
    show ?thesis
    proof (cases "pcb_arg s q")
      case (Some i)
      have "i < 4" "con_pcb (connections s ! i) = Some q"
        using assms(1) Some by (simp_all add: tcp_inv_def TCP_IP_MAX_CONNECTIONS_def)
      from tcp_server_err_inv [OF assms(1) this] have "s' = release i q s"
        using assms(3) Some by (simp add: tcp_dispatch_def Err)
      then show ?thesis using Err by (intro change [OF Some]) simp_all
    qed (use assms(3) same Err in \<open>simp add: tcp_dispatch_def\<close>)
  qed
qed

section \<open>All that the access point can send\<close>

text \<open>
  A reply of the address server: a broadcast with an address of the server's network, and the server
  named as router and name server.
\<close>

definition dhcp_tells :: "ip_addr_t \<Rightarrow> ip_addr_t \<Rightarrow> udp_datagram \<Rightarrow> bool" where
  "dhcp_tells ip nm dg \<longleftrightarrow> dg_addr dg = 0xffffffff \<and> dg_port dg = 68 \<and> length (dg_payload dg) = 274
     \<and> (\<exists>yi < 8. take 4 (drop 16 (dg_payload dg)) = take 3 (mem_bytes32 ip) @ [16 + of_nat yi])
     \<and> (\<exists>ty \<in> {2, 5}. parse_options (drop 240 (dg_payload dg)) =
          [(53, [ty]), (54, mem_bytes32 ip), (1, mem_bytes32 nm), (3, mem_bytes32 ip), (6, mem_bytes32 ip),
           (51, [0, 1, 0x51, 0x80])])"

definition portal_inv :: "(ip_addr_t \<Rightarrow> string) \<Rightarrow> ip_addr_t \<Rightarrow> ip_addr_t \<Rightarrow> string \<Rightarrow> ap_state \<Rightarrow> bool" where
  "portal_inv ntoa ip nm page s \<longleftrightarrow> ap_inv s \<and> gw (ap_tcp s) = ip \<and> c_str (html_form_expanded (ap_tcp s)) = page
     \<and> length page < 65536 \<and> (\<forall>p t. TcpWrite p t \<in> set (effects (ap_tcp s)) \<longrightarrow> site_text ntoa ip page t)
     \<and> dhcp_ip (fst (ap_dhcp s)) = ip \<and> dhcp_nm (fst (ap_dhcp s)) = nm \<and> (\<forall>dg \<in> set (snd (ap_dhcp s)). dhcp_tells ip nm dg)
     \<and> (udp_live (dns_udp (fst (ap_dns s))) \<longrightarrow> dns_ip (fst (ap_dns s)) = ip)
     \<and> (\<forall>dg \<in> set (snd (ap_dns s)). is_own_answer ip (dg_payload dg))"

text \<open>\<open>ip4addr_ntoa\<close> is one function for all callbacks.\<close>

definition portal_event_ok :: "(ip_addr_t \<Rightarrow> string) \<Rightarrow> ap_event \<Rightarrow> bool" where
  "portal_event_ok ntoa e \<longleftrightarrow> ap_event_ok e \<and> (case e of Web (env, ev) \<Rightarrow> env_ntoa env = ntoa | _ \<Rightarrow> True)"

lemma dhcp_step_handle:
  "dhcp_event_ok e \<Longrightarrow> dhcp_step s e = Some (let (d, out) = dhcp_handle (de_alloc e) (de_ticks e) (fst s)
     (pbuf_copy_partial (de_pbuf e) sizeof_dhcp_msg 0) in (d, snd s @ out))"
  using dhcp_server_process_refines [of "de_pbuf e" "de_stack e" "de_alloc e" "de_ticks e" "fst s"]
  by (simp add: dhcp_step_def dhcp_event_ok_def Let_def case_prod_unfold)

lemma dhcp_step_tells:
  assumes "dhcp_event_ok e" "dhcp_step s e = Some s'" "dhcp_log_ok s"
  shows "dhcp_ip (fst s') = dhcp_ip (fst s)" "dhcp_nm (fst s') = dhcp_nm (fst s)" "dhcp_udp (fst s') = dhcp_udp (fst s)"
    and "\<forall>dg \<in> set (snd s). dhcp_tells (dhcp_ip (fst s)) (dhcp_nm (fst s)) dg
      \<Longrightarrow> \<forall>dg \<in> set (snd s'). dhcp_tells (dhcp_ip (fst s)) (dhcp_nm (fst s)) dg"
proof -
  define msg where "msg = pbuf_copy_partial (de_pbuf e) sizeof_dhcp_msg 0"
  obtain d out where h: "dhcp_handle (de_alloc e) (de_ticks e) (fst s) msg = (d, out)" by fastforce
  have s': "s' = (d, snd s @ out)" using assms(2) dhcp_step_handle [OF assms(1), of s] h by (simp add: msg_def)
  have wf: "wf_leases (lease (fst s))" using assms(3) by (simp add: dhcp_log_ok_def)
  show "dhcp_ip (fst s') = dhcp_ip (fst s)" "dhcp_nm (fst s') = dhcp_nm (fst s)" "dhcp_udp (fst s') = dhcp_udp (fst s)"
    using dhcp_handle_slots(2-4) [OF h wf] by (simp_all add: s')
  have "dhcp_tells (dhcp_ip (fst s)) (dhcp_nm (fst s)) dg" if dg: "dg \<in> set out" for dg
  proof -
    obtain yi ty where "yi < 8" "ty = 2 \<or> ty = 5" "243 \<le> length msg"
      "dg = \<lparr>dg_addr = 0xffffffff, dg_port = 68, dg_payload = dhcp_reply (fst s) ty yi msg\<rparr>"
      by (rule dhcp_handle_reply [OF h dg wf])
    then show ?thesis
      using dhcp_reply_options [of msg "fst s" ty yi] length_dhcp_reply [of msg "fst s" ty yi] by (auto simp: dhcp_tells_def)
  qed
  then show "\<forall>dg \<in> set (snd s). dhcp_tells (dhcp_ip (fst s)) (dhcp_nm (fst s)) dg
      \<Longrightarrow> \<forall>dg \<in> set (snd s'). dhcp_tells (dhcp_ip (fst s)) (dhcp_nm (fst s)) dg"
    by (auto simp: s')
qed

lemma dns_step_fst: "dns_step s e = Some s' \<Longrightarrow> fst s' = fst s"
  by (auto simp: dns_step_def)

lemma dns_step_answers:
  assumes "dns_packet_ok e" "dns_step s e = Some s'" "\<forall>dg \<in> set (snd s). is_own_answer (dns_ip (fst s)) (dg_payload dg)"
  shows "\<forall>dg \<in> set (snd s'). is_own_answer (dns_ip (fst s)) (dg_payload dg)"
  using dns_machine.handle_safe [of s e] assms dns_step_fst [OF assms(2)] by (auto simp: dns_log_ok_def)

interpretation portal_machine: safe_machine ap_step "portal_inv ntoa ip nm page" "portal_event_ok ntoa" for ntoa ip nm page
proof
  fix s e
  assume s: "portal_inv ntoa ip nm page s" and e: "portal_event_ok ntoa e"
  have inv: "ap_inv s" and ok: "ap_event_ok e" using s e by (simp_all add: portal_inv_def portal_event_ok_def)
  obtain s' where s': "ap_step s e = Some s'" "ap_inv s'" using ap_machine.handle_safe [OF inv ok] by blast
  have "portal_inv ntoa ip nm page s'"
  proof (cases e)
    case (Web w)
    obtain env ev where w: "w = (env, ev)" by (cases w)
    obtain t where t: "tcp_dispatch (ap_tcp s) (env, ev) = Some t" "s' = s\<lparr>ap_tcp := t\<rparr>"
      using s'(1) by (auto simp: ap_step_def Web w)
    have "web_keeps ntoa ev (ap_tcp s) t"
      by (rule dispatch_keeps [OF _ _ t(1)]) (use s e ok in \<open>auto simp: portal_inv_def ap_inv_def portal_event_ok_def Web w ap_event_ok_def\<close>)
    then show ?thesis using s s'(2) t(2) by (auto simp: portal_inv_def web_keeps_def)
  next
    case (Dhcp d)
    show ?thesis
    proof (cases "udp_live (dhcp_udp (fst (ap_dhcp s)))")
      case True
      then obtain l where l: "dhcp_step (ap_dhcp s) d = Some l" "s' = s\<lparr>ap_dhcp := l\<rparr>"
        using s'(1) by (auto simp: ap_step_def Dhcp)
      have "dhcp_event_ok d" "dhcp_log_ok (ap_dhcp s)" using ok inv by (simp_all add: Dhcp ap_event_ok_def ap_inv_def)
      note tells = dhcp_step_tells [OF this(1) l(1) this(2)]
      show ?thesis using s s'(2) tells by (simp add: portal_inv_def l(2))
    qed (use s s' in \<open>simp add: ap_step_def Dhcp\<close>)
  next
    case (Dns d)
    show ?thesis
    proof (cases "udp_live (dns_udp (fst (ap_dns s)))")
      case True
      then obtain l where l: "dns_step (ap_dns s) d = Some l" "s' = s\<lparr>ap_dns := l\<rparr>"
        using s'(1) by (auto simp: ap_step_def Dns)
      have "dns_packet_ok d" using ok by (simp add: Dns ap_event_ok_def)
      from dns_step_answers [OF this l(1)] show ?thesis
        using s s'(2) True dns_step_fst [OF l(1)] by (simp add: portal_inv_def l(2))
    qed (use s s' in \<open>simp add: ap_step_def Dns\<close>)
  qed
  then show "\<exists>s'. ap_step s e = Some s' \<and> portal_inv ntoa ip nm page s'" using s'(1) by blast
qed

lemma portal_run_eq: "ap_run s es = portal_machine.run s es"
  by (induction es arbitrary: s) (auto split: option.splits)

lemma setup_portal:
  assumes "ap_start_ok cfg s" "ap_setup env template cfg s = Some (s0, None)"
    and "length (html_form_expanded (ap_tcp s)) \<le> 65536"
  shows "portal_inv ntoa (ap_address env) (ap_netmask env) (c_str (html_form_expanded (ap_tcp s0))) s0"
proof -
  obtain html dns where html: "expand_html_template (length (html_form_expanded (ap_tcp s))) template
      (html_form_expanded (ap_tcp s)) cfg = Some (ERR_OK, html)"
    and dns: "dns_server_init (ap_ndebug env) (ap_dns_new env) (ap_dns_bind env) (fst (ap_dns s)) (ap_address env) = Some dns"
    and s0: "s0 = s\<lparr>ap_wifi_initialized := True, ap_mode_ssid := Some (get_ssid (ap_mac env)),
      ap_tcp := tcp_server_zero\<lparr>gw := ap_address env, server_flash_config := cfg, html_form_expanded := html,
        server_pcb := ap_tcp_listen env\<rparr>,
      ap_dhcp := (dhcp_server_init (ap_dhcp_new env) (ap_dhcp_bind env) (fst (ap_dhcp s)) (ap_address env)
        (ap_netmask env), snd (ap_dhcp s)), ap_dns := (dns, snd (ap_dns s))\<rparr>"
    by (rule ap_setup_done [OF assms(2)])
  have "NUL \<in> set html" using html by (simp add: expand_html_template_def expand_loop_NUL)
  moreover have "length html = length (html_form_expanded (ap_tcp s))"
    using html expand_loop_safe [of "html_form_expanded (ap_tcp s)" "length (html_form_expanded (ap_tcp s))" 0 cfg template] assms(1)
    by (simp add: expand_html_template_def ap_start_ok_def)
  ultimately have "length (c_str html) < 65536"
    using c_str_split [of html] assms(3) by (metis length_append length_Cons add_Suc_right less_add_Suc1 less_le_trans)
  moreover have "udp_live (dns_udp dns) \<longrightarrow> dns_ip dns = ap_address env"
    using dns by (auto simp: dns_server_init_def dns_socket_new_dgram_def dns_socket_bind_def udp_live_def udp_pcb_new_def
        Let_def split: if_split_asm)
  moreover have "ap_inv s0" using ap_setup_inv [OF assms(1,2)] by simp
  ultimately show ?thesis
    using assms(1) by (simp add: portal_inv_def s0 ap_start_ok_def tcp_server_zero_def dhcp_server_init_def
        dhcp_socket_new_dgram_def dhcp_socket_bind_def Let_def)
qed

section \<open>What other clients leave alone\<close>

definition ap_event_pcb :: "ap_event \<Rightarrow> nat option" where
  "ap_event_pcb e = (case e of Web (env, ev) \<Rightarrow> event_pcb ev | _ \<Rightarrow> None)"

definition ap_is_accept :: "ap_event \<Rightarrow> bool" where
  "ap_is_accept e = (case e of Web (env, ev) \<Rightarrow> is_accept ev | _ \<Rightarrow> False)"

definition accepts :: "ap_event list \<Rightarrow> nat" where
  "accepts es = length (filter ap_is_accept es)"

text \<open>The sockets stay as they are, and the logs only grow.\<close>

definition ap_grows :: "ap_state \<Rightarrow> ap_state \<Rightarrow> bool" where
  "ap_grows s s' \<longleftrightarrow> fst (ap_dns s') = fst (ap_dns s) \<and> dhcp_udp (fst (ap_dhcp s')) = dhcp_udp (fst (ap_dhcp s))
     \<and> (\<exists>out. snd (ap_dns s') = snd (ap_dns s) @ out) \<and> (\<exists>out. snd (ap_dhcp s') = snd (ap_dhcp s) @ out)
     \<and> html_form_expanded (ap_tcp s') = html_form_expanded (ap_tcp s)"

lemma ap_grows_trans: "ap_grows s t \<Longrightarrow> ap_grows t u \<Longrightarrow> ap_grows s u"
  by (auto simp: ap_grows_def)

text \<open>
  What the events \<open>es\<close> leave of a client with the control block \<open>p\<close> and the lease of slot \<open>yi\<close>,
  given to \<open>c\<close> at time \<open>t\<close>.
\<close>

definition ap_frame :: "nat \<Rightarrow> u32 \<Rightarrow> nat \<Rightarrow> u8 list \<Rightarrow> ap_event list \<Rightarrow> ap_state \<Rightarrow> ap_state \<Rightarrow> bool" where
  "ap_frame p t yi c es s s' \<longleftrightarrow> ap_grows s s' \<and> ((\<forall>d. Dhcp d \<notin> set es) \<longrightarrow> ap_dhcp s' = ap_dhcp s)
     \<and> ((\<forall>d. Dhcp d \<in> set es \<longrightarrow> within_day t d) \<longrightarrow> lease_held yi c t (ap_dhcp s) \<longrightarrow> lease_held yi c t (ap_dhcp s'))
     \<and> active_connections (ap_tcp s') \<le> active_connections (ap_tcp s) + int (accepts es)
     \<and> ((\<forall>e \<in> set es. ap_event_pcb e \<noteq> Some p) \<longrightarrow> pcb_arg (ap_tcp s') p = pcb_arg (ap_tcp s) p
       \<and> (\<forall>i. pcb_arg (ap_tcp s) p = Some i \<longrightarrow> connections (ap_tcp s') ! i = connections (ap_tcp s) ! i))"

lemma ap_frame_refl: "ap_frame p t yi c [] s s"
  by (simp add: ap_frame_def ap_grows_def accepts_def)

lemma ap_frame_Cons:
  assumes "ap_frame p t yi c [e] s u" "ap_frame p t yi c es u s'"
  shows "ap_frame p t yi c (e # es) s s'"
proof -
  have "accepts (e # es) = accepts [e] + accepts es" by (simp add: accepts_def)
  moreover have "ap_grows s s'" using assms ap_grows_trans by (auto simp: ap_frame_def)
  ultimately show ?thesis using assms by (simp add: ap_frame_def)
qed

lemma ap_step_frame:
  assumes "portal_inv ntoa ip nm page s" "portal_event_ok ntoa e" "ap_step s e = Some s'"
  shows "ap_frame p t yi c [e] s s'"
proof (cases e)
  case (Web w)
  obtain env ev where w: "w = (env, ev)" by (cases w)
  obtain u where u: "tcp_dispatch (ap_tcp s) (env, ev) = Some u" "s' = s\<lparr>ap_tcp := u\<rparr>"
    using assms(3) by (auto simp: ap_step_def Web w)
  have "web_keeps ntoa ev (ap_tcp s) u"
    by (rule dispatch_keeps [OF _ _ u(1)])
      (use assms(1,2) in \<open>auto simp: portal_inv_def ap_inv_def portal_event_ok_def Web w ap_event_ok_def\<close>)
  then show ?thesis
    by (cases "is_accept ev") (simp_all add: Web w u(2) web_keeps_def ap_frame_def ap_grows_def ap_event_pcb_def ap_is_accept_def accepts_def)
next
  case (Dhcp d)
  show ?thesis
  proof (cases "udp_live (dhcp_udp (fst (ap_dhcp s)))")
    case True
    then obtain l where l: "dhcp_step (ap_dhcp s) d = Some l" "s' = s\<lparr>ap_dhcp := l\<rparr>"
      using assms(3) by (auto simp: ap_step_def Dhcp)
    have ok: "dhcp_event_ok d" "dhcp_log_ok (ap_dhcp s)"
      using assms(1,2) by (simp_all add: Dhcp portal_event_ok_def ap_event_ok_def portal_inv_def ap_inv_def)
    have "\<exists>out. snd l = snd (ap_dhcp s) @ out" using l(1) by (auto simp: dhcp_step_def)
    moreover have "lease_held yi c t l" if "within_day t d" "lease_held yi c t (ap_dhcp s)"
      using lease_machine.handle_safe [OF that(2,1)] l(1) by auto
    ultimately show ?thesis
      using dhcp_step_tells(3) [OF ok(1) l(1) ok(2)]
      by (simp add: Dhcp l(2) ap_frame_def ap_grows_def ap_is_accept_def accepts_def)
  qed (use assms(3) in \<open>simp add: ap_step_def Dhcp ap_frame_def ap_grows_def accepts_def\<close>)
next
  case (Dns d)
  show ?thesis
  proof (cases "udp_live (dns_udp (fst (ap_dns s)))")
    case True
    then obtain l where l: "dns_step (ap_dns s) d = Some l" "s' = s\<lparr>ap_dns := l\<rparr>"
      using assms(3) by (auto simp: ap_step_def Dns)
    have "\<exists>out. snd l = snd (ap_dns s) @ out" using l(1) by (auto simp: dns_step_def)
    then show ?thesis
      using dns_step_fst [OF l(1)] by (simp add: Dns l(2) ap_frame_def ap_grows_def accepts_def)
  qed (use assms(3) in \<open>simp add: ap_step_def Dns ap_frame_def ap_grows_def accepts_def\<close>)
qed

lemma ap_run_frame:
  assumes "portal_inv ntoa ip nm page s" "\<forall>e \<in> set es. portal_event_ok ntoa e"
  shows "\<exists>s'. ap_run s es = Some s' \<and> portal_inv ntoa ip nm page s' \<and> ap_frame p t yi c es s s'"
  using assms
proof (induction es arbitrary: s)
  case Nil
  then show ?case by (simp add: ap_frame_refl)
next
  case (Cons e es)
  have e: "portal_event_ok ntoa e" "\<forall>e \<in> set es. portal_event_ok ntoa e" using Cons.prems(2) by simp_all
  obtain u where u: "ap_step s e = Some u" "portal_inv ntoa ip nm page u"
    using portal_machine.handle_safe [OF Cons.prems(1) e(1)] by blast
  obtain s' where "ap_run u es = Some s'" "portal_inv ntoa ip nm page s'" "ap_frame p t yi c es u s'"
    using Cons.IH [OF u(2) e(2)] by blast
  then show ?case using u(1) ap_frame_Cons [OF ap_step_frame [OF Cons.prems(1) e(1) u(1)]] by simp
qed

section \<open>A phone joins\<close>

text \<open>A message of the phone with the hardware address \<open>ch\<close>, as it arrives.\<close>

definition dhcp_asks :: "u8 list \<Rightarrow> (u8 \<times> u8 list) list \<Rightarrow> dhcp_event \<Rightarrow> bool" where
  "dhcp_asks ch opts e \<longleftrightarrow> de_alloc e \<and> length (de_stack e) = sizeof_dhcp_msg
     \<and> (\<exists>hdr names tail. dhcp_message_ok hdr ch names opts \<and> pbuf_holds (de_pbuf e) (dhcp_message hdr ch names opts tail))"

text \<open>The reply to it: address number \<open>yi\<close>, the server named as router and name server.\<close>

definition dhcp_answers :: "u8 list \<Rightarrow> ip_addr_t \<Rightarrow> ip_addr_t \<Rightarrow> u8 \<Rightarrow> nat \<Rightarrow> udp_datagram \<Rightarrow> bool" where
  "dhcp_answers ch ip nm ty yi dg \<longleftrightarrow> dg_addr dg = 0xffffffff \<and> dg_port dg = 68 \<and> take 16 (drop 28 (dg_payload dg)) = ch
     \<and> take 4 (drop 16 (dg_payload dg)) = take 3 (mem_bytes32 ip) @ [16 + of_nat yi]
     \<and> parse_options (drop 240 (dg_payload dg)) =
         [(53, [ty]), (54, mem_bytes32 ip), (1, mem_bytes32 nm), (3, mem_bytes32 ip), (6, mem_bytes32 ip),
          (51, [0, 1, 0x51, 0x80])]"

lemma discover_from_keeps:
  "\<forall>j. i \<le> j \<and> j < 8 \<longrightarrow> mac (ls ! j) \<noteq> take MAC_LEN ch \<Longrightarrow> yi \<noteq> 8 \<Longrightarrow> discover_from ticks ch ls i yi = (ls, yi)"
proof (induction "8 - i" arbitrary: i)
  case 0
  then show ?case by (subst discover_from.simps) (simp add: DHCPS_MAX_IP_def)
next
  case (Suc n)
  then have "discover_from ticks ch ls (i + 1) yi = (ls, yi)" by simp
  then show ?case using Suc.prems Suc.hyps(2) by (subst discover_from.simps) (simp add: DHCPS_MAX_IP_def)
qed

text \<open>A table without leases offers its first address.\<close>

lemma dhcp_discover_fresh:
  assumes "lease d = replicate 8 empty_lease" "take 6 ch \<noteq> zero_mac"
  obtains d' where "dhcp_discover ticks ch d = (d', Some 0)" "mac (lease d' ! 0) = zero_mac"
proof -
  let ?ls = "replicate 8 empty_lease"
  have eq: "?ls[0 := (?ls ! 0)\<lparr>mac := zero_mac\<rparr>] = ?ls" by (simp add: empty_lease_def eval_nat_numeral)
  have "discover_from ticks ch ?ls 1 0 = (?ls, 0)"
    by (rule discover_from_keeps) (use assms(2) in \<open>simp_all add: empty_lease_def MAC_LEN_def\<close>)
  then have "discover_from ticks ch ?ls 0 8 = (?ls, 0)"
    using assms(2) eq by (subst discover_from.simps) (simp add: DHCPS_MAX_IP_def empty_lease_def MAC_LEN_def Let_def)
  then have "dhcp_discover ticks ch d = (d\<lparr>lease := ?ls\<rparr>, Some 0)"
    by (simp add: dhcp_discover_def assms(1) DHCPS_MAX_IP_def)
  then show thesis by (rule that) (simp add: empty_lease_def)
qed

lemma dhcp_step_message:
  assumes "dhcp_message_ok hdr ch names opts" "map_of opts DHCP_OPT_MSG_TYPE = Some [t]" "length (de_stack e) = sizeof_dhcp_msg"
    and "pbuf_holds (de_pbuf e) (dhcp_message hdr ch names opts tail)"
  shows "dhcp_step s e = Some (let (d, out) = dhcp_case (de_alloc e) (de_ticks e) (fst s)
     (take 548 (dhcp_message hdr ch names opts tail)) t in (d, snd s @ out))"
proof -
  have "dhcp_event_ok e" using pbuf_holds_sane [OF assms(4)] assms(3) by (simp add: dhcp_event_ok_def)
  then show ?thesis
    using dhcp_handle_message(1) [OF assms(1,2), of "de_alloc e" "de_ticks e" "fst s" tail] assms(4)
    by (simp add: dhcp_step_handle pbuf_holds_def dhcp_layout)
qed

lemma phone_discover:
  assumes "dhcp_asks ch opts e" "map_of opts DHCP_OPT_MSG_TYPE = Some [DHCPDISCOVER]"
    and "lease (fst s) = replicate 8 empty_lease" "take 6 ch \<noteq> zero_mac" "dhcp_log_ok s"
  obtains s' dg where "dhcp_step s e = Some s'" "snd s' = snd s @ [dg]"
    "dhcp_answers ch (dhcp_ip (fst s)) (dhcp_nm (fst s)) 2 0 dg" "mac (lease (fst s') ! 0) = zero_mac"
    "dhcp_ip (fst s') = dhcp_ip (fst s)" "dhcp_nm (fst s') = dhcp_nm (fst s)"
proof -
  obtain hdr names tail where m: "dhcp_message_ok hdr ch names opts" "de_alloc e" "length (de_stack e) = sizeof_dhcp_msg"
    "pbuf_holds (de_pbuf e) (dhcp_message hdr ch names opts tail)"
    using assms(1) by (auto simp: dhcp_asks_def)
  define msg where "msg = take 548 (dhcp_message hdr ch names opts tail)"
  obtain d' where d': "dhcp_discover (de_ticks e) ch (fst s) = (d', Some 0)" "mac (lease d' ! 0) = zero_mac"
    by (rule dhcp_discover_fresh [OF assms(3,4)])
  have ch: "take 16 (drop 28 msg) = ch" using dhcp_handle_message(3) [OF m(1) assms(2), of tail] by (simp add: msg_def)
  let ?dg = "\<lparr>dg_addr = 0xffffffff, dg_port = 68, dg_payload = dhcp_reply (fst s) DHCPOFFER 0 msg\<rparr>"
  have "dhcp_step s e = Some (d', snd s @ [?dg])"
    using dhcp_step_message [OF m(1) assms(2) m(3,4), of s] dhcp_case_discover [of "de_ticks e" msg "fst s" d' "Some 0"] d'(1) ch m(2)
    by (simp add: msg_def)
  moreover have "dhcp_answers ch (dhcp_ip (fst s)) (dhcp_nm (fst s)) 2 0 ?dg"
    using dhcp_reply_message [OF m(1), of "fst s" DHCPOFFER 0 tail] by (simp add: dhcp_answers_def msg_def DHCPOFFER_def)
  ultimately show thesis
    using that [of "(d', snd s @ [?dg])" ?dg] d' dhcp_discover_result(2,3) [OF d'(1)] assms(5)
    by (simp add: dhcp_log_ok_def)
qed

lemma phone_request:
  assumes "dhcp_asks ch opts e" "map_of opts DHCP_OPT_MSG_TYPE = Some [DHCPREQUEST]"
    and "map_of opts DHCP_OPT_REQUESTED_IP = Some (take 3 (mem_bytes32 (dhcp_ip (fst s))) @ [16])"
    and "mac (lease (fst s) ! 0) = zero_mac" "take 6 ch \<noteq> zero_mac" "dhcp_log_ok s"
  obtains s' dg where "dhcp_step s e = Some s'" "snd s' = snd s @ [dg]"
    "dhcp_answers ch (dhcp_ip (fst s)) (dhcp_nm (fst s)) 5 0 dg" "lease_held 0 (take 6 ch) (de_ticks e 0) s'"
proof -
  obtain hdr names tail where m: "dhcp_message_ok hdr ch names opts" "de_alloc e" "length (de_stack e) = sizeof_dhcp_msg"
    "pbuf_holds (de_pbuf e) (dhcp_message hdr ch names opts tail)"
    using assms(1) by (auto simp: dhcp_asks_def)
  define msg where "msg = take 548 (dhcp_message hdr ch names opts tail)"
  have ch: "take 16 (drop 28 msg) = ch" and opt: "dhcp_option (drop 240 msg) = map_of opts"
    using dhcp_handle_message(2,3) [OF m(1) assms(2), of tail] by (simp_all add: msg_def)
  have grant: "dhcp_grantable (fst s) ch (take 3 (mem_bytes32 (dhcp_ip (fst s))) @ [16]) = Some 0"
    using dhcp_grantable_own [of 0 "fst s" ch] assms(4) by (simp add: DHCPS_BASE_IP_def)
  define d' where "d' = dhcp_grant (de_ticks e 0) (fst s) 0 (take MAC_LEN ch)"
  have req: "dhcp_request_spec (de_ticks e 0) (drop 240 msg) ch (fst s) = (d', Some 0)"
    using assms(3) grant by (simp add: dhcp_request_spec_def opt d'_def)
  let ?dg = "\<lparr>dg_addr = 0xffffffff, dg_port = 68, dg_payload = dhcp_reply (fst s) DHCPACK 0 msg\<rparr>"
  have step: "dhcp_step s e = Some (d', snd s @ [?dg])"
    using dhcp_step_message [OF m(1) assms(2) m(3,4), of s] dhcp_case_request [of "de_ticks e" msg "fst s" d' "Some 0"] req ch m(2)
    by (simp add: msg_def)
  have ok: "dhcp_event_ok e" using pbuf_holds_sane [OF m(4)] m(3) by (simp add: dhcp_event_ok_def)
  have "length (lease (fst s)) = 8" using assms(6) by (simp add: dhcp_log_ok_def wf_leases_def DHCPS_MAX_IP_def)
  then have "lease d' ! 0 = \<lparr>mac = take 6 ch, expiry = ucast (drop_bit 16 (de_ticks e 0 + DEFAULT_LEASE_TIME_S * 1000))\<rparr>"
    by (simp add: d'_def dhcp_grant_def MAC_LEN_def)
  then have "lease_held 0 (take 6 ch) (de_ticks e 0) (d', snd s @ [?dg])"
    using dhcp_machine.handle_safe [OF assms(6) ok] step assms(5) by (auto simp: lease_held_def intro!: exI [of _ 0])
  moreover have "dhcp_answers ch (dhcp_ip (fst s)) (dhcp_nm (fst s)) 5 0 ?dg"
    using dhcp_reply_message [OF m(1), of "fst s" DHCPACK 0 tail] by (simp add: dhcp_answers_def msg_def DHCPACK_def)
  ultimately show thesis using that [of "(d', snd s @ [?dg])" ?dg] step by simp
qed

lemma ap_run_Cons: "ap_step s e = Some u \<Longrightarrow> ap_run s (e # es) = ap_run u es"
  by simp

lemma ap_frame_trans:
  "ap_frame p t yi c es s u \<Longrightarrow> ap_frame p t yi c es' u s' \<Longrightarrow> ap_frame p t yi c (es @ es') s s'"
proof -
  assume a: "ap_frame p t yi c es s u" "ap_frame p t yi c es' u s'"
  have "accepts (es @ es') = accepts es + accepts es'" by (simp add: accepts_def)
  moreover have "ap_grows s s'" using a ap_grows_trans by (auto simp: ap_frame_def)
  ultimately show ?thesis using a by (auto simp: ap_frame_def)
qed

lemma ap_frame_logs:
  assumes "ap_frame p t yi c es s s'"
  shows "\<exists>out. snd (ap_dns s') = snd (ap_dns s) @ out" "\<exists>out. snd (ap_dhcp s') = snd (ap_dhcp s) @ out"
  using assms unfolding ap_frame_def ap_grows_def by blast+

text \<open>The lease: the phone is the first to ask, and the address it is offered is the one it requests.\<close>

lemma session_lease:
  assumes inv: "portal_inv ntoa ip nm page s0" and live: "udp_live (dhcp_udp (fst (ap_dhcp s0)))"
    and fresh: "lease (fst (ap_dhcp s0)) = replicate 8 empty_lease" "snd (ap_dhcp s0) = []"
    and others: "\<forall>e \<in> set (o0 @ o1). portal_event_ok ntoa e" "\<forall>d. Dhcp d \<notin> set (o0 @ o1)"
    and disc: "dhcp_asks ch opts1 disc" "map_of opts1 DHCP_OPT_MSG_TYPE = Some [DHCPDISCOVER]"
    and req: "dhcp_asks ch opts2 req" "map_of opts2 DHCP_OPT_MSG_TYPE = Some [DHCPREQUEST]"
      "map_of opts2 DHCP_OPT_REQUESTED_IP = Some (take 3 (mem_bytes32 ip) @ [16])"
    and ch: "take 6 ch \<noteq> zero_mac"
  obtains t offer ack where "ap_run s0 (o0 @ [Dhcp disc] @ o1 @ [Dhcp req]) = Some t" "portal_inv ntoa ip nm page t"
    "snd (ap_dhcp t) = [offer, ack]" "dhcp_answers ch ip nm 2 0 offer" "dhcp_answers ch ip nm 5 0 ack"
    "lease_held 0 (take 6 ch) (de_ticks req 0) (ap_dhcp t)"
    "ap_frame p tk yi c (o0 @ [Dhcp disc] @ o1 @ [Dhcp req]) s0 t"
proof -
  have ok: "portal_event_ok ntoa (Dhcp disc)" "portal_event_ok ntoa (Dhcp req)"
    using disc(1) req(1) pbuf_holds_sane
    by (auto simp: portal_event_ok_def ap_event_ok_def dhcp_event_ok_def dhcp_asks_def)
  have log: "dhcp_log_ok (ap_dhcp s)" "dhcp_ip (fst (ap_dhcp s)) = ip" "dhcp_nm (fst (ap_dhcp s)) = nm"
    if "portal_inv ntoa ip nm page s" for s
    using that by (simp_all add: portal_inv_def ap_inv_def)
  obtain t0 where t0: "ap_run s0 o0 = Some t0" "portal_inv ntoa ip nm page t0" "ap_frame p tk yi c o0 s0 t0"
    using ap_run_frame [OF inv, of o0 p tk yi c] others(1) by auto
  then have d0: "ap_dhcp t0 = ap_dhcp s0" using others(2) by (simp add: ap_frame_def)
  note l0 = log [OF inv]
  obtain s1 offer where "dhcp_step (ap_dhcp s0) disc = Some s1" "snd s1 = snd (ap_dhcp s0) @ [offer]"
    "dhcp_answers ch (dhcp_ip (fst (ap_dhcp s0))) (dhcp_nm (fst (ap_dhcp s0))) 2 0 offer" "mac (lease (fst s1) ! 0) = zero_mac"
    by (rule phone_discover [OF disc fresh(1) ch l0(1)])
  note s1 = this [unfolded l0(2,3) fresh(2) append_Nil]
  define t1 where "t1 = t0\<lparr>ap_dhcp := s1\<rparr>"
  have step1: "ap_step t0 (Dhcp disc) = Some t1" using s1(1) live by (simp add: ap_step_def d0 t1_def)
  have i1: "portal_inv ntoa ip nm page t1" using portal_machine.handle_safe [OF t0(2) ok(1)] step1 by auto
  note f1 = ap_step_frame [OF t0(2) ok(1) step1, of p tk yi c]
  obtain t2 where t2: "ap_run t1 o1 = Some t2" "portal_inv ntoa ip nm page t2" "ap_frame p tk yi c o1 t1 t2"
    using ap_run_frame [OF i1, of o1 p tk yi c] others(1) by auto
  then have d2: "ap_dhcp t2 = s1" using others(2) by (simp add: ap_frame_def t1_def)
  note l2 = log [OF t2(2), unfolded d2]
  have r: "map_of opts2 DHCP_OPT_REQUESTED_IP = Some (take 3 (mem_bytes32 (dhcp_ip (fst s1))) @ [16])"
    using req(3) l2(2) by simp
  obtain s3 ack where "dhcp_step s1 req = Some s3" "snd s3 = snd s1 @ [ack]"
    "dhcp_answers ch (dhcp_ip (fst s1)) (dhcp_nm (fst s1)) 5 0 ack" "lease_held 0 (take 6 ch) (de_ticks req 0) s3"
    by (rule phone_request [OF req(1,2) r s1(4) ch l2(1)])
  note s3 = this [unfolded l2(2,3)]
  define t3 where "t3 = t2\<lparr>ap_dhcp := s3\<rparr>"
  have "udp_live (dhcp_udp (fst (ap_dhcp t2)))"
    using live t0(3) f1 t2(3) by (simp add: ap_frame_def ap_grows_def)
  then have step3: "ap_step t2 (Dhcp req) = Some t3" using s3(1) by (simp add: ap_step_def t3_def d2)
  have i3: "portal_inv ntoa ip nm page t3" using portal_machine.handle_safe [OF t2(2) ok(2)] step3 by auto
  note f3 = ap_step_frame [OF t2(2) ok(2) step3, of p tk yi c]
  have "ap_run s0 (o0 @ [Dhcp disc] @ o1 @ [Dhcp req]) = Some t3"
    using t0(1) step1 t2(1) step3 by (simp add: ap_run_append)
  moreover have "ap_frame p tk yi c (o0 @ [Dhcp disc] @ o1 @ [Dhcp req]) s0 t3"
    by (intro ap_frame_trans [OF t0(3)] ap_frame_trans [OF f1] ap_frame_trans [OF t2(3)] f3)
  ultimately show thesis
    using that [of t3 offer ack] i3 s1(2,3) s3(2-4) by (simp add: t3_def)
qed

text \<open>The web: the phone connects and asks for a page.\<close>

lemma session_get:
  assumes inv: "portal_inv ntoa ip nm page u" and p: "pcb_arg (ap_tcp u) p = None" "active_connections (ap_tcp u) < 4"
    and bounds: "length (html_form_expanded (ap_tcp u)) \<le> 8192" "\<forall>ip. length (ntoa ip) \<le> 15"
    and others: "\<forall>e \<in> set o4. portal_event_ok ntoa e \<and> ap_event_pcb e \<noteq> Some p"
    and get: "env_ntoa tenv = ntoa" "pbuf_holds pb b" "0 \<notin> set b" "length b < TCP_IP_BUFFER_SIZE"
      "check_request (chars_of_bytes b) = Proceed" "\<not> is_post (chars_of_bytes b)"
  obtains t where "ap_run u ([Web (tenv, Accept (Some p) ERR_OK)] @ o4 @ [Web (tenv, Recv p (Some pb))]) = Some t"
    "\<exists>earlier. effects (ap_tcp t) = earlier @ map (TcpWrite p) (if is_config_page (chars_of_bytes b)
        then [HTTP_RESPONSE_OK_HEADER, page] else [HTTP_RESPONSE_REDIRECT_HEADER (ntoa ip)])"
    "ap_frame q tk yi c ([Web (tenv, Accept (Some p) ERR_OK)] @ o4 @ [Web (tenv, Recv p (Some pb))]) u t"
proof -
  let ?acc = "Web (tenv, Accept (Some p) ERR_OK)" and ?rcv = "Web (tenv, Recv p (Some pb))"
  have ok: "portal_event_ok ntoa ?acc" "portal_event_ok ntoa ?rcv"
    using get(1) pbuf_holds_sane [OF get(2)] by (simp_all add: portal_event_ok_def ap_event_ok_def tcp_event_ok_def)
  have tu: "tcp_inv (ap_tcp u)" using inv by (simp add: portal_inv_def ap_inv_def)
  then have "used (ap_tcp u) < 4" using p(2) by (simp add: tcp_inv_def)
  define i where "i = the (free_slot (connections (ap_tcp u)) 0)"
  define c0 where "c0 = con_zero\<lparr>con_server_state := True, con_flash_config := server_flash_config (ap_tcp u),
    con_pcb := Some p, con_gw := Some (gw (ap_tcp u))\<rparr>"
  define v where "v = fst (tcp_server_accept (Some p) ERR_OK (ap_tcp u))"
  define t1 where "t1 = u\<lparr>ap_tcp := v\<rparr>"
  have v: "pcb_arg v p = Some i" "connections v = (connections (ap_tcp u))[i := c0]" "gw v = gw (ap_tcp u)"
    using \<open>used (ap_tcp u) < 4\<close> by (simp_all add: v_def tcp_server_accept_cases [OF tu] i_def c0_def Let_def)
  have step1: "ap_step u ?acc = Some t1" using p(1) by (simp add: ap_step_def tcp_dispatch_def t1_def v_def)
  have i1: "portal_inv ntoa ip nm page t1" using portal_machine.handle_safe [OF inv ok(1)] step1 by auto
  then have "tcp_inv v" by (simp add: portal_inv_def ap_inv_def t1_def)
  then have "i < length (connections v)" using v(1) by (simp add: tcp_inv_def)
  then have con: "connections v ! i = c0" using v(2) by simp
  obtain t2 where t2: "ap_run t1 o4 = Some t2" "portal_inv ntoa ip nm page t2"
    "ap_frame p tk yi c o4 t1 t2" "ap_frame q tk yi c o4 t1 t2"
    using ap_run_frame [OF i1, of o4 p tk yi c] ap_run_frame [OF i1, of o4 q tk yi c] others by auto
  have w: "pcb_arg (ap_tcp t2) p = Some i" "connections (ap_tcp t2) ! i = c0" "tcp_inv (ap_tcp t2)"
    "gw (ap_tcp t2) = ip" "c_str (html_form_expanded (ap_tcp t2)) = page"
    using t2(2,3) others v(1) con by (auto simp: ap_frame_def t1_def portal_inv_def ap_inv_def)
  have "html_form_expanded (ap_tcp t1) = html_form_expanded (ap_tcp u)"
    using ap_step_frame [OF inv ok(1) step1, of p tk yi c] by (simp add: ap_frame_def ap_grows_def)
  then have pb: "page_bounds tenv (ap_tcp t2)"
    using bounds get(1) t2(3) by (simp add: page_bounds_def ap_frame_def ap_grows_def)
  have buf: "buffer_ok (headers c0)" "c_str (headers c0) = []" "result_len c0 = 0"
    by (simp_all add: c0_def con_zero_def buffer_ok_def TCP_IP_BUFFER_SIZE_def c_str_def eval_nat_numeral)
  obtain h where h: "append_packet (headers c0) pb = Some h" "buffer_ok h" "c_str h = chars_of_bytes b"
    using append_packet_fits [OF buf(1) get(2,3)] get(4) buf(2) by auto
  have hdrs: "append_packet (headers (connections (ap_tcp t2) ! i)) pb = Some h"
    "result_len (connections (ap_tcp t2) ! i) = 0"
    using h(1) buf(3) w(2) by simp_all
  obtain s' d where s': "tcp_dispatch (ap_tcp t2) (tenv, Recv p (Some pb)) = Some s'"
    "s' = emit (map (TcpWrite p) (get_writes tenv (c_str h) (ap_tcp t2))) (set_con i d (ap_tcp t2))"
    using recv_get [OF w(3,1) pb hdrs(2,1) h(2)] get(5,6) h(3) by metis
  define t where "t = t2\<lparr>ap_tcp := s'\<rparr>"
  have step3: "ap_step t2 ?rcv = Some t" using s'(1) by (simp add: ap_step_def t_def)
  have "effects (ap_tcp t) = effects (ap_tcp t2) @ map (TcpWrite p) (if is_config_page (chars_of_bytes b)
        then [HTTP_RESPONSE_OK_HEADER, page] else [HTTP_RESPONSE_REDIRECT_HEADER (ntoa ip)])"
    by (simp add: t_def s'(2) get_writes_def h(3) w(4,5) get(1) set_con_def)
  moreover have "ap_run u ([?acc] @ o4 @ [?rcv]) = Some t" using step1 t2(1) step3 by (simp add: ap_run_append)
  moreover have "ap_frame q tk yi c ([?acc] @ o4 @ [?rcv]) u t"
    by (intro ap_frame_trans [OF ap_step_frame [OF inv ok(1) step1]] ap_frame_trans [OF t2(4)]
        ap_step_frame [OF t2(2) ok(2) step3])
  ultimately show thesis using that by blast
qed

text \<open>What the set-up leaves when the sockets could be opened.\<close>

lemma setup_fresh:
  assumes "ap_start_ok cfg s" "ap_setup env template cfg s = Some (s0, None)"
    and "ap_dhcp_new env \<and> ap_dhcp_bind env = ERR_OK" "ap_dns_new env \<and> ap_dns_bind env = ERR_OK"
    and "length (html_form_expanded (ap_tcp s)) \<le> 8192"
  shows "udp_live (dhcp_udp (fst (ap_dhcp s0)))" "udp_live (dns_udp (fst (ap_dns s0)))"
    "lease (fst (ap_dhcp s0)) = replicate 8 empty_lease" "snd (ap_dhcp s0) = []"
    "pcb_arg (ap_tcp s0) p = None" "active_connections (ap_tcp s0) = 0" "length (html_form_expanded (ap_tcp s0)) \<le> 8192"
proof -
  obtain html dns where html: "expand_html_template (length (html_form_expanded (ap_tcp s))) template
      (html_form_expanded (ap_tcp s)) cfg = Some (ERR_OK, html)"
    and dns: "dns_server_init (ap_ndebug env) (ap_dns_new env) (ap_dns_bind env) (fst (ap_dns s)) (ap_address env) = Some dns"
    and s0: "s0 = s\<lparr>ap_wifi_initialized := True, ap_mode_ssid := Some (get_ssid (ap_mac env)),
      ap_tcp := tcp_server_zero\<lparr>gw := ap_address env, server_flash_config := cfg, html_form_expanded := html,
        server_pcb := ap_tcp_listen env\<rparr>,
      ap_dhcp := (dhcp_server_init (ap_dhcp_new env) (ap_dhcp_bind env) (fst (ap_dhcp s)) (ap_address env)
        (ap_netmask env), snd (ap_dhcp s)), ap_dns := (dns, snd (ap_dns s))\<rparr>"
    by (rule ap_setup_done [OF assms(2)])
  have "length html = length (html_form_expanded (ap_tcp s))"
    using html expand_loop_safe [of "html_form_expanded (ap_tcp s)" "length (html_form_expanded (ap_tcp s))" 0 cfg template] assms(1)
    by (simp add: expand_html_template_def ap_start_ok_def)
  moreover have "udp_live (dns_udp dns)"
    using dns assms(4) by (auto simp: dns_server_init_def dns_socket_new_dgram_def dns_socket_bind_def udp_live_def udp_pcb_new_def)
  ultimately show "udp_live (dhcp_udp (fst (ap_dhcp s0)))" "udp_live (dns_udp (fst (ap_dns s0)))"
    "lease (fst (ap_dhcp s0)) = replicate 8 empty_lease" "snd (ap_dhcp s0) = []"
    "pcb_arg (ap_tcp s0) p = None" "active_connections (ap_tcp s0) = 0" "length (html_form_expanded (ap_tcp s0)) \<le> 8192"
    using assms(1,3,5) by (simp_all add: s0 ap_start_ok_def tcp_server_zero_def dhcp_server_init_def udp_live_def
        dhcp_socket_new_dgram_def dhcp_socket_bind_def udp_pcb_new_def DHCPS_MAX_IP_def)
qed

lemma session_lookup:
  assumes "portal_inv ntoa ip nm page s" "udp_live (dns_udp (fst (ap_dns s)))"
    and "dp_alloc q \<and> length (dp_stack q) = MAX_DNS_MSG_SIZE"
    and "pbuf_holds (dp_pbuf q) (dns_query id0 id1 hdr names ([t0, t1, c0, c1] @ rest))" "asks_standard_query hdr"
    and "\<forall>l \<in> set names. valid_label l" "length (encode_qname names) \<le> 255"
  obtains s' where "ap_step s (Dns q) = Some s'" "portal_inv ntoa ip nm page s'" "ap_frame p tk yi c [Dns q] s s'"
    "\<lparr>dg_addr = dp_addr q, dg_port = dp_port q, dg_payload =
       [id0, id1, 0x84, 0x80, 0, 1, 0, 1, 0, 0, 0, 0] @ encode_qname names @ [t0, t1, c0, c1]
       @ [0xc0, 12, 0, 1, 0, 1, 0, 0, 0, 60, 0, 4] @ mem_bytes32 ip\<rparr> \<in> set (snd (ap_dns s'))"
proof -
  have ok: "portal_event_ok ntoa (Dns q)"
    using assms(3) pbuf_holds_sane [OF assms(4)] by (simp add: portal_event_ok_def ap_event_ok_def dns_packet_ok_def)
  have ip: "dns_ip (fst (ap_dns s)) = ip" using assms(1,2) by (simp add: portal_inv_def)
  let ?dg = "\<lparr>dg_addr = dp_addr q, dg_port = dp_port q, dg_payload =
       [id0, id1, 0x84, 0x80, 0, 1, 0, 1, 0, 0, 0, 0] @ encode_qname names @ [t0, t1, c0, c1]
       @ [0xc0, 12, 0, 1, 0, 1, 0, 0, 0, 60, 0, 4] @ mem_bytes32 ip\<rparr>"
  define s' where "s' = s\<lparr>ap_dns := (fst (ap_dns s), snd (ap_dns s) @ [?dg])\<rparr>"
  have step: "ap_step s (Dns q) = Some s'"
    using dns_answers_query [OF assms(4) _ assms(5-7), of "dp_stack q" ip "dp_addr q" "dp_port q"] assms(2,3)
    by (simp add: ap_step_def dns_step_def ip s'_def)
  show thesis
    by (rule that [OF step _ ap_step_frame [OF assms(1) ok step]])
      (use portal_machine.handle_safe [OF assms(1) ok] step in \<open>auto simp: s'_def\<close>)
qed

section \<open>Properties\<close>

text \<open>
  C16: The access point as a whole, whatever callbacks come once it is set up, in any order and with any packets: no
  handler leaves an array; the web server's count is that of its connections in use, at most four, each
  registered with the control block of its slot; it stores valid configurations only, and each text it
  writes is one of its page (header and expanded form), the redirect to its own address, and its three
  answers to a form; each datagram of the address server is a broadcast that gives an address of its network
  and names itself as router and name server, and its table keeps its shape; each datagram of the name server
  is one answer, itself. The three servers thus always lead to the one address that the radio driver gave.
\<close>

theorem access_point_leads_home:
  assumes "ap_start_ok cfg s" and "ap_setup env template cfg s = Some (s0, None)"
    and "length (html_form_expanded (ap_tcp s)) \<le> 65536" and "\<forall>e \<in> set es. portal_event_ok ntoa e"
  shows "\<exists>t. ap_run s0 es = Some t
    \<and> (\<forall>p text. TcpWrite p text \<in> set (effects (ap_tcp t)) \<longrightarrow>
        text \<in> {HTTP_RESPONSE_OK_HEADER, c_str (html_form_expanded (ap_tcp s0)),
          HTTP_RESPONSE_REDIRECT_HEADER (ntoa (ap_address env)), bad_req_msg, success_msg, fail_msg})
    \<and> (\<forall>dg \<in> set (snd (ap_dhcp t)). dhcp_tells (ap_address env) (ap_netmask env) dg)
    \<and> (\<forall>dg \<in> set (snd (ap_dns t)). is_own_answer (ap_address env) (dg_payload dg))
    \<and> length (lease (fst (ap_dhcp t))) = 8 \<and> (\<forall>l \<in> set (lease (fst (ap_dhcp t))). length (mac l) = 6)
    \<and> active_connections (ap_tcp t) = int (length (filter (\<lambda>c. con_pcb c \<noteq> None) (connections (ap_tcp t))))
    \<and> active_connections (ap_tcp t) \<le> 4
    \<and> (\<forall>p i. pcb_arg (ap_tcp t) p = Some i \<longleftrightarrow> i < 4 \<and> con_pcb (connections (ap_tcp t) ! i) = Some p)
    \<and> (\<forall>c \<in> set (stored (ap_tcp t)). valid_config c)"
proof -
  let ?inv = "portal_inv ntoa (ap_address env) (ap_netmask env) (c_str (html_form_expanded (ap_tcp s0)))"
  obtain t where "ap_run s0 es = Some t" "?inv t"
    using portal_machine.run_safe [OF setup_portal [OF assms(1-3)] assms(4)] portal_run_eq by metis
  moreover then have tcp: "tcp_inv (ap_tcp t)" by (simp add: portal_inv_def ap_inv_def)
  moreover have "used (ap_tcp t) \<le> 4"
    using tcp length_filter_le [of "\<lambda>c. con_pcb c \<noteq> None" "connections (ap_tcp t)"]
    by (simp add: tcp_inv_def used_def TCP_IP_MAX_CONNECTIONS_def)
  ultimately show ?thesis
    by (auto simp: tcp_inv_def used_def TCP_IP_MAX_CONNECTIONS_def portal_inv_def site_text_def ap_inv_def dhcp_log_ok_def wf_leases_def DHCPS_MAX_IP_def MAC_LEN_def)
qed

definition portal_sample_events :: "ap_event list" where
  "portal_sample_events = [Dns sample_dns_packet, Dhcp (sample_event 5 [2, 0, 0, 0, 0, 9] [(53, [1])]),
     Web (sample_env, Accept (Some 7) ERR_OK), Web (sample_env, Recv 7 (Some (pbuf_of_bytes [71, 69, 84, 13, 10])))]"

lemma portal_sample_events_ok: "\<forall>e \<in> set portal_sample_events. portal_event_ok (env_ntoa sample_env) e"
  using sample_event_ok pbuf_holds_sane [OF pbuf_holds_of_bytes]
  by (simp add: portal_sample_events_def portal_event_ok_def ap_event_ok_def tcp_event_ok_def dns_packet_ok_def
      sample_dns_packet_def MAX_DNS_MSG_SIZE_def)

theorem access_point_leads_home_witness:
  "\<exists>s0 t. ap_setup sample_ap_env ''x'' None sample_ap_start = Some (s0, None) \<and> ap_run s0 portal_sample_events = Some t
    \<and> length (lease (fst (ap_dhcp t))) = 8"
proof -
  obtain s0 where s0: "ap_setup sample_ap_env ''x'' None sample_ap_start = Some (s0, None)"
    using sample_ap_setup by blast
  have "length (html_form_expanded (ap_tcp sample_ap_start)) \<le> 65536" by (simp add: sample_ap_start_def)
  from access_point_leads_home [OF sample_ap_ok s0 this portal_sample_events_ok] show ?thesis using s0 by blast
qed


text \<open>The example: the phone's messages, the look-up of \<open>x.com\<close>, and a GET for another path.\<close>

definition sample_get :: "u8 list" where
  "sample_get = [71, 69, 84, 32, 47, 120, 32, 13, 10]"

lemma sample_asks:
  assumes "\<forall>o' \<in> set opts. valid_option o'" "length (encode_options opts) \<le> 300" "length m = 6"
  shows "dhcp_asks (m @ replicate 10 0) opts (sample_event now m opts)"
proof -
  have "dhcp_message_ok (replicate 28 1) (m @ replicate 10 0) (replicate 196 0) opts"
    using assms by (simp add: dhcp_message_ok_def)
  moreover have "pbuf_holds (de_pbuf (sample_event now m opts))
      (dhcp_message (replicate 28 1) (m @ replicate 10 0) (replicate 196 0) opts [])"
    using pbuf_holds_of_bytes by (simp add: sample_event_def sample_message_def)
  ultimately show ?thesis unfolding dhcp_asks_def by (auto simp: sample_event_def dhcp_layout)
qed


end
