(* ===== verification/LwipOpts.thy ===== *)
theory LwipOpts
  imports Lwip
begin

text \<open>
  src/src/lwipopts.h, the configuration of the lwIP stack. The file is a program for the C preprocessor, so
  it is modelled as one: a list of directives that runs on the macros the build defines on the command line
  and leaves the macros the stack is compiled with. The macros are an association list with the newest
  definition first; a later \<open>#define\<close> of a name takes the place of an earlier one, as compilers
  treat it, and \<open>redefinitions\<close> names those for which the C standard forbids it, because the two
  bodies differ. Bodies are token lists and are substituted as tokens, without parentheses of their own.
\<close>

section \<open>The preprocessor\<close>

datatype arith = Add | Subtract | Multiply | Divide

datatype token = Number int | Name string | Open | Close | Op arith

type_synonym macros = "(string \<times> token list) list"

datatype condition = Ifndef string | IfNonzero string | IfDefinedOne string

datatype directive = Define string "token list" | Conditional condition "directive list" "directive list"

text \<open>
  Replacing the macros in a token list. Inside the replacement of a macro its own name is not replaced
  again, so the expansion ends.
\<close>

function expand :: "macros \<Rightarrow> token list \<Rightarrow> token list" where
  "expand m [] = []"
| "expand m (Name x # ts) = (case map_of m x of None \<Rightarrow> Name x # expand m ts
     | Some b \<Rightarrow> expand (filter (\<lambda>d. fst d \<noteq> x) m) b @ expand m ts)"
| "expand m (Number n # ts) = Number n # expand m ts"
| "expand m (Open # ts) = Open # expand m ts"
| "expand m (Close # ts) = Close # expand m ts"
| "expand m (Op a # ts) = Op a # expand m ts"
  by pat_completeness auto

lemma length_filter_defined: "map_of m x = Some b \<Longrightarrow> length (filter (\<lambda>d. fst d \<noteq> x) m) < length m"
  by (rule length_filter_less [of "(x, b)"]) (simp_all add: map_of_SomeD)

termination expand
  by (relation "inv_image (less_than <*lex*> less_than) (\<lambda>(m, ts). (length m, length ts))")
    (auto intro: length_filter_defined)

text \<open>
  The value of a constant expression, in one pass over its tokens. A frame \<open>(s, p, op)\<close> stands for
  the expression read so far inside one pair of parentheses: \<open>s\<close> is the sum of the finished terms,
  \<open>p\<close> the product that is growing, and \<open>op\<close> the operator that waits for an operand. Division
  is C's. \<open>None\<close> is an expression that is not well formed, holds a name, or divides by 0.
\<close>

type_synonym frame = "int \<times> int \<times> arith option"

fun operand :: "frame \<Rightarrow> int \<Rightarrow> frame option" where
  "operand (s, p, Some Add) v = Some (s + p, v, None)"
| "operand (s, p, Some Subtract) v = Some (s + p, - v, None)"
| "operand (s, p, Some Multiply) v = Some (s, p * v, None)"
| "operand (s, p, Some Divide) v = (if v = 0 then None else Some (s, p sdiv v, None))"
| "operand (s, p, None) v = None"

fun calc :: "token list \<Rightarrow> frame \<Rightarrow> frame list \<Rightarrow> int option" where
  "calc [] (s, p, None) [] = Some (s + p)"
| "calc (Number n # ts) f fs = do { f' \<leftarrow> operand f n; calc ts f' fs }"
| "calc (Open # ts) (s, p, Some a) fs = calc ts (0, 0, Some Add) ((s, p, Some a) # fs)"
| "calc (Close # ts) (s, p, None) (f # fs) = do { f' \<leftarrow> operand f (s + p); calc ts f' fs }"
| "calc (Op a # ts) (s, p, None) fs = calc ts (s, p, Some a) fs"
| "calc _ _ _ = None"

definition expression_value :: "token list \<Rightarrow> int option" where
  "expression_value ts = calc ts (0, 0, Some Add) []"

text \<open>In the condition of an \<open>#if\<close> a name that is no macro counts as 0.\<close>

fun name_as_0 :: "token \<Rightarrow> token" where
  "name_as_0 (Name x) = Number 0"
| "name_as_0 t = t"

definition if_value :: "macros \<Rightarrow> string \<Rightarrow> int option" where
  "if_value m x = expression_value (map name_as_0 (expand m [Name x]))"

fun condition_holds :: "macros \<Rightarrow> condition \<Rightarrow> bool option" where
  "condition_holds m (Ifndef x) = Some (map_of m x = None)"
| "condition_holds m (IfNonzero x) = map_option (\<lambda>v. v \<noteq> 0) (if_value m x)"
| "condition_holds m (IfDefinedOne x) = map_option (\<lambda>v. map_of m x \<noteq> None \<and> v = 1) (if_value m x)"

text \<open>\<open>None\<close> is a condition that the preprocessor rejects.\<close>

fun preprocess :: "directive list \<Rightarrow> macros \<Rightarrow> macros option" where
  "preprocess [] m = Some m"
| "preprocess (Define x b # ds) m = preprocess ds ((x, b) # m)"
| "preprocess (Conditional c yes no # ds) m = do {
     h \<leftarrow> condition_holds m c;
     m' \<leftarrow> (if h then preprocess yes m else preprocess no m);
     preprocess ds m' }"

fun redefinitions :: "macros \<Rightarrow> string list" where
  "redefinitions [] = []"
| "redefinitions ((x, b) # m) =
     (if map_of m x = None \<or> map_of m x = Some b then [] else [x]) @ redefinitions m"

text \<open>What the stack's sources compute from an option.\<close>

definition option_value :: "macros \<Rightarrow> string \<Rightarrow> int option" where
  "option_value m x = expression_value (expand m [Name x])"

section \<open>The file\<close>

definition lwipopts_common :: "directive list" where
  "lwipopts_common = [
    Conditional (Ifndef ''NO_SYS'')
       [Define ''NO_SYS'' [Number 1]] [],
    Conditional (Ifndef ''LWIP_SOCKET'')
       [Define ''LWIP_SOCKET'' [Number 0]] [],
    Conditional (IfNonzero ''PICO_CYW43_ARCH_POLL'')
       [Define ''MEM_LIBC_MALLOC'' [Number 1]]
       [Define ''MEM_LIBC_MALLOC'' [Number 0]],
    Define ''MEM_ALIGNMENT'' [Number 4],
    Conditional (Ifndef ''MEM_SIZE'')
       [Define ''MEM_SIZE'' [Number 4000]] [],
    Define ''MEMP_NUM_TCP_SEG'' [Number 32],
    Define ''MEMP_NUM_ARP_QUEUE'' [Number 10],
    Define ''PBUF_POOL_SIZE'' [Number 24],
    Define ''LWIP_ARP'' [Number 1],
    Define ''LWIP_ETHERNET'' [Number 1],
    Define ''LWIP_ICMP'' [Number 1],
    Define ''LWIP_RAW'' [Number 1],
    Define ''TCP_WND'' [Open, Number 8, Op Multiply, Name ''TCP_MSS'', Close],
    Define ''TCP_MSS'' [Number 1460],
    Define ''TCP_SND_BUF'' [Open, Number 8, Op Multiply, Name ''TCP_MSS'', Close],
    Define ''TCP_SND_QUEUELEN'' [Open, Open, Number 4, Op Multiply, Open, Name ''TCP_SND_BUF'', Close,
      Op Add, Open, Name ''TCP_MSS'', Op Subtract, Number 1, Close, Close, Op Divide, Open, Name ''TCP_MSS'', Close, Close],
    Define ''LWIP_NETIF_STATUS_CALLBACK'' [Number 1],
    Define ''LWIP_NETIF_LINK_CALLBACK'' [Number 1],
    Define ''LWIP_NETIF_HOSTNAME'' [Number 1],
    Define ''LWIP_NETCONN'' [Number 0],
    Define ''MEM_STATS'' [Number 0],
    Define ''SYS_STATS'' [Number 0],
    Define ''MEMP_STATS'' [Number 0],
    Define ''LINK_STATS'' [Number 0],
    Define ''LWIP_CHKSUM_ALGORITHM'' [Number 3],
    Define ''LWIP_DHCP'' [Number 1],
    Define ''LWIP_IPV4'' [Number 1],
    Define ''LWIP_TCP'' [Number 1],
    Define ''LWIP_UDP'' [Number 1],
    Define ''LWIP_DNS'' [Number 1],
    Define ''LWIP_TCP_KEEPALIVE'' [Number 1],
    Define ''LWIP_NETIF_TX_SINGLE_PBUF'' [Number 1],
    Define ''DHCP_DOES_ARP_CHECK'' [Number 0],
    Define ''LWIP_DHCP_DOES_ACD_CHECK'' [Number 0]]"

definition lwipopts_debug :: "directive list" where
  "lwipopts_debug = [
    Conditional (Ifndef ''NDEBUG'')
       [Define ''LWIP_DEBUG'' [Number 1],
        Define ''LWIP_STATS'' [Number 1],
        Define ''LWIP_STATS_DISPLAY'' [Number 1]] [],
    Define ''ETHARP_DEBUG'' [Name ''LWIP_DBG_OFF''],
    Define ''NETIF_DEBUG'' [Name ''LWIP_DBG_OFF''],
    Define ''PBUF_DEBUG'' [Name ''LWIP_DBG_OFF''],
    Define ''API_LIB_DEBUG'' [Name ''LWIP_DBG_OFF''],
    Define ''API_MSG_DEBUG'' [Name ''LWIP_DBG_OFF''],
    Define ''SOCKETS_DEBUG'' [Name ''LWIP_DBG_OFF''],
    Define ''ICMP_DEBUG'' [Name ''LWIP_DBG_OFF''],
    Define ''INET_DEBUG'' [Name ''LWIP_DBG_OFF''],
    Define ''IP_DEBUG'' [Name ''LWIP_DBG_OFF''],
    Define ''IP_REASS_DEBUG'' [Name ''LWIP_DBG_OFF''],
    Define ''RAW_DEBUG'' [Name ''LWIP_DBG_OFF''],
    Define ''MEM_DEBUG'' [Name ''LWIP_DBG_OFF''],
    Define ''MEMP_DEBUG'' [Name ''LWIP_DBG_OFF''],
    Define ''SYS_DEBUG'' [Name ''LWIP_DBG_OFF''],
    Define ''TCP_DEBUG'' [Name ''LWIP_DBG_OFF''],
    Define ''TCP_INPUT_DEBUG'' [Name ''LWIP_DBG_OFF''],
    Define ''TCP_OUTPUT_DEBUG'' [Name ''LWIP_DBG_OFF''],
    Define ''TCP_RTO_DEBUG'' [Name ''LWIP_DBG_OFF''],
    Define ''TCP_CWND_DEBUG'' [Name ''LWIP_DBG_OFF''],
    Define ''TCP_WND_DEBUG'' [Name ''LWIP_DBG_OFF''],
    Define ''TCP_FR_DEBUG'' [Name ''LWIP_DBG_OFF''],
    Define ''TCP_QLEN_DEBUG'' [Name ''LWIP_DBG_OFF''],
    Define ''TCP_RST_DEBUG'' [Name ''LWIP_DBG_OFF''],
    Define ''UDP_DEBUG'' [Name ''LWIP_DBG_OFF''],
    Define ''TCPIP_DEBUG'' [Name ''LWIP_DBG_OFF''],
    Define ''PPP_DEBUG'' [Name ''LWIP_DBG_OFF''],
    Define ''SLIP_DEBUG'' [Name ''LWIP_DBG_OFF''],
    Define ''DHCP_DEBUG'' [Name ''LWIP_DBG_OFF'']]"

definition lwipopts_local :: "directive list" where
  "lwipopts_local = [
    Define ''MEM_SIZE'' [Number 16, Op Multiply, Number 1024],
    Conditional (IfDefinedOne ''LWIP_MALLOC_DEBUG'')
       [Define ''LWIP_STATS'' [Number 1],
        Define ''LWIP_STATS_DISPLAY'' [Number 1],
        Define ''MEM_STATS'' [Number 1],
        Define ''MEMP_STATS'' [Number 1],
        Define ''MEM_SANITY_CHECK'' [Number 1],
        Define ''MEM_OVERFLOW_CHECK'' [Number 2],
        Define ''MEMP_SANITY_CHECK'' [Number 1],
        Define ''MEMP_OVERFLOW_CHECK'' [Number 2]] [],
    Conditional (IfDefinedOne ''LWIP_PROTOCOL_DEBUG'')
       [Define ''LWIP_DEBUG'' [Number 1],
        Define ''PBUF_DEBUG'' [Name ''LWIP_DBG_ON''],
        Define ''UDP_DEBUG'' [Name ''LWIP_DBG_ON'']] []]"

definition lwipopts :: "directive list" where
  "lwipopts = lwipopts_common @ lwipopts_debug @ lwipopts_local"

section \<open>The value of an expression\<close>

text \<open>
  A reference for \<open>expression_value\<close>: expressions as trees, and how C writes a tree with no more
  parentheses than it needs (\<open>l\<close> is 0 for a sum, 1 for a factor on the left, 2 for an operand).
\<close>

datatype expr = Lit int | Bin arith expr expr

fun precedence :: "arith \<Rightarrow> nat" where
  "precedence Add = 0"
| "precedence Subtract = 0"
| "precedence Multiply = 1"
| "precedence Divide = 1"

fun write_expr :: "nat \<Rightarrow> expr \<Rightarrow> token list" where
  "write_expr l (Lit n) = [Number n]"
| "write_expr l (Bin a e e') = (let ts = write_expr (precedence a) e @ [Op a] @ write_expr (precedence a + 1) e'
     in if precedence a < l then [Open] @ ts @ [Close] else ts)"

fun c_arith_op :: "arith \<Rightarrow> int \<Rightarrow> int \<Rightarrow> int option" where
  "c_arith_op Add v w = Some (v + w)"
| "c_arith_op Subtract v w = Some (v - w)"
| "c_arith_op Multiply v w = Some (v * w)"
| "c_arith_op Divide v w = (if w = 0 then None else Some (v sdiv w))"

fun expr_value :: "expr \<Rightarrow> int option" where
  "expr_value (Lit n) = Some n"
| "expr_value (Bin a e e') = do { v \<leftarrow> expr_value e; w \<leftarrow> expr_value e'; c_arith_op a v w }"

text \<open>Reading an operand, a product after a sign, and a sum, each up to the tokens that follow it.\<close>

definition reads :: "nat \<Rightarrow> token list \<Rightarrow> int \<Rightarrow> bool" where
  "reads l ts v \<longleftrightarrow> (\<forall>rest s p a fs. case l of
       0 \<Rightarrow> \<exists>s' p'. s' + p' = v \<and> calc (ts @ rest) (0, 0, Some Add) fs = calc rest (s', p', None) fs
     | Suc 0 \<Rightarrow> precedence a = 0 \<longrightarrow>
         calc (ts @ rest) (s, p, Some a) fs = calc rest (s + p, if a = Add then v else - v, None) fs
     | _ \<Rightarrow> calc (ts @ rest) (s, p, Some a) fs = do { f \<leftarrow> operand (s, p, Some a) v; calc rest f fs })"

lemma reads_sum: "reads 0 ts v \<Longrightarrow>
    \<exists>s' p'. s' + p' = v \<and> calc (ts @ rest) (0, 0, Some Add) fs = calc rest (s', p', None) fs"
  by (simp add: reads_def)

lemma reads_product: "reads 1 ts v \<Longrightarrow> precedence a = 0 \<Longrightarrow>
    calc (ts @ rest) (s, p, Some a) fs = calc rest (s + p, if a = Add then v else - v, None) fs"
  by (simp add: reads_def)

lemma reads_operand: "reads 2 ts v \<Longrightarrow>
    calc (ts @ rest) (s, p, Some a) fs = do { f \<leftarrow> operand (s, p, Some a) v; calc rest f fs }"
  by (simp add: reads_def numeral_2_eq_2)

lemma reads_weaken: "reads 2 ts v \<Longrightarrow> l \<le> 2 \<Longrightarrow> reads l ts v"
proof -
  assume r: "reads 2 ts v" and l: "l \<le> 2"
  have "precedence a = 0 \<Longrightarrow> a = Add \<or> a = Subtract" for a by (cases a) simp_all
  moreover have "l = 0 \<or> l = 1 \<or> l = 2" using l by auto
  ultimately show ?thesis using r reads_operand [OF r]
    by (auto simp: reads_def split: nat.splits) force+
qed

lemma reads_product_sum: "reads 1 ts v \<Longrightarrow> reads 0 ts v"
proof -
  assume "reads 1 ts v"
  then have "0 + v = v \<and> calc (ts @ rest) (0, 0, Some Add) fs = calc rest (0, v, None) fs" for rest fs
    using reads_product [of ts v Add rest 0 0 fs] by simp
  then show ?thesis unfolding reads_def nat.case(1) by blast
qed

lemma reads_parens: "reads 0 ts v \<Longrightarrow> reads 2 ([Open] @ ts @ [Close]) v"
proof -
  assume r: "reads 0 ts v"
  have "calc (([Open] @ ts @ [Close]) @ rest) (s, p, Some a) fs
      = do { f \<leftarrow> operand (s, p, Some a) v; calc rest f fs }" for rest s p a fs
    using reads_sum [OF r, of "Close # rest" "(s, p, Some a) # fs"] by auto
  then show ?thesis by (simp add: reads_def numeral_2_eq_2)
qed

lemma sdiv_minus: "(- v) sdiv w = - (v sdiv w)" for v w :: int
  by (simp add: signed_divide_int_def sgn_minus)

lemma reads_bin:
  assumes e: "reads (precedence a) ts v" and e': "reads (precedence a + 1) ts' w" and v: "c_arith_op a v w = Some u"
  shows "reads (precedence a) (ts @ [Op a] @ ts') u"
proof (cases "precedence a = 0")
  case True
  have "\<exists>s' p'. s' + p' = u \<and> calc ((ts @ [Op a] @ ts') @ rest) (0, 0, Some Add) fs = calc rest (s', p', None) fs" for rest fs
  proof -
    obtain s p where "s + p = v" "calc (ts @ Op a # ts' @ rest) (0, 0, Some Add) fs = calc (Op a # ts' @ rest) (s, p, None) fs"
      using reads_sum [of ts v "Op a # ts' @ rest" fs] e True by auto
    moreover have "v + (if a = Add then w else - w) = u" using v True by (cases a) simp_all
    ultimately show ?thesis using reads_product [of ts' w a rest s p fs] e' True
      by (intro exI [of _ "s + p"] exI [of _ "if a = Add then w else - w"]) simp
  qed
  then show ?thesis using True by (simp add: reads_def)
next
  case False
  then have a: "a = Multiply \<or> a = Divide" "precedence a = 1" by (cases a; simp)+
  have "calc ((ts @ [Op a] @ ts') @ rest) (s, p, Some b) fs
      = calc rest (s + p, if b = Add then u else - u, None) fs" if "precedence b = 0" for rest s p b fs
    using reads_product [of ts v b "Op a # ts' @ rest" s p fs] reads_operand [of ts' w rest "s + p" _ a fs] that e e' v a
    by (auto simp: sdiv_minus numeral_2_eq_2 split: if_splits)
  then show ?thesis using a by (simp add: reads_def)
qed

lemma reads_written: "expr_value e = Some v \<Longrightarrow> l \<le> 2 \<Longrightarrow> reads l (write_expr l e) v"
proof (induction e arbitrary: l v)
  case (Lit n)
  have "reads 2 [Number n] n" by (simp add: reads_def numeral_2_eq_2)
  then show ?case using Lit reads_weaken by simp
next
  case (Bin a e e')
  then obtain x y where xy: "expr_value e = Some x" "expr_value e' = Some y" "c_arith_op a x y = Some v"
    by (auto simp: bind_eq_Some_conv)
  let ?ts = "write_expr (precedence a) e @ [Op a] @ write_expr (precedence a + 1) e'"
  have p: "precedence a \<le> 1" by (cases a) simp_all
  have r: "reads (precedence a) ?ts v"
    using reads_bin [OF Bin.IH(1) [OF xy(1)] Bin.IH(2) [OF xy(2)] xy(3)] p by simp
  then have r0: "reads 0 ?ts v" using p reads_product_sum by (cases "precedence a") auto
  consider "precedence a < l" | "l = precedence a" | "l = 0" "precedence a = 1" using p by linarith
  then show ?case
  proof cases
    case 1
    then show ?thesis using reads_weaken [OF reads_parens [OF r0] Bin.prems(2)] by (simp add: Let_def)
  qed (use r r0 in \<open>simp_all add: Let_def\<close>)
qed

lemma expression_value_written:
  assumes "expr_value e = Some v"
  shows "expression_value (write_expr 0 e) = Some v"
  using reads_sum [OF reads_written [OF assms], of "[]" "[]"] by (auto simp: expression_value_def)

section \<open>The builds\<close>

text \<open>
  The file asks for a macro only before it defines it, and then what is defined does not depend on the
  order of evaluation: \<open>chosen\<close> lists the definitions made, newest first, when \<open>ask\<close> says
  which conditions hold.
\<close>

fun defined_names :: "directive list \<Rightarrow> string list" where
  "defined_names [] = []"
| "defined_names (Define x b # ds) = x # defined_names ds"
| "defined_names (Conditional c yes no # ds) = defined_names yes @ defined_names no @ defined_names ds"

fun chosen :: "(condition \<Rightarrow> bool) \<Rightarrow> directive list \<Rightarrow> macros" where
  "chosen ask [] = []"
| "chosen ask (Define x b # ds) = chosen ask ds @ [(x, b)]"
| "chosen ask (Conditional c yes no # ds) = chosen ask ds @ (if ask c then chosen ask yes else chosen ask no)"

fun asked_name :: "condition \<Rightarrow> string" where
  "asked_name (Ifndef x) = x"
| "asked_name (IfNonzero x) = x"
| "asked_name (IfDefinedOne x) = x"

fun asks_first :: "string list \<Rightarrow> directive list \<Rightarrow> bool" where
  "asks_first seen [] \<longleftrightarrow> True"
| "asks_first seen (Define x b # ds) \<longleftrightarrow> asks_first (x # seen) ds"
| "asks_first seen (Conditional c yes no # ds) \<longleftrightarrow> asked_name c \<notin> set seen \<and> asks_first seen yes \<and> asks_first seen no
     \<and> asks_first (defined_names yes @ defined_names no @ seen) ds"

text \<open>A build gives its settings as numbers; a setting that it does not give counts as 0.\<close>

definition numeric :: "macros \<Rightarrow> string \<Rightarrow> bool" where
  "numeric m x \<longleftrightarrow> (\<forall>b. map_of m x = Some b \<longrightarrow> (\<exists>n. b = [Number n]))"

definition setting :: "macros \<Rightarrow> string \<Rightarrow> int" where
  "setting m x = (case map_of m x of Some [Number n] \<Rightarrow> n | _ \<Rightarrow> 0)"

fun holds_in :: "macros \<Rightarrow> condition \<Rightarrow> bool" where
  "holds_in m (Ifndef x) \<longleftrightarrow> map_of m x = None"
| "holds_in m (IfNonzero x) \<longleftrightarrow> setting m x \<noteq> 0"
| "holds_in m (IfDefinedOne x) \<longleftrightarrow> setting m x = 1"

fun numeric_conditions :: "macros \<Rightarrow> directive list \<Rightarrow> bool" where
  "numeric_conditions m [] \<longleftrightarrow> True"
| "numeric_conditions m (Define x b # ds) \<longleftrightarrow> numeric_conditions m ds"
| "numeric_conditions m (Conditional c yes no # ds) \<longleftrightarrow> (case c of Ifndef x \<Rightarrow> True | _ \<Rightarrow> numeric m (asked_name c))
     \<and> numeric_conditions m yes \<and> numeric_conditions m no \<and> numeric_conditions m ds"

lemma if_value_setting:
  assumes "numeric m x"
  shows "if_value m x = Some (setting m x)"
  using assms by (cases "map_of m x") (auto simp: if_value_def numeric_def setting_def expression_value_def)

lemma condition_holds_setting:
  assumes "case c of Ifndef x \<Rightarrow> True | _ \<Rightarrow> numeric m (asked_name c)" "map_of m' (asked_name c) = map_of m (asked_name c)"
  shows "condition_holds m' c = Some (holds_in m c)"
proof -
  have "numeric m' (asked_name c) = numeric m (asked_name c)" "setting m' (asked_name c) = setting m (asked_name c)"
    using assms(2) by (simp_all add: numeric_def setting_def)
  moreover have "map_of m x = None \<Longrightarrow> setting m x = 0" for x by (simp add: setting_def)
  ultimately show ?thesis using assms if_value_setting by (cases c) (auto, fastforce+)
qed

lemma chosen_names: "fst ` set (chosen ask ds) \<subseteq> set (defined_names ds)"
  by (induction ds rule: defined_names.induct) (auto split: if_splits)

lemma map_of_new: "fst ` set h \<subseteq> A \<Longrightarrow> x \<notin> A \<Longrightarrow> map_of (h @ m) x = map_of m x"
  by (induction h) auto

lemma preprocess_chosen:
  assumes "asks_first seen ds" "numeric_conditions m ds" "fst ` set h \<subseteq> set seen"
  shows "preprocess ds (h @ m) = Some (chosen (holds_in m) ds @ h @ m)"
  using assms
proof (induction seen ds arbitrary: h rule: asks_first.induct)
  case (2 seen x b ds)
  then show ?case using "2.IH" [of "(x, b) # h"] by auto
next
  case (3 seen c yes no ds)
  let ?h = "if holds_in m c then chosen (holds_in m) yes else chosen (holds_in m) no"
  have "condition_holds (h @ m) c = Some (holds_in m c)"
    by (rule condition_holds_setting) (use 3 map_of_new in auto)
  moreover have "(if holds_in m c then preprocess yes (h @ m) else preprocess no (h @ m)) = Some ((?h @ h) @ m)"
    using "3.IH"(1,2) [of h] "3.prems" by simp
  moreover have "fst ` set (?h @ h) \<subseteq> set (defined_names yes @ defined_names no @ seen)"
    unfolding set_append image_Un using "3.prems"(3) chosen_names [of "holds_in m" yes] chosen_names [of "holds_in m" no]
    by (simp add: le_supI1 le_supI2)
  then have "preprocess ds ((?h @ h) @ m) = Some (chosen (holds_in m) ds @ (?h @ h) @ m)"
    by (rule "3.IH"(3) [rotated 2]) (use "3.prems" in simp_all)
  ultimately show ?case by (simp only: preprocess.simps Option.bind.bind_lunit chosen.simps append_assoc)
qed simp

text \<open>Reading a table of macros that was put together in parts.\<close>

lemma map_of_append_case: "map_of (h @ m) x = (case map_of h x of None \<Rightarrow> map_of m x | Some b \<Rightarrow> Some b)"
  by (simp add: map_add_def)

lemma map_of_choice: "map_of (if c then h else h') x = (if c then map_of h x else map_of h' x)"
  by simp

lemma map_of_other: "map_of (filter (\<lambda>d. fst d \<noteq> x) m) y = (if y = x then None else map_of m y)"
  by (induction m) auto

text \<open>The names of \<open>h\<close> that are redefined, with the definitions of \<open>m\<close> before them.\<close>

fun clashes :: "macros \<Rightarrow> macros \<Rightarrow> string list" where
  "clashes [] m = []"
| "clashes ((x, b) # h) m =
     (if map_of (h @ m) x = None \<or> map_of (h @ m) x = Some b then [] else [x]) @ clashes h m"

lemma redefinitions_append: "redefinitions (h @ m) = clashes h m @ redefinitions m"
  by (induction h m rule: clashes.induct) simp_all

lemma clashes_append: "clashes (h @ k) m = clashes h (k @ m) @ clashes k m"
  by (induction h m rule: clashes.induct) simp_all

lemma clashes_choice: "clashes (if c then h else h') m = (if c then clashes h m else clashes h' m)"
  by simp

lemmas table_simps = map_of_append_case map_of_choice map_of_other clashes_append clashes_choice

text \<open>
  The macros a build may give: numbers for the three options that the file lets a build choose and for the
  settings it asks for, and none of the other names it defines.
\<close>

definition override_names :: "string list" where
  "override_names = [''NO_SYS'', ''LWIP_SOCKET'', ''MEM_SIZE'']"

definition build_macros :: "macros \<Rightarrow> bool" where
  "build_macros m \<longleftrightarrow> (\<forall>x \<in> set (defined_names lwipopts). x \<notin> set override_names \<longrightarrow> map_of m x = None)
     \<and> (\<forall>x \<in> set (override_names @ [''PICO_CYW43_ARCH_POLL'', ''LWIP_MALLOC_DEBUG'', ''LWIP_PROTOCOL_DEBUG'']). numeric m x)
     \<and> redefinitions m = []"

lemmas lwipopts_defs = lwipopts_def lwipopts_common_def lwipopts_debug_def lwipopts_local_def

lemma lwipopts_asks_first: "asks_first [] lwipopts"
  by code_simp

lemma lwipopts_chosen:
  assumes "build_macros m"
  shows "preprocess lwipopts m = Some (chosen (holds_in m) lwipopts @ m)"
proof -
  have "numeric_conditions m lwipopts"
    using assms by (simp add: build_macros_def lwipopts_defs)
  then show ?thesis using preprocess_chosen [OF lwipopts_asks_first, of m "[]"] by simp
qed

lemma chosen_append: "chosen ask (ds @ ds') = chosen ask ds' @ chosen ask ds"
  by (induction ask ds rule: chosen.induct) simp_all

text \<open>
  The directives on the names in \<open>R\<close>, which decide what becomes of these names, and the names that are
  listed twice, the only ones that a definition of the file can redefine.
\<close>

fun only :: "string list \<Rightarrow> directive list \<Rightarrow> directive list" where
  "only R [] = []"
| "only R (Define x b # ds) = (if x \<in> set R then [Define x b] else []) @ only R ds"
| "only R (Conditional c yes no # ds) = Conditional c (only R yes) (only R no) # only R ds"

fun repeated :: "string list \<Rightarrow> string list" where
  "repeated [] = []"
| "repeated (x # xs) = (if x \<in> set xs then [x] else []) @ repeated xs"

lemma chosen_only: "chosen ask (only R ds) = filter (\<lambda>d. fst d \<in> set R) (chosen ask ds)"
  by (induction R ds rule: only.induct) (auto simp: chosen_append)

lemma map_of_only: "x \<in> set R \<Longrightarrow> map_of (filter (\<lambda>d. fst d \<in> set R) m) x = map_of m x"
  by (induction m) auto

lemma repeated_append: "set (repeated (xs @ ys)) = set (repeated xs) \<union> set (repeated ys) \<union> (set xs \<inter> set ys)"
  by (induction xs) auto

lemma repeated_chosen: "set (repeated (map fst (chosen ask ds))) \<subseteq> set (repeated (defined_names ds))"
proof (induction ask ds rule: chosen.induct)
  case (2 ask x b ds)
  then show ?case using chosen_names [of ask ds] by (auto simp: repeated_append)
next
  case (3 ask c yes no ds)
  then show ?case
    using chosen_names [of ask ds] chosen_names [of ask yes] chosen_names [of ask no]
    by (cases "ask c") (simp_all add: repeated_append; blast)+
qed simp

lemma clashes_once: "x \<in> set (clashes h m) \<Longrightarrow> map_of m x = None \<Longrightarrow> x \<in> set (repeated (map fst h))"
  by (induction h m rule: clashes.induct)
    (auto simp: map_of_append_case map_of_eq_None_iff split: if_splits option.splits dest: map_of_SomeD)

lemma clashes_only: "filter (\<lambda>x. x \<in> set R) (clashes h m) = clashes (filter (\<lambda>d. fst d \<in> set R) h) m"
  by (induction h m rule: clashes.induct) (simp_all add: map_of_append_case map_of_only del: map_of_append)

lemma clashes_names: "set (clashes h m) \<subseteq> fst ` set h"
  by (induction h m rule: clashes.induct) auto

definition lwipopts_twice :: "string list" where
  "lwipopts_twice = [''NO_SYS'', ''LWIP_SOCKET'', ''MEM_SIZE'', ''MEM_LIBC_MALLOC'', ''MEM_STATS'', ''MEMP_STATS'', ''LWIP_DEBUG'',
     ''LWIP_STATS'', ''LWIP_STATS_DISPLAY'', ''PBUF_DEBUG'', ''UDP_DEBUG'']"

lemma lwipopts_repeated: "list_all (\<lambda>x. x \<in> set lwipopts_twice) (repeated (defined_names lwipopts) @ override_names)"
  by code_simp

lemma lwipopts_only_twice: "only lwipopts_twice lwipopts = [
    Conditional (Ifndef ''NO_SYS'') [Define ''NO_SYS'' [Number 1]] [],
    Conditional (Ifndef ''LWIP_SOCKET'') [Define ''LWIP_SOCKET'' [Number 0]] [],
    Conditional (IfNonzero ''PICO_CYW43_ARCH_POLL'') [Define ''MEM_LIBC_MALLOC'' [Number 1]] [Define ''MEM_LIBC_MALLOC'' [Number 0]],
    Conditional (Ifndef ''MEM_SIZE'') [Define ''MEM_SIZE'' [Number 4000]] [],
    Define ''MEM_STATS'' [Number 0],
    Define ''MEMP_STATS'' [Number 0],
    Conditional (Ifndef ''NDEBUG'') [Define ''LWIP_DEBUG'' [Number 1], Define ''LWIP_STATS'' [Number 1], Define ''LWIP_STATS_DISPLAY'' [Number 1]] [],
    Define ''PBUF_DEBUG'' [Name ''LWIP_DBG_OFF''],
    Define ''UDP_DEBUG'' [Name ''LWIP_DBG_OFF''],
    Define ''MEM_SIZE'' [Number 16, Op Multiply, Number 1024],
    Conditional (IfDefinedOne ''LWIP_MALLOC_DEBUG'') [Define ''LWIP_STATS'' [Number 1], Define ''LWIP_STATS_DISPLAY'' [Number 1], Define ''MEM_STATS'' [Number 1], Define ''MEMP_STATS'' [Number 1]] [],
    Conditional (IfDefinedOne ''LWIP_PROTOCOL_DEBUG'') [Define ''LWIP_DEBUG'' [Number 1], Define ''PBUF_DEBUG'' [Name ''LWIP_DBG_ON''], Define ''UDP_DEBUG'' [Name ''LWIP_DBG_ON'']] []]"
  by code_simp

lemma lwipopts_absent:
  assumes "build_macros m" and "x \<in> set [''MEM_LIBC_MALLOC'', ''MEM_STATS'', ''MEMP_STATS'', ''LWIP_DEBUG'', ''LWIP_STATS'',
    ''LWIP_STATS_DISPLAY'', ''PBUF_DEBUG'', ''UDP_DEBUG'']"
  shows "map_of m x = None"
proof -
  have "list_all (\<lambda>x. x \<in> set (defined_names lwipopts) \<and> x \<notin> set override_names) [''MEM_LIBC_MALLOC'', ''MEM_STATS'',
    ''MEMP_STATS'', ''LWIP_DEBUG'', ''LWIP_STATS'', ''LWIP_STATS_DISPLAY'', ''PBUF_DEBUG'', ''UDP_DEBUG'']"
    by code_simp
  then show ?thesis using assms unfolding build_macros_def list_all_iff by blast
qed

lemma lwipopts_clashes:
  assumes m: "build_macros m"
  shows "clashes (chosen (holds_in m) lwipopts) m =
       (if setting m ''LWIP_PROTOCOL_DEBUG'' = 1 then [''UDP_DEBUG'', ''PBUF_DEBUG''] else [])
     @ (if setting m ''LWIP_MALLOC_DEBUG'' = 1 then [''MEMP_STATS'', ''MEM_STATS''] else []) @ [''MEM_SIZE'']"
proof -
  let ?h = "chosen (holds_in m) lwipopts"
  have absent: "map_of m ''MEM_LIBC_MALLOC'' = None" "map_of m ''MEM_STATS'' = None" "map_of m ''MEMP_STATS'' = None"
    "map_of m ''LWIP_DEBUG'' = None" "map_of m ''LWIP_STATS'' = None" "map_of m ''LWIP_STATS_DISPLAY'' = None"
    "map_of m ''PBUF_DEBUG'' = None" "map_of m ''UDP_DEBUG'' = None"
    by (rule lwipopts_absent [OF m]; simp)+
  have size: "map_of m ''MEM_SIZE'' = None \<or> (\<exists>n. map_of m ''MEM_SIZE'' = Some [Number n])"
    using m by (cases "map_of m ''MEM_SIZE''") (simp_all add: build_macros_def override_names_def numeric_def)
  have twice: "x \<in> set lwipopts_twice" if "x \<in> set (clashes ?h m)" for x
  proof (rule ccontr)
    assume x: "x \<notin> set lwipopts_twice"
    have h: "x \<in> fst ` set ?h" using that clashes_names by blast
    have "x \<notin> set override_names" "x \<notin> set (repeated (defined_names lwipopts))"
      using x lwipopts_repeated by (auto simp: list_all_iff)
    moreover have "x \<in> set (defined_names lwipopts)" by (rule subsetD [OF chosen_names h])
    ultimately have "map_of m x = None" using m by (simp add: build_macros_def)
    from subsetD [OF repeated_chosen clashes_once [OF that this]] show False
      using \<open>x \<notin> set (repeated _)\<close> by contradiction
  qed
  then have "clashes ?h m = filter (\<lambda>x. x \<in> set lwipopts_twice) (clashes ?h m)" by simp
  also have "\<dots> = clashes (chosen (holds_in m) (only lwipopts_twice lwipopts)) m"
    by (simp only: clashes_only chosen_only)
  also have "\<dots> = (if setting m ''LWIP_PROTOCOL_DEBUG'' = 1 then [''UDP_DEBUG'', ''PBUF_DEBUG''] else [])
     @ (if setting m ''LWIP_MALLOC_DEBUG'' = 1 then [''MEMP_STATS'', ''MEM_STATS''] else []) @ [''MEM_SIZE'']"
    unfolding lwipopts_only_twice
    using size by (elim disjE exE) (simp_all add: table_simps absent del: map_of_append cong del: if_weak_cong)
  finally show ?thesis .
qed

definition lwipopts_sizes :: "string list" where
  "lwipopts_sizes = [''NO_SYS'', ''LWIP_SOCKET'', ''LWIP_NETCONN'', ''MEM_LIBC_MALLOC'', ''MEM_SIZE'', ''MEMP_NUM_TCP_SEG'',
     ''TCP_WND'', ''TCP_MSS'', ''TCP_SND_BUF'', ''TCP_SND_QUEUELEN'', ''MEM_STATS'', ''LWIP_DEBUG'', ''UDP_DEBUG'']"

lemma lwipopts_only_sizes: "only lwipopts_sizes lwipopts = [
    Conditional (Ifndef ''NO_SYS'') [Define ''NO_SYS'' [Number 1]] [],
    Conditional (Ifndef ''LWIP_SOCKET'') [Define ''LWIP_SOCKET'' [Number 0]] [],
    Conditional (IfNonzero ''PICO_CYW43_ARCH_POLL'') [Define ''MEM_LIBC_MALLOC'' [Number 1]] [Define ''MEM_LIBC_MALLOC'' [Number 0]],
    Conditional (Ifndef ''MEM_SIZE'') [Define ''MEM_SIZE'' [Number 4000]] [],
    Define ''MEMP_NUM_TCP_SEG'' [Number 32],
    Define ''TCP_WND'' [Open, Number 8, Op Multiply, Name ''TCP_MSS'', Close],
    Define ''TCP_MSS'' [Number 1460],
    Define ''TCP_SND_BUF'' [Open, Number 8, Op Multiply, Name ''TCP_MSS'', Close],
    Define ''TCP_SND_QUEUELEN'' [Open, Open, Number 4, Op Multiply, Open, Name ''TCP_SND_BUF'', Close,
      Op Add, Open, Name ''TCP_MSS'', Op Subtract, Number 1, Close, Close, Op Divide, Open, Name ''TCP_MSS'', Close, Close],
    Define ''LWIP_NETCONN'' [Number 0],
    Define ''MEM_STATS'' [Number 0],
    Conditional (Ifndef ''NDEBUG'') [Define ''LWIP_DEBUG'' [Number 1]] [],
    Define ''UDP_DEBUG'' [Name ''LWIP_DBG_OFF''],
    Define ''MEM_SIZE'' [Number 16, Op Multiply, Number 1024],
    Conditional (IfDefinedOne ''LWIP_MALLOC_DEBUG'') [Define ''MEM_STATS'' [Number 1]] [],
    Conditional (IfDefinedOne ''LWIP_PROTOCOL_DEBUG'') [Define ''LWIP_DEBUG'' [Number 1], Define ''UDP_DEBUG'' [Name ''LWIP_DBG_ON'']] []]"
  by code_simp

lemma lwipopts_lookup:
  assumes "build_macros m" and t: "t = chosen (holds_in m) lwipopts @ m"
  shows "map_of t ''TCP_MSS'' = Some [Number 1460]"
    and "map_of t ''TCP_SND_BUF'' = Some [Open, Number 8, Op Multiply, Name ''TCP_MSS'', Close]"
    and "map_of t ''TCP_WND'' = Some [Open, Number 8, Op Multiply, Name ''TCP_MSS'', Close]"
    and "map_of t ''TCP_SND_QUEUELEN'' = Some [Open, Open, Number 4, Op Multiply, Open, Name ''TCP_SND_BUF'', Close,
      Op Add, Open, Name ''TCP_MSS'', Op Subtract, Number 1, Close, Close, Op Divide, Open, Name ''TCP_MSS'', Close, Close]"
    and "map_of t ''MEMP_NUM_TCP_SEG'' = Some [Number 32]"
    and "map_of t ''MEM_SIZE'' = Some [Number 16, Op Multiply, Number 1024]"
    and "map_of t ''MEM_LIBC_MALLOC'' = Some [Number (if setting m ''PICO_CYW43_ARCH_POLL'' = 0 then 0 else 1)]"
    and "map_of t ''NO_SYS'' = Some [Number (if map_of m ''NO_SYS'' = None then 1 else setting m ''NO_SYS'')]"
    and "map_of t ''LWIP_SOCKET'' = Some [Number (if map_of m ''LWIP_SOCKET'' = None then 0 else setting m ''LWIP_SOCKET'')]"
    and "map_of t ''LWIP_NETCONN'' = Some [Number 0]"
    and "map_of t ''MEM_STATS'' = Some [Number (if setting m ''LWIP_MALLOC_DEBUG'' = 1 then 1 else 0)]"
    and "map_of t ''UDP_DEBUG'' = Some [Name (if setting m ''LWIP_PROTOCOL_DEBUG'' = 1 then ''LWIP_DBG_ON'' else ''LWIP_DBG_OFF'')]"
    and "map_of t ''LWIP_DEBUG'' = (if map_of m ''NDEBUG'' = None \<or> setting m ''LWIP_PROTOCOL_DEBUG'' = 1 then Some [Number 1] else None)"
proof -
  let ?h = "chosen (holds_in m) lwipopts"
  have look: "map_of t x = (case map_of (chosen (holds_in m) (only lwipopts_sizes lwipopts)) x of None \<Rightarrow> map_of m x | Some b \<Rightarrow> Some b)"
    if "x \<in> set lwipopts_sizes" for x
    using that by (simp only: t chosen_only map_of_only map_of_append_case)
  have numeric: "numeric m ''NO_SYS''" "numeric m ''LWIP_SOCKET''"
    using assms(1) by (simp_all add: build_macros_def override_names_def)
  note key = look [unfolded lwipopts_only_sizes]
  show "map_of t ''TCP_MSS'' = Some [Number 1460]"
    "map_of t ''TCP_SND_BUF'' = Some [Open, Number 8, Op Multiply, Name ''TCP_MSS'', Close]"
    "map_of t ''TCP_WND'' = Some [Open, Number 8, Op Multiply, Name ''TCP_MSS'', Close]"
    "map_of t ''TCP_SND_QUEUELEN'' = Some [Open, Open, Number 4, Op Multiply, Open, Name ''TCP_SND_BUF'', Close,
      Op Add, Open, Name ''TCP_MSS'', Op Subtract, Number 1, Close, Close, Op Divide, Open, Name ''TCP_MSS'', Close, Close]"
    "map_of t ''MEMP_NUM_TCP_SEG'' = Some [Number 32]"
    "map_of t ''MEM_SIZE'' = Some [Number 16, Op Multiply, Number 1024]"
    "map_of t ''MEM_LIBC_MALLOC'' = Some [Number (if setting m ''PICO_CYW43_ARCH_POLL'' = 0 then 0 else 1)]"
    "map_of t ''LWIP_NETCONN'' = Some [Number 0]"
    "map_of t ''MEM_STATS'' = Some [Number (if setting m ''LWIP_MALLOC_DEBUG'' = 1 then 1 else 0)]"
    "map_of t ''UDP_DEBUG'' = Some [Name (if setting m ''LWIP_PROTOCOL_DEBUG'' = 1 then ''LWIP_DBG_ON'' else ''LWIP_DBG_OFF'')]"
    by (simp_all add: key lwipopts_sizes_def table_simps del: map_of_append)
  show "map_of t ''LWIP_DEBUG'' = (if map_of m ''NDEBUG'' = None \<or> setting m ''LWIP_PROTOCOL_DEBUG'' = 1 then Some [Number 1] else None)"
    using lwipopts_absent [OF assms(1), of "''LWIP_DEBUG''"]
    by (simp add: key lwipopts_sizes_def table_simps del: map_of_append)
  show "map_of t ''NO_SYS'' = Some [Number (if map_of m ''NO_SYS'' = None then 1 else setting m ''NO_SYS'')]"
    "map_of t ''LWIP_SOCKET'' = Some [Number (if map_of m ''LWIP_SOCKET'' = None then 0 else setting m ''LWIP_SOCKET'')]"
    using numeric
    by (auto simp: key lwipopts_sizes_def table_simps numeric_def setting_def simp del: map_of_append split: option.splits)
qed

lemma option_value_number: "map_of t x = Some [Number n] \<Longrightarrow> option_value t x = Some n"
  by (simp add: option_value_def expression_value_def)

lemma lwipopts_derived:
  assumes "build_macros m" and t: "t = chosen (holds_in m) lwipopts @ m"
  shows "option_value t ''TCP_SND_BUF'' = Some 11680" "option_value t ''TCP_WND'' = Some 11680"
    "option_value t ''TCP_SND_QUEUELEN'' = Some 32" "option_value t ''MEM_SIZE'' = Some 16384"
  using lwipopts_lookup [OF assms]
  by (simp_all add: option_value_def expression_value_def map_of_other sdiv_nonneg del: filter_filter)

text \<open>
  C40: The options of the stack, for every build that may define them. Whatever the build gives for NDEBUG, for the polling
  variant and for the two debug settings, and also if it gives its own MEM_SIZE, NO_SYS or LWIP_SOCKET: the file is
  accepted; the names it redefines against the standard are MEM_SIZE, always, and with the debug settings the four
  that they change; the heap has 16384 bytes (so a build's own MEM_SIZE is lost); the heap of the C library is used
  exactly with polling; no socket interface unless the build asks for it; and the send queue is the one that the
  properties of the web server use, within what the stack documents: a send buffer of at least two segments, at
  least two queue entries for each of its segments, and as many segments in the pool as in one queue.
\<close>

theorem lwipopts_for_every_build:
  assumes "build_macros m"
  shows "\<exists>t. preprocess lwipopts m = Some t
    \<and> redefinitions t = (if setting m ''LWIP_PROTOCOL_DEBUG'' = 1 then [''UDP_DEBUG'', ''PBUF_DEBUG''] else [])
        @ (if setting m ''LWIP_MALLOC_DEBUG'' = 1 then [''MEMP_STATS'', ''MEM_STATS''] else []) @ [''MEM_SIZE'']
    \<and> option_value t ''MEM_SIZE'' = Some 16384
    \<and> option_value t ''MEM_LIBC_MALLOC'' = Some (if setting m ''PICO_CYW43_ARCH_POLL'' = 0 then 0 else 1)
    \<and> option_value t ''MEM_STATS'' = Some (if setting m ''LWIP_MALLOC_DEBUG'' = 1 then 1 else 0)
    \<and> option_value t ''NO_SYS'' = Some (if map_of m ''NO_SYS'' = None then 1 else setting m ''NO_SYS'')
    \<and> option_value t ''LWIP_SOCKET'' = Some (if map_of m ''LWIP_SOCKET'' = None then 0 else setting m ''LWIP_SOCKET'')
    \<and> option_value t ''LWIP_NETCONN'' = Some 0
    \<and> option_value t ''TCP_MSS'' = Some (int TCP_MSS) \<and> option_value t ''TCP_WND'' = Some (int TCP_SND_BUF)
    \<and> option_value t ''TCP_SND_BUF'' = Some (int TCP_SND_BUF)
    \<and> option_value t ''TCP_SND_QUEUELEN'' = Some (int TCP_SND_QUEUELEN)
    \<and> option_value t ''MEMP_NUM_TCP_SEG'' = Some (int MEMP_NUM_TCP_SEG)
    \<and> 2 * TCP_MSS \<le> TCP_SND_BUF \<and> 2 * (TCP_SND_BUF div TCP_MSS) \<le> TCP_SND_QUEUELEN \<and> TCP_SND_QUEUELEN \<le> MEMP_NUM_TCP_SEG
    \<and> (map_of t ''LWIP_DEBUG'' \<noteq> None \<longleftrightarrow> map_of m ''NDEBUG'' = None \<or> setting m ''LWIP_PROTOCOL_DEBUG'' = 1)
    \<and> map_of t ''UDP_DEBUG'' = Some [Name (if setting m ''LWIP_PROTOCOL_DEBUG'' = 1 then ''LWIP_DBG_ON'' else ''LWIP_DBG_OFF'')]"
proof -
  let ?t = "chosen (holds_in m) lwipopts @ m"
  note look = lwipopts_lookup [OF assms refl]
  note number = look(1,5,7-11) [THEN option_value_number]
  have redefs: "redefinitions ?t = clashes (chosen (holds_in m) lwipopts) m"
    using assms by (simp add: redefinitions_append build_macros_def)
  show ?thesis
    unfolding lwipopts_chosen [OF assms] option.inject
    by (rule exI [of _ ?t], unfold redefs lwipopts_clashes [OF assms] number look(12,13) lwipopts_derived [OF assms refl])
      (simp add: lwip_options)
qed

theorem lwipopts_for_every_build_witness:
  "\<exists>t. preprocess lwipopts [(''NDEBUG'', []), (''MEM_SIZE'', [Number 9000]), (''LWIP_MALLOC_DEBUG'', [Number 0]),
      (''LWIP_PROTOCOL_DEBUG'', [Number 1])] = Some t
    \<and> option_value t ''MEM_SIZE'' = Some 16384 \<and> redefinitions t = [''UDP_DEBUG'', ''PBUF_DEBUG'', ''MEM_SIZE'']"
proof -
  let ?m = "[(''NDEBUG'', []), (''MEM_SIZE'', [Number 9000]), (''LWIP_MALLOC_DEBUG'', [Number 0]), (''LWIP_PROTOCOL_DEBUG'', [Number 1])]"
  have "list_all (\<lambda>x. x \<notin> set override_names \<longrightarrow> map_of ?m x = None) (defined_names lwipopts)" by code_simp
  then have "build_macros ?m"
    by (simp add: build_macros_def list_all_iff numeric_def override_names_def)
  then show ?thesis using lwipopts_for_every_build [of ?m] by (auto simp: setting_def)
qed

end
