(* ===== verification/Spec2Isabelle.thy ===== *)
theory Spec2Isabelle
  imports Preemption Timekeeping Flash HttpServe Portal LwipOpts
begin

text \<open>
  A model of the firmware of the Pico W day clock (the C sources under src/src). The firmware shows the
  day of the week and the time on seven small displays; it takes the time from an NTP server over
  Wi-Fi, applies a time zone and a daylight saving rule, and is configured through a web form that
  it serves from its own access point. The definitions are translated from the sources; what the
  Pico SDK, lwIP, the radio driver and the C library answer is an argument of the definitions or, for
  the C string functions and the civil calendar, a definition of their documented behaviour.

  Parts and their theories, in the order they build on each other:

  \<^item> \<open>Prelude\<close>: machine integers, bounds-checked arrays (\<open>None\<close> is an access outside), C's
    truncating division, and the two contracts most components share: \<open>invariant_machine\<close> (handlers
    that keep an invariant) and \<open>safe_machine\<close> (handlers that also never leave an array).
  \<^item> \<open>Calendar\<close>: \<open>timegm\<close> and \<open>gmtime_r\<close> of the C library over the Gregorian calendar.
  \<^item> \<open>Config\<close>: config.h, the status enumerations and \<open>flash_config_t\<close>.
  \<^item> \<open>Weekday\<close>, \<open>Dst\<close>: clock.c's \<open>day_of_week\<close>, \<open>nth_weekday\<close>, \<open>get_dst_bounds\<close>,
    \<open>time_is_dst\<close>, \<open>calculate_local_time\<close>, \<open>time_as_string\<close>. The lemmas compare them with an
    independent reading of the rule table; the locale \<open>yearly_window\<close> holds what a window that opens
    and closes once a year means, and is interpreted at each rule.
  \<^item> \<open>Lwip\<close>: packet buffers, datagrams, error codes, network byte order, the options of lwipopts.h that
    bound a connection's send queue. \<open>LwipOpts\<close>: lwipopts.h itself, as a list of directives that
    \<open>preprocess\<close> runs on the macros of a build; the lemmas reduce a run to the definitions it chooses
    and check the evaluation of option values against expression trees. \<open>CStruct\<close>: the layout of a C
    struct and the bytes of its fields.
  \<^item> \<open>Ntp\<close>: ntp.c. The state is \<open>ntp_state_t\<close>; \<open>ntp_step\<close> is one callback or call.
  \<^item> \<open>DnsServer\<close>: dnsserver.c, from the packet to the datagram sent.
  \<^item> \<open>DhcpServer\<close>: dhcpserver.c; the handler works on the message's bytes, the abstract server
    \<open>dhcp_handle\<close> on parsed options, and the refinement between them is a lemma.
  \<^item> \<open>CString\<close>, \<open>HttpText\<close>, \<open>ConfigForm\<close>, \<open>TcpServer\<close>, \<open>AccessPoint\<close>: wifi.c. The string
    functions; decoding and template expansion; the form's fields; the connection slots and lwIP's
    callbacks; the station's connection loop and the access point, which runs the three servers.
    \<open>HttpServe\<close>: the life of a connection from a GET request to the release of its slot.
    \<open>Portal\<close>: the three servers of the access point together. \<open>portal_inv\<close> is their joint
    invariant; \<open>ap_frame\<close> is what the events of other clients leave of one client's lease and
    connection, and with it a phone's way from its first message to the configuration page is followed.
  \<^item> \<open>Lcd\<close>: lcd.c, lcd.h and bitmap.h. Calls into the SDK are events on the shared bus; \<open>received\<close>
    is what one panel takes from it. The lemmas give the pixels each operation delivers, and to which panel.
  \<^item> \<open>Clock\<close>: clock.c's state \<open>clock_state_t\<close>, its callbacks, \<open>clock_init\<close>, \<open>clock_start\<close>,
    \<open>clock_task\<close>, and \<open>fatal_reset\<close>. A call returns an \<open>outcome\<close>: done, a reset (of which only
    \<open>clock_world\<close> remains), waiting for ever, or an access outside an array. \<open>clock_inv\<close> is the
    invariant of a running clock; each operation has a lemma that keeps it.
  \<^item> \<open>Device\<close>: pico_main.c, from power-on over the events that reach a running clock to the reset
    (\<open>device_life\<close>), and sequences of such lives. The locale \<open>resettable_machine\<close> is the contract
    of a component whose steps may reset the device; the properties that span all components are here.
  \<^item> \<open>Preemption\<close>: \<open>clock_task\<close> cut into phases, with the callbacks between any two of them.
  \<^item> \<open>Flash\<close>: the configuration in the flash byte by byte, and the refinement of the record in
    \<open>clock_world\<close> by the bytes, the power being cut at any point of a store.
  \<^item> \<open>Timekeeping\<close>: the device together with a network that answers and a server that knows the time,
    one transition system (\<open>served\<close>); the device never resets and shows the true time up to the delay.

  How the parts interact: the timers' callbacks set flags in \<open>clock_state_t\<close> that the task reads; the
  NTP client hands its time over through \<open>ntp_timer_callback\<close> and its status through a snapshot; the
  task draws through the driver; configuration mode stores through \<open>config_store_handler\<close> and
  ends in a reset; an error goes from \<open>fatal_reset\<close> over the uninitialised section to the next boot.

  Loops: recursion over the data where the code walks a buffer (with a measure); the two loops that have
  no bound of their own (\<open>connect_loop\<close>, \<open>ap_loop\<close>) are partial functions whose \<open>None\<close> is
  not returning, and their termination is a property. The main loop is the list of events given to
  \<open>device_run\<close>, or the steps of \<open>served\<close> and \<open>preempt\<close>. No fuel is used; the 22 steps of
  \<open>clock_task_phases\<close> are the longest path of the task. Time is counted by the arguments that the
  driver and the timer give.

  Interleaving: in \<open>Device\<close> a call of \<open>clock_task\<close>, of a callback or of the start-up is one step, and
  the callbacks run between steps, in any order. \<open>Preemption\<close> cuts \<open>clock_task\<close> at its accesses
  to shared state (\<open>task_step\<close>), shows that the phases are the task, and lets the callbacks run
  between any two phases (the relation \<open>preempt\<close>), so between two digits and in the middle of a
  request as well. The start-up is one step: a reply that comes during its last half second is
  taken after it.

  Not modelled: the SDK, lwIP and the radio driver; what lwIP does with its options; \<open>tcp_output\<close>, the
  request to send now what \<open>tcp_write\<close> has queued; debug output; the host tests and
  their harness (src/tests, test_main.c); the Python scripts that generate fonts, icons and the page, and
  the generated data, which are arguments; the hardware files; the level of the pins between a reset and
  \<open>lcd_init\<close>; the watchdog's own timeout.
\<close>

end
